(* ===== verification/Py_Prelude.thy ===== *)
theory Py_Prelude
  imports Main "HOL-Library.Word"
begin

text \<open>
  Shared vocabulary of the development: Python's exceptions as values, byte strings,
  slicing and indexing, and the part of the standard library's \<open>struct\<close> and
  \<open>int.from_bytes\<close> the program uses (fixed-width fields in network or little-endian order).
  Python's \<open>int\<close> is \<open>int\<close>; an element of a \<open>bytes\<close> object is an \<open>8 word\<close>, read as the
  integer \<open>uint b\<close> where the code indexes or iterates.  The two collections
  \<open>py_defs\<close> (unfolding of small helpers) and \<open>pack_simps\<close> (fixed-width fields, laid out)
  carry the component proofs.
\<close>

unbundle bit_operations_syntax

named_theorems py_defs \<open>definitions of the Python helpers, for evaluation\<close>
named_theorems pack_simps \<open>layout of fixed-width fields\<close>

section \<open>Types\<close>

type_synonym byte = "8 word"
type_synonym bytes = "byte list"

text \<open>
  A \<open>ValueError\<close> keeps the values its message is formatted from: one constructor for each
  message text of the program, and those the standard library raises for the calls made here
  (\<open>bytes([x])\<close> outside 0..255, tuple unpacking, \<open>int(s)\<close> of a non-number).
\<close>

datatype reason =
    PacketTooShort nat
  | UnexpectedServiceId int
  | UnexpectedMessageType int
  | LengthInconsistent int
  | UartPortRequired
  | SdPacketTooShort nat
  | UnexpectedSdHeader int int
  | UnexpectedSdMessageType int
  | EntriesLenInconsistent int nat
  | EntriesLenNotMultiple int
  | OptionsLenInconsistent int nat
  | TruncatedOptionHeader
  | OptionLengthMismatch
  | ByteOutOfRange int
  | UnpackCount
  | EmbeddedNull
  | InvalidLiteral string

datatype py_error =
    ValueError reason
  | StructError
  | IndexError
  | OSError
  | OverflowError
  | RuntimeError
  | AttributeError
  | KeyboardInterrupt
  | OtherException

type_synonym 'a res = "py_error + 'a"

fun is_value_error :: "py_error \<Rightarrow> bool" where
  "is_value_error (ValueError _) = True"
| "is_value_error _ = False"

text \<open>What \<open>except Exception\<close> catches: KeyboardInterrupt is only a BaseException.\<close>

definition is_exception :: "py_error \<Rightarrow> bool" where
  "is_exception e \<longleftrightarrow> e \<noteq> KeyboardInterrupt"

text \<open>Sequencing: a raised exception skips the rest of the block.\<close>

fun res_bind :: "'a res \<Rightarrow> ('a \<Rightarrow> 'b res) \<Rightarrow> 'b res" where
  "res_bind (Inl e) f = Inl e"
| "res_bind (Inr x) f = f x"

section \<open>Sequences\<close>

text \<open>\<open>xs[a:b]\<close> for non-negative bounds: truncated silently at the end of \<open>xs\<close>.\<close>

definition py_slice :: "'a list \<Rightarrow> nat \<Rightarrow> nat \<Rightarrow> 'a list" where
  "py_slice xs a b = take (b - a) (drop a xs)"

text \<open>\<open>xs[i]\<close> for a non-negative index.\<close>

definition py_index :: "bytes \<Rightarrow> nat \<Rightarrow> int res" where
  "py_index xs i = (if i < length xs then Inr (uint (xs ! i)) else Inl IndexError)"

text \<open>\<open>bytes([x, ...])\<close> raises ValueError for an element outside 0..255.\<close>

fun py_bytes :: "int list \<Rightarrow> bytes res" where
  "py_bytes [] = Inr []"
| "py_bytes (x # xs) =
     (if 0 \<le> x \<and> x < 256
      then res_bind (py_bytes xs) (\<lambda>bs. Inr (word_of_int x # bs))
      else Inl (ValueError (ByteOutOfRange x)))"

text \<open>\<open>if x is not None: out.append(x)\<close>, for an output collected front to back.\<close>

fun opt_cons :: "'a option \<Rightarrow> 'a list \<Rightarrow> 'a list" where
  "opt_cons None xs = xs"
| "opt_cons (Some x) xs = x # xs"

section \<open>Fixed-width integers in byte strings\<close>

primrec be_bytes :: "nat \<Rightarrow> int \<Rightarrow> bytes" where
  "be_bytes 0 v = []"
| "be_bytes (Suc n) v = be_bytes n (v div 256) @ [word_of_int v]"

text \<open>\<open>int.from_bytes(bs, "big")\<close>\<close>

definition from_be :: "bytes \<Rightarrow> int" where
  "from_be bs = foldl (\<lambda>acc b. acc * 256 + uint b) 0 bs"

datatype byte_order = Big | Little

datatype field =
    UInt nat int
  | SInt nat int
  | Chars nat bytes

definition order_bytes :: "byte_order \<Rightarrow> nat \<Rightarrow> int \<Rightarrow> bytes" where
  "order_bytes ord n v = (case ord of Big \<Rightarrow> be_bytes n v | Little \<Rightarrow> rev (be_bytes n v))"

text \<open>
  One field of \<open>struct.pack\<close>: \<open>B\<close>, \<open>H\<close>, \<open>I\<close> are \<open>UInt\<close> of 1, 2 and 4 bytes, \<open>i\<close> is
  \<open>SInt 4\<close>, \<open>ks\<close> is \<open>Chars k\<close> (truncated or padded with zero bytes).  A value out of
  range raises \<open>struct.error\<close>.
\<close>

fun pack_field :: "byte_order \<Rightarrow> field \<Rightarrow> bytes res" where
  "pack_field ord (UInt n v) =
     (if 0 \<le> v \<and> v < 256 ^ n then Inr (order_bytes ord n v) else Inl StructError)"
| "pack_field ord (SInt n v) =
     (if - (256 ^ n div 2) \<le> v \<and> v < 256 ^ n div 2 then Inr (order_bytes ord n v)
      else Inl StructError)"
| "pack_field ord (Chars n bs) = Inr (take n bs @ replicate (n - length bs) 0)"

fun struct_pack :: "byte_order \<Rightarrow> field list \<Rightarrow> bytes res" where
  "struct_pack ord [] = Inr []"
| "struct_pack ord (f # fs) =
     res_bind (pack_field ord f) (\<lambda>b. res_bind (struct_pack ord fs) (\<lambda>bs. Inr (b @ bs)))"

text \<open>\<open>struct.unpack\<close> of big-endian unsigned fields: the buffer must have the exact size.\<close>

fun unpack_fields :: "nat list \<Rightarrow> bytes \<Rightarrow> int list" where
  "unpack_fields [] bs = []"
| "unpack_fields (n # ns) bs = from_be (take n bs) # unpack_fields ns (drop n bs)"

definition struct_unpack :: "nat list \<Rightarrow> bytes \<Rightarrow> int list res" where
  "struct_unpack ns bs =
     (if length bs = sum_list ns then Inr (unpack_fields ns bs) else Inl StructError)"

section \<open>Lemmas on results and sequences\<close>

lemma res_bind_Inr_iff:
  "res_bind m f = Inr y \<longleftrightarrow> (\<exists>x. m = Inr x \<and> f x = Inr y)"
  by (cases m) auto

lemma opt_cons_append: "opt_cons x (xs @ ys) = opt_cons x xs @ ys"
  by (cases x) auto

lemma length_py_slice [simp]: "length (py_slice xs a b) = min (b - a) (length xs - a)"
  by (simp add: py_slice_def min.commute)

lemma py_slice_append_left:
  "b \<le> length xs \<Longrightarrow> py_slice (xs @ ys) a b = py_slice xs a b"
  by (simp add: py_slice_def)

lemma py_slice_append_right:
  "length xs \<le> a \<Longrightarrow> py_slice (xs @ ys) a b = py_slice ys (a - length xs) (b - length xs)"
  by (simp add: py_slice_def)

lemma py_slice_0 [simp]: "py_slice xs 0 b = take b xs"
  by (simp add: py_slice_def)

lemma py_slice_prefix: "b \<le> n \<Longrightarrow> py_slice (take n xs) a b = py_slice xs a b"
  by (simp add: py_slice_def drop_take)

text \<open>Cutting a list at an inner position, for layouts read off slice by slice.\<close>

lemma py_slice_cut: "a \<le> b \<Longrightarrow> drop a xs = py_slice xs a b @ drop b xs"
  by (simp add: py_slice_def) (metis add.commute append_take_drop_id drop_drop le_add_diff_inverse)

lemma py_slice_single: "i < length xs \<Longrightarrow> py_slice xs i (Suc i) = [xs ! i]"
  by (simp add: py_slice_def take_Suc_conv_app_nth)

section \<open>Lemmas on fixed-width fields\<close>

lemma length_be_bytes [simp]: "length (be_bytes n v) = n"
  by (induction n arbitrary: v) auto

lemma length_order_bytes [simp]: "length (order_bytes ord n v) = n"
  by (simp add: order_bytes_def split: byte_order.split)

lemma from_be_Nil [simp]: "from_be [] = 0"
  by (simp add: from_be_def)

lemma from_be_snoc [simp]: "from_be (bs @ [b]) = from_be bs * 256 + uint b"
  by (simp add: from_be_def)

lemma uint_byte: "uint (word_of_int v :: byte) = v mod 256"
  by (simp add: uint_word_of_int)

lemma byte_bounds [simp]: "0 \<le> uint (b :: byte)" "uint (b :: byte) < 256" "uint (b :: byte) \<le> 255"
  using uint_lt2p [of b] by auto

lemma from_be_bounds: "0 \<le> from_be bs \<and> from_be bs < 256 ^ length bs"
proof (induction bs rule: rev_induct)
  case Nil
  then show ?case by simp
next
  case (snoc b bs)
  have "uint b < 256" by simp
  with snoc have "from_be bs * 256 + uint b < 256 ^ length bs * 256"
    by linarith
  with snoc show ?case by (simp add: mult.commute)
qed

lemma from_be_be_bytes: "from_be (be_bytes n v) = v mod 256 ^ n"
proof (induction n arbitrary: v)
  case 0
  then show ?case by simp
next
  case (Suc n)
  have "v mod (256 * 256 ^ n) = 256 * (v div 256 mod 256 ^ n) + v mod 256"
    by (rule zmod_zmult2_eq) simp
  then show ?case
    by (simp add: Suc.IH uint_byte)
qed

lemma from_be_be_bytes_id [simp]:
  "0 \<le> v \<Longrightarrow> v < 256 ^ n \<Longrightarrow> from_be (be_bytes n v) = v"
  by (simp add: from_be_be_bytes)

lemma be_bytes_from_be: "be_bytes (length bs) (from_be bs) = bs"
proof (induction bs rule: rev_induct)
  case Nil
  then show ?case by simp
next
  case (snoc b bs)
  have "(from_be bs * 256 + uint b) div 256 = from_be bs"
    by (simp add: div_add1_eq)
  moreover have "word_of_int (from_be bs * 256 + uint b) = b"
    by (rule word_uint_eqI) (subst uint_byte, simp)
  ultimately show ?case using snoc by simp
qed

lemma be_bytes_from_be_id: "length bs = n \<Longrightarrow> be_bytes n (from_be bs) = bs"
  using be_bytes_from_be [of bs] by simp

text \<open>Only the low bytes of a value count, so masking it first changes nothing.\<close>

lemma be_bytes_mod: "be_bytes n (v mod 256 ^ n) = be_bytes n v"
proof -
  have "be_bytes n (from_be (be_bytes n v)) = be_bytes n v" by (rule be_bytes_from_be_id) simp
  then show ?thesis by (simp add: from_be_be_bytes)
qed

lemma be_bytes_drop_first: "drop (Suc 0) (be_bytes (Suc n) v) = be_bytes n v"
proof (induction n arbitrary: v)
  case (Suc n)
  have "drop (Suc 0) (be_bytes (Suc (Suc n)) v) = drop (Suc 0) (be_bytes (Suc n) (v div 256)) @ [word_of_int v]"
    by (simp del: be_bytes.simps(2) add: be_bytes.simps(2) [of "Suc n"])
  with Suc show ?case by simp
qed simp

lemma be_bytes_1 [pack_simps]: "be_bytes 1 v = [word_of_int v]"
  by simp

lemma be_bytes_2 [pack_simps]: "be_bytes 2 v = [word_of_int (v div 256), word_of_int v]"
  by (simp add: numeral_2_eq_2)

lemma be_bytes_4 [pack_simps]:
  "be_bytes 4 v = [word_of_int (v div 16777216), word_of_int (v div 65536),
                   word_of_int (v div 256), word_of_int v]"
  by (simp add: eval_nat_numeral zdiv_zmult2_eq [symmetric])

lemma and_255_mod: "(v :: int) AND 255 = v mod 256"
  using take_bit_eq_mask [of 8 v] by (simp add: take_bit_eq_mod mask_eq_exp_minus_1)

lemma and_masks:
  "(v :: int) AND 15 = v mod 16" "v AND 65535 = v mod 65536"
  "v AND 16777215 = v mod 16777216" "v AND 4294967295 = v mod 4294967296"
  using take_bit_eq_mask [of 4 v] take_bit_eq_mask [of 16 v] take_bit_eq_mask [of 24 v]
    take_bit_eq_mask [of 32 v]
  by (simp_all add: take_bit_eq_mod mask_eq_exp_minus_1)

lemma and_255_bounds [simp]: "0 \<le> (v :: int) AND 255" "(v :: int) AND 255 < 256"
  by (simp_all add: and_255_mod)

lemma word_of_int_and_255 [simp]: "(word_of_int (v AND 255) :: byte) = word_of_int v"
  by (rule word_uint_eqI) (simp add: uint_byte and_255_mod)

section \<open>Encoders and their decoders\<close>

text \<open>
  The contract between a builder and a parser: what is decoded from an encoding is a view of
  what was encoded.  Two values with the same encoding then have the same view.
\<close>

locale codec =
  fixes encode :: "'a \<Rightarrow> 'b res" and decode :: "'b \<Rightarrow> 'c res" and view :: "'a \<Rightarrow> 'c"
  assumes decode_encode: "encode x = Inr b \<Longrightarrow> decode b = Inr (view x)"
begin

lemma encoding_determines_view:
  assumes "encode x = Inr b" "encode y = Inr b"
  shows "view x = view y"
  using decode_encode [OF assms(1)] decode_encode [OF assms(2)] by simp

lemma never_encoded: "decode b = Inl e \<Longrightarrow> encode x \<noteq> Inr b"
  by (auto dest: decode_encode)

end

declare py_slice_def [py_defs] py_index_def [py_defs] from_be_def [py_defs]
  order_bytes_def [py_defs] struct_unpack_def [py_defs]

end
