(* ===== verification/Crc8.thy ===== *)
theory Crc8
  imports Py_Prelude
begin

text \<open>
  The end-to-end checksum: \<open>crc8\<close> of \<open>mpu/someip/protocol.py\<close> and its twin \<open>e2e_crc8\<close> of
  \<open>MCU/src/can_gateway.cpp\<close>.  The Python works on unbounded integers and masks after each
  shift; the C++ relies on the truncation of \<open>uint8_t\<close>.  The lemmas show that both compute the
  same function, that one step of the shift register is linear and injective, and how
  differences between two messages propagate to their checksums.
\<close>

section \<open>The checksum as the code computes it\<close>

text \<open>One round of the inner loop, \<open>for _ in range(8)\<close>.\<close>

definition crc8_bit :: "int \<Rightarrow> int" where
  "crc8_bit crc =
     (if crc AND 0x80 \<noteq> 0 then ((push_bit 1 crc) XOR 0x1D) AND 0xFF
      else (push_bit 1 crc) AND 0xFF)"

definition crc8_byte :: "int \<Rightarrow> int \<Rightarrow> int" where
  "crc8_byte crc b = (crc8_bit ^^ 8) (crc XOR b)"

definition crc8 :: "bytes \<Rightarrow> int" where
  "crc8 data = foldl crc8_byte 0xFF (map uint data) XOR 0xFF"

text \<open>The MCU's version: every assignment to \<open>uint8_t crc\<close> keeps the low eight bits.\<close>

definition e2e_bit :: "byte \<Rightarrow> byte" where
  "e2e_bit crc = (if crc AND 0x80 \<noteq> 0 then (push_bit 1 crc) XOR 0x1D else push_bit 1 crc)"

definition e2e_byte :: "byte \<Rightarrow> byte \<Rightarrow> byte" where
  "e2e_byte crc b = (e2e_bit ^^ 8) (crc XOR b)"

definition e2e_crc8 :: "bytes \<Rightarrow> byte" where
  "e2e_crc8 data = foldl e2e_byte 0xFF data XOR 0xFF"

text \<open>Single-bit corruption of a message.\<close>

definition flip_at :: "nat \<Rightarrow> nat \<Rightarrow> bytes \<Rightarrow> bytes" where
  "flip_at k i d = d[k := flip_bit i (d ! k)]"

section \<open>The two implementations agree step by step\<close>

lemma and_255_take_bit: "(x :: int) AND 255 = take_bit 8 x"
  by (simp add: take_bit_eq_mask mask_eq_exp_minus_1)

lemma uint_and_128: "uint (c :: byte) AND 128 = uint (c AND 128)"
  by (simp add: uint_and)

lemma crc8_bit_uint: "crc8_bit (uint c) = uint (e2e_bit c)"
proof -
  have shift: "take_bit 8 (push_bit 1 (uint c)) = uint (push_bit 1 c)"
    by (simp only: unsigned_push_bit_eq) simp
  have "take_bit 8 (push_bit 1 (uint c) XOR 29) = uint (push_bit 1 c) XOR take_bit 8 29"
    by (simp only: take_bit_xor shift)
  also have "\<dots> = uint (push_bit 1 c XOR 29)"
    by (simp only: uint_xor) simp
  finally have step: "take_bit 8 (push_bit 1 (uint c) XOR 29) = uint (push_bit 1 c XOR 29)" .
  have guard: "uint c AND 128 = 0 \<longleftrightarrow> c AND 128 = 0"
    by (simp only: uint_and_128 unsigned_eq_0_iff)
  show ?thesis
    unfolding crc8_bit_def e2e_bit_def and_255_take_bit
    by (simp only: shift step guard split: if_split) simp
qed

lemma crc8_byte_uint: "crc8_byte (uint c) (uint b) = uint (e2e_byte c b)"
proof -
  have "(crc8_bit ^^ n) (uint w) = uint ((e2e_bit ^^ n) w)" for n w
    by (induction n) (auto simp: crc8_bit_uint)
  then show ?thesis by (simp add: crc8_byte_def e2e_byte_def uint_xor [symmetric])
qed

lemma foldl_crc8_byte_uint:
  "foldl crc8_byte (uint c) (map uint data) = uint (foldl e2e_byte c data)"
  by (induction data arbitrary: c) (auto simp: crc8_byte_uint)

lemma crc8_uint: "crc8 data = uint (e2e_crc8 data)"
  using foldl_crc8_byte_uint [of 255 data]
  by (simp add: crc8_def e2e_crc8_def uint_xor)

section \<open>The shift register is linear and injective\<close>

lemma and_128_bit: "(c :: byte) AND 128 \<noteq> 0 \<longleftrightarrow> bit c 7"
  using and_exp_eq_0_iff_not_bit [of c 7] by simp

lemma xor_eq_0_iff_byte: "(a :: byte) XOR b = 0 \<longleftrightarrow> a = b"
proof
  assume "a XOR b = 0"
  then have "(a XOR b) XOR b = b" by simp
  then show "a = b" by (simp only: xor.assoc xor_self_eq) simp
qed simp

lemma e2e_bit_alt: "e2e_bit c = push_bit 1 c XOR (if bit c 7 then 29 else 0)"
  by (simp add: e2e_bit_def and_128_bit)

lemma e2e_bit_xor: "e2e_bit (a XOR b) = e2e_bit a XOR e2e_bit b"
proof -
  have mask: "(if bit (a XOR b) 7 then 29 else 0) =
      (if bit a 7 then 29 else 0) XOR (if bit b 7 then 29 else (0 :: byte))"
    by (simp add: bit_xor_iff)
  have swap: "(x XOR y) XOR (u XOR v) = (x XOR u) XOR (y XOR v)" for x y u v :: byte
    by (simp only: ac_simps)
  show ?thesis
    by (simp only: e2e_bit_alt mask push_bit_xor swap)
qed

lemma e2e_bit_eq_0_iff: "e2e_bit c = 0 \<longleftrightarrow> c = 0"
proof
  assume zero: "e2e_bit c = 0"
  show "c = 0"
  proof (cases "bit c 7")
    case True
    then have "push_bit 1 c XOR 29 = 0"
      using zero by (simp only: e2e_bit_def and_128_bit if_True)
    then have "bit (push_bit 1 c XOR 29) 0 = bit (0 :: byte) 0" by (rule arg_cong)
    moreover have "\<not> bit (push_bit 1 c) 0"
      by (simp only: bit_push_bit_iff) simp
    ultimately show ?thesis by (simp only: bit_xor_iff) simp
  next
    case False
    then have shifted: "push_bit 1 c = 0"
      using zero by (simp only: e2e_bit_def and_128_bit if_False)
    show ?thesis
    proof (rule bit_word_eqI)
      fix n assume n: "n < LENGTH(8)"
      show "bit c n = bit (0 :: byte) n"
      proof (cases "n = 7")
        case True
        with False show ?thesis by simp
      next
        case other: False
        have "bit (push_bit 1 c) (Suc n) = bit (0 :: byte) (Suc n)"
          by (simp only: shifted)
        then have "\<not> (1 \<le> Suc n \<and> Suc n < 8 \<and> bit c n)"
          by (simp only: bit_push_bit_iff) (auto simp: possible_bit_def)
        with n other show ?thesis by simp
      qed
    qed
  qed
next
  assume "c = 0"
  then show "e2e_bit c = 0" by (simp add: e2e_bit_def)
qed

lemma funpow_e2e_bit_xor:
  "(e2e_bit ^^ n) (a XOR b) = (e2e_bit ^^ n) a XOR (e2e_bit ^^ n) b"
  by (induction n) (auto simp: e2e_bit_xor)

lemma funpow_e2e_bit_eq_0_iff: "(e2e_bit ^^ n) c = 0 \<longleftrightarrow> c = 0"
  by (induction n) (auto simp: e2e_bit_eq_0_iff)

lemma funpow_e2e_bit_inject: "(e2e_bit ^^ n) a = (e2e_bit ^^ n) b \<longleftrightarrow> a = b"
proof -
  have "(e2e_bit ^^ n) a = (e2e_bit ^^ n) b \<longleftrightarrow> (e2e_bit ^^ n) (a XOR b) = 0"
    by (simp add: funpow_e2e_bit_xor xor_eq_0_iff_byte)
  then show ?thesis by (simp add: funpow_e2e_bit_eq_0_iff xor_eq_0_iff_byte)
qed

section \<open>How differences propagate\<close>

lemma e2e_byte_diff: "e2e_byte s x XOR e2e_byte t y = (e2e_bit ^^ 8) ((s XOR t) XOR (x XOR y))"
proof -
  have swap: "(s XOR x) XOR (t XOR y) = (s XOR t) XOR (x XOR y)"
    by (simp only: ac_simps)
  show ?thesis
    by (simp only: e2e_byte_def funpow_e2e_bit_xor [symmetric] swap)
qed

lemma foldl_e2e_byte_diff:
  "foldl e2e_byte s xs XOR foldl e2e_byte t xs = (e2e_bit ^^ (8 * length xs)) (s XOR t)"
proof (induction xs arbitrary: s t)
  case Nil
  then show ?case by simp
next
  case (Cons x xs)
  have "(e2e_bit ^^ (8 * length xs)) ((e2e_bit ^^ 8) (s XOR t)) =
      (e2e_bit ^^ (8 * length (x # xs))) (s XOR t)"
    by (simp add: funpow_add [THEN fun_cong, unfolded o_apply, symmetric] add.commute)
  then show ?case
    by (simp only: foldl_Cons Cons.IH e2e_byte_diff) simp
qed

lemma e2e_crc8_eq_iff:
  "e2e_crc8 d = e2e_crc8 d' \<longleftrightarrow> foldl e2e_byte 255 d XOR foldl e2e_byte 255 d' = 0"
proof -
  have cancel: "x XOR 255 = y XOR 255 \<longleftrightarrow> x = y" for x y :: byte
  proof -
    have "x XOR 255 = y XOR 255 \<longleftrightarrow> (x XOR 255) XOR (y XOR 255) = 0"
      by (rule xor_eq_0_iff_byte [symmetric])
    also have "(x XOR 255) XOR (y XOR 255) = x XOR y"
      by (rule bit_word_eqI) (auto simp only: bit_xor_iff)
    also have "x XOR y = 0 \<longleftrightarrow> x = y"
      by (rule xor_eq_0_iff_byte)
    finally show ?thesis .
  qed
  show ?thesis
    by (simp add: e2e_crc8_def cancel xor_eq_0_iff_byte)
qed

lemma e2e_crc8_one_byte: "e2e_crc8 (p @ [x] @ q) = e2e_crc8 (p @ [y] @ q) \<longleftrightarrow> x = y"
  by (simp add: e2e_crc8_eq_iff foldl_e2e_byte_diff e2e_byte_diff funpow_e2e_bit_eq_0_iff
      xor_eq_0_iff_byte)

lemma e2e_crc8_two_bytes:
  "e2e_crc8 (p @ [x] @ m @ [y] @ q) = e2e_crc8 (p @ [x'] @ m @ [y'] @ q) \<longleftrightarrow>
   (e2e_bit ^^ (8 * length m + 8)) (x XOR x') = y XOR y'"
  by (simp add: e2e_crc8_eq_iff foldl_e2e_byte_diff e2e_byte_diff funpow_e2e_bit_eq_0_iff
      xor_eq_0_iff_byte funpow_add)

text \<open>
  The generator polynomial has order 255: the register, started at 1, does not return to 1
  in fewer than 255 steps.
\<close>

fun orbit_avoids_one :: "nat \<Rightarrow> byte \<Rightarrow> bool" where
  "orbit_avoids_one 0 c = True"
| "orbit_avoids_one (Suc n) c = (e2e_bit c \<noteq> 1 \<and> orbit_avoids_one n (e2e_bit c))"

lemma orbit_avoids_oneD:
  "orbit_avoids_one n c \<Longrightarrow> 0 < m \<Longrightarrow> m \<le> n \<Longrightarrow> (e2e_bit ^^ m) c \<noteq> 1"
proof (induction n arbitrary: c m)
  case 0
  then show ?case by simp
next
  case (Suc n)
  show ?case
  proof (cases "m = 1")
    case True
    with Suc.prems show ?thesis by simp
  next
    case False
    with Suc.prems obtain k where k: "m = Suc k" "0 < k" "k \<le> n"
      by (cases m) auto
    with Suc.prems have "(e2e_bit ^^ k) (e2e_bit c) \<noteq> 1" by (intro Suc.IH) auto
    with k show ?thesis by (simp add: funpow_swap1)
  qed
qed

lemma orbit_254: "orbit_avoids_one 254 1"
  by code_simp

lemma e2e_bit_order: "0 < m \<Longrightarrow> m < 255 \<Longrightarrow> (e2e_bit ^^ m) 1 \<noteq> 1"
  using orbit_avoids_oneD [OF orbit_254] by simp

lemma funpow_e2e_bit_one: "i < 8 \<Longrightarrow> (e2e_bit ^^ i) 1 = push_bit i 1"
  by (auto simp: less_Suc_eq eval_nat_numeral e2e_bit_def)

lemma crc8_eq_iff: "crc8 a = crc8 b \<longleftrightarrow> e2e_crc8 a = e2e_crc8 b"
  by (simp add: crc8_uint word_uint_eq_iff)

lemma flip_bit_diff: "x XOR flip_bit i x = push_bit i (1 :: byte)"
proof -
  have "x XOR flip_bit i x = (x XOR x) XOR push_bit i 1"
    by (simp only: flip_bit_eq_xor xor.assoc)
  then show ?thesis by simp
qed

lemma no_cancel_two_bits:
  assumes "i < 8" "j < 8" "0 < g" "g \<le> 30"
  shows "(e2e_bit ^^ (8 * g)) (push_bit i 1) \<noteq> push_bit j 1"
proof
  assume eq: "(e2e_bit ^^ (8 * g)) (push_bit i 1) = push_bit j 1"
  define m where "m = 8 * g + i - j"
  have m: "8 * g + i = j + m" "0 < m" "m < 255"
    using assms by (auto simp: m_def)
  have "(e2e_bit ^^ (8 * g + i)) 1 = (e2e_bit ^^ j) 1"
    using eq assms by (simp add: funpow_add funpow_e2e_bit_one)
  then have "(e2e_bit ^^ j) ((e2e_bit ^^ m) 1) = (e2e_bit ^^ j) 1"
    by (simp only: m(1) funpow_add o_apply)
  then have "(e2e_bit ^^ m) 1 = 1"
    by (simp only: funpow_e2e_bit_inject)
  with e2e_bit_order [OF m(2,3)] show False by simp
qed

lemma e2e_crc8_two_flips:
  assumes "k < l" "l < length d" "length d \<le> 31" "i < 8" "j < 8"
  shows "e2e_crc8 (flip_at k i (flip_at l j d)) \<noteq> e2e_crc8 d"
proof -
  define p m q where "p = take k d" and "m = take (l - Suc k) (drop (Suc k) d)"
    and "q = drop (Suc l) d"
  have "drop (Suc k) d = m @ [d ! l] @ q"
    using assms id_take_nth_drop [of "l - Suc k" "drop (Suc k) d"] by (simp add: m_def q_def)
  moreover have "d = p @ [d ! k] @ drop (Suc k) d"
    using assms id_take_nth_drop [of k d] by (simp add: p_def)
  ultimately have d: "d = p @ [d ! k] @ m @ [d ! l] @ q" by simp
  have len: "length p = k" "length m = l - Suc k"
    using assms by (simp_all add: p_def m_def)
  have flipped: "flip_at k i (flip_at l j d) = p @ [flip_bit i (d ! k)] @ m @ [flip_bit j (d ! l)] @ q"
  proof -
    have l: "l = length p + Suc (length m)" using assms(1) len by simp
    have "d[l := y, k := x] = p @ [x] @ m @ [y] @ q" for x y
      unfolding l len(1) [symmetric] by (subst d) (simp add: list_update_append)
    then show ?thesis
      using assms by (simp add: flip_at_def)
  qed
  have gap: "8 * length m + 8 = 8 * (l - k)"
    using assms(1) len by simp
  have "(e2e_bit ^^ (8 * (l - k))) (push_bit i 1) \<noteq> push_bit j 1"
    using assms by (intro no_cancel_two_bits) auto
  then have "e2e_crc8 (p @ [d ! k] @ m @ [d ! l] @ q) \<noteq>
      e2e_crc8 (p @ [flip_bit i (d ! k)] @ m @ [flip_bit j (d ! l)] @ q)"
    unfolding e2e_crc8_two_bytes flip_bit_diff gap .
  then show ?thesis
    unfolding flipped using d by metis
qed

lemma flip_at_commute: "flip_at k i (flip_at l j d) = flip_at l j (flip_at k i d)"
proof (cases "k = l")
  case True
  have "flip_bit i (flip_bit j x) = flip_bit j (flip_bit i x)" for x :: byte
    by (simp only: flip_bit_eq_xor ac_simps)
  with True show ?thesis
    by (cases "l < length d") (simp_all add: flip_at_def list_update_beyond)
next
  case False
  then show ?thesis by (simp add: flip_at_def list_update_swap)
qed

section \<open>Properties\<close>

text \<open>
  The checksum of protocol.py is the MCU's.  For every byte string, \<open>crc8\<close> (unbounded
  integers, masked) returns the value of \<open>e2e_crc8\<close> (\<open>uint8_t\<close> arithmetic).
\<close>

theorem crc8_matches_mcu: "crc8 data = uint (e2e_crc8 data)"
  by (rule crc8_uint)

text \<open>
  A corrupted byte is always detected.  Two messages that differ in exactly one byte,
  at any position and however many of its bits changed, have different checksums.
\<close>

theorem crc8_detects_byte_error:
  assumes "k < length d" and "x \<noteq> d ! k"
  shows "crc8 (d[k := x]) \<noteq> crc8 d"
proof -
  have new: "d[k := x] = take k d @ [x] @ drop (Suc k) d"
    using assms(1) by (simp add: upd_conv_take_nth_drop)
  have old: "d = take k d @ [d ! k] @ drop (Suc k) d"
    using assms(1) id_take_nth_drop [of k d] by simp
  have "e2e_crc8 (d[k := x]) \<noteq> e2e_crc8 d"
    using assms(2) by (subst old, subst new) (simp only: e2e_crc8_one_byte)
  then show ?thesis unfolding crc8_eq_iff .
qed

theorem crc8_detects_byte_error_witness:
  "crc8 ([0x55, 0xAA, 0x01, 0x55, 0, 0][3 := 0x54]) \<noteq> crc8 [0x55, 0xAA, 0x01, 0x55, 0, 0]"
  by (rule crc8_detects_byte_error) simp_all

text \<open>
  C20: any two corrupted bits are detected in messages of up to 31 bytes (the payload of a
  CAN frame has 6 protected bytes).
\<close>

theorem crc8_detects_two_bit_errors:
  assumes "k < length d" "l < length d" "i < 8" "j < 8" "(k, i) \<noteq> (l, j)" "length d \<le> 31"
  shows "crc8 (flip_at k i (flip_at l j d)) \<noteq> crc8 d"
proof -
  consider "k < l" | "l < k" | "k = l" "i \<noteq> j" using assms(5) by fastforce
  then have "e2e_crc8 (flip_at k i (flip_at l j d)) \<noteq> e2e_crc8 d"
  proof cases
    case 1
    with assms show ?thesis by (intro e2e_crc8_two_flips)
  next
    case 2
    with assms show ?thesis by (subst flip_at_commute) (intro e2e_crc8_two_flips)
  next
    case 3
    have "bit (flip_bit i (flip_bit j (d ! k))) i \<noteq> bit (d ! k) i"
      using assms 3 by (simp add: bit_flip_bit_iff possible_bit_def)
    then have "flip_bit i (flip_bit j (d ! k)) \<noteq> d ! k" by auto
    moreover have "flip_at k i (flip_at l j d) = take k d @ [flip_bit i (flip_bit j (d ! k))] @ drop (Suc k) d"
    proof -
      have "flip_at k i (flip_at l j d) = d[k := flip_bit i (flip_bit j (d ! k))]"
        using assms 3 by (simp add: flip_at_def)
      then show ?thesis using assms by (simp add: upd_conv_take_nth_drop)
    qed
    moreover have "d = take k d @ [d ! k] @ drop (Suc k) d"
      using assms id_take_nth_drop [of k d] by simp
    ultimately show ?thesis by (metis e2e_crc8_one_byte)
  qed
  then show ?thesis unfolding crc8_eq_iff .
qed

theorem crc8_detects_two_bit_errors_witness:
  "crc8 (flip_at 3 0 (flip_at 0 7 [0x55, 0xAA, 0x01, 0x55, 0, 0])) \<noteq>
   crc8 [0x55, 0xAA, 0x01, 0x55, 0, 0]"
  by (rule crc8_detects_two_bit_errors) simp_all

end
