(* ===== verification/Someip_Protocol.thy ===== *)
theory Someip_Protocol
  imports Py_Prelude
begin

text \<open>
  The SOME/IP event frames of \<open>mpu/someip/protocol.py\<close>: \<open>build_packet\<close> with its two
  callers and \<open>parse_event\<close>.  A frame is a 16-byte big-endian header, the payload, and zero
  bytes up to a multiple of eight that the length field does not count.
\<close>

section \<open>Constants (protocol.py, lines 15 to 19)\<close>

definition SERVICE_ID :: int where [simp]: "SERVICE_ID = 0x1234"
definition INSTANCE_ID :: int where [simp]: "INSTANCE_ID = 0x5678"
definition EVENT_NOTIFY :: int where [simp]: "EVENT_NOTIFY = 0x8001"
definition EVENT_HEARTBEAT :: int where [simp]: "EVENT_HEARTBEAT = 0x8002"
definition SOMEIP_PORT :: int where [simp]: "SOMEIP_PORT = 30490"

text \<open>The format \<open>"!HHIHHBBBB"\<close> as a list of field widths.\<close>

definition header_format :: "nat list" where
  "header_format = [2, 2, 4, 2, 2, 1, 1, 1, 1]"

section \<open>Building\<close>

definition build_packet :: "int \<Rightarrow> bytes \<Rightarrow> int \<Rightarrow> bytes res" where
  "build_packet event_id payload session_id =
     res_bind
       (struct_pack Big
          [UInt 2 SERVICE_ID, UInt 2 event_id, UInt 4 (int (length payload) + 8),
           UInt 2 0x0001, UInt 2 session_id, UInt 1 0x01, UInt 1 0x01, UInt 1 0x02, UInt 1 0x00])
       (\<lambda>header.
          let packet = header @ payload;
              pad = (8 - (length packet mod 8)) mod 8
          in Inr (if pad \<noteq> 0 then packet @ replicate pad 0 else packet))"

definition build_notify :: "int \<Rightarrow> int \<Rightarrow> bytes res" where
  "build_notify level session_id =
     res_bind (py_bytes [level AND 0xFF]) (\<lambda>p. build_packet EVENT_NOTIFY p session_id)"

definition build_heartbeat :: "int \<Rightarrow> int \<Rightarrow> bytes res" where
  "build_heartbeat counter session_id =
     res_bind (py_bytes [counter AND 0xFF]) (\<lambda>p. build_packet EVENT_HEARTBEAT p session_id)"

section \<open>Parsing\<close>

definition parse_event :: "bytes \<Rightarrow> (int \<times> bytes) res" where
  "parse_event packet =
     (if length packet < 16 then Inl (ValueError (PacketTooShort (length packet)))
      else res_bind (struct_unpack header_format (py_slice packet 0 16)) (\<lambda>fields.
        case fields of
          [service_id, event_id, len, client_id, session_id,
           protocol_version, interface_version, message_type, return_code] \<Rightarrow>
            if service_id \<noteq> SERVICE_ID then Inl (ValueError (UnexpectedServiceId service_id))
            else if message_type \<noteq> 0x02 then Inl (ValueError (UnexpectedMessageType message_type))
            else
              let payload_len = len - 8 in
              if payload_len < 0 \<or> payload_len > int (length packet) - 16
              then Inl (ValueError (LengthInconsistent len))
              else Inr (event_id, py_slice packet 16 (16 + nat payload_len))
        | _ \<Rightarrow> Inl (ValueError UnpackCount)))"

section \<open>The header, laid out\<close>

text \<open>Specification of the header bytes, field by field.\<close>

definition event_header :: "int \<Rightarrow> int \<Rightarrow> int \<Rightarrow> bytes" where
  "event_header event_id len session_id =
     be_bytes 2 SERVICE_ID @ be_bytes 2 event_id @ be_bytes 4 len @
     be_bytes 2 1 @ be_bytes 2 session_id @ [1, 1, 2, 0]"

definition pad_len :: "nat \<Rightarrow> nat" where
  "pad_len n = (8 - n mod 8) mod 8"

definition packable :: "int \<Rightarrow> nat \<Rightarrow> int \<Rightarrow> bool" where
  "packable event_id n session_id \<longleftrightarrow>
     0 \<le> event_id \<and> event_id < 65536 \<and> 0 \<le> session_id \<and> session_id < 65536 \<and>
     int n + 8 < 4294967296"

lemma length_event_header [simp]: "length (event_header ev len s) = 16"
  by (simp add: event_header_def)

lemma pad_len_less: "pad_len n < 8"
  by (simp add: pad_len_def)

lemma pad_len_aligns: "8 dvd n + pad_len n"
proof (cases "n mod 8 = 0")
  case True
  then show ?thesis by (auto simp: pad_len_def)
next
  case False
  then have pad: "pad_len n = 8 - n mod 8" by (simp add: pad_len_def)
  have "8 * (n div 8) + n mod 8 = n" and "n mod 8 < 8" by simp_all
  then have "n + pad_len n = 8 * (n div 8 + 1)" unfolding pad by arith
  then show ?thesis by simp
qed

lemma pack_event_header:
  "struct_pack Big
     [UInt 2 SERVICE_ID, UInt 2 ev, UInt 4 (int n + 8),
      UInt 2 0x0001, UInt 2 s, UInt 1 0x01, UInt 1 0x01, UInt 1 0x02, UInt 1 0x00] =
   (if packable ev n s then Inr (event_header ev (int n + 8) s) else Inl StructError)"
proof -
  have one: "be_bytes (Suc 0) v = [word_of_int v]" for v by simp
  show ?thesis
    unfolding packable_def event_header_def
    by (cases "0 \<le> ev \<and> ev < 65536"; cases "0 \<le> s \<and> s < 65536"; cases "int n + 8 < 4294967296")
      (simp_all add: order_bytes_def one)
qed

lemma build_packet_eq:
  "build_packet ev p s =
     (if packable ev (length p) s
      then Inr (event_header ev (int (length p) + 8) s @ p @ replicate (pad_len (length p)) 0)
      else Inl StructError)"
proof -
  have "(16 + length p) mod 8 = length p mod 8"
    using mod_mult_self3 [of 2 8 "length p"] by simp
  then show ?thesis
    unfolding build_packet_def pack_event_header by (simp add: pad_len_def Let_def)
qed

lemma build_notify_eq: "build_notify level s = build_packet EVENT_NOTIFY [word_of_int level] s"
  by (simp add: build_notify_def)

lemma build_heartbeat_eq:
  "build_heartbeat counter s = build_packet EVENT_HEARTBEAT [word_of_int counter] s"
  by (simp add: build_heartbeat_def)

text \<open>Unpacking the first sixteen bytes reads each field at its offset.\<close>

lemma unpack_header:
  assumes "16 \<le> length p"
  shows "struct_unpack header_format (py_slice p 0 16) =
    Inr [from_be (py_slice p 0 2), from_be (py_slice p 2 4), from_be (py_slice p 4 8),
         from_be (py_slice p 8 10), from_be (py_slice p 10 12), from_be (py_slice p 12 13),
         from_be (py_slice p 13 14), from_be (py_slice p 14 15), from_be (py_slice p 15 16)]"
  using assms
  by (simp add: struct_unpack_def header_format_def py_slice_def drop_take min_def)

lemma parse_event_eq:
  "parse_event p =
    (if length p < 16 then Inl (ValueError (PacketTooShort (length p)))
     else if from_be (py_slice p 0 2) \<noteq> SERVICE_ID
     then Inl (ValueError (UnexpectedServiceId (from_be (py_slice p 0 2))))
     else if from_be (py_slice p 14 15) \<noteq> 2
     then Inl (ValueError (UnexpectedMessageType (from_be (py_slice p 14 15))))
     else if from_be (py_slice p 4 8) < 8 \<or> from_be (py_slice p 4 8) - 8 > int (length p) - 16
     then Inl (ValueError (LengthInconsistent (from_be (py_slice p 4 8))))
     else Inr (from_be (py_slice p 2 4), py_slice p 16 (16 + nat (from_be (py_slice p 4 8) - 8))))"
  unfolding parse_event_def
  by (cases "length p < 16") (auto simp: unpack_header Let_def simp del: py_slice_0)

lemma event_header_slices:
  "py_slice (event_header ev len s @ r) 0 2 = be_bytes 2 SERVICE_ID"
  "py_slice (event_header ev len s @ r) 2 4 = be_bytes 2 ev"
  "py_slice (event_header ev len s @ r) 4 8 = be_bytes 4 len"
  "py_slice (event_header ev len s @ r) 14 15 = [2]"
  by (simp_all add: py_slice_def event_header_def)

lemma event_header_session: "py_slice (event_header ev len s @ r) 10 12 = be_bytes 2 s"
  and event_header_tail: "py_slice (event_header ev len s @ r) 12 16 = [1, 1, 2, 0]"
  by (simp_all add: py_slice_def event_header_def)

lemma from_be_single [simp]: "from_be [b] = uint b"
  by (simp add: from_be_def)

text \<open>A frame whose header was built with any length field, followed by any bytes.\<close>

lemma parse_event_frame:
  assumes "0 \<le> ev" "ev < 65536" "0 \<le> len" "len < 4294967296"
  shows "parse_event (event_header ev len s @ r) =
    (if len < 8 \<or> len - 8 > int (length r) then Inl (ValueError (LengthInconsistent len))
     else Inr (ev, take (nat (len - 8)) r))"
  using assms
  by (simp add: parse_event_eq event_header_slices py_slice_append_right py_slice_0 [of r] del: py_slice_0)

lemma parse_event_built:
  assumes "build_packet ev p s = Inr pkt"
  shows "parse_event pkt = Inr (ev, p)"
  using assms by (auto simp: build_packet_eq packable_def parse_event_frame split: if_splits)

lemma built_nonempty: "build_packet ev p s = Inr pkt \<Longrightarrow> pkt \<noteq> []"
  using length_event_header [of ev "int (length p) + 8" s]
  by (auto simp: build_packet_eq split: if_splits simp del: length_event_header)

lemma parse_event_only_value_error: "parse_event p = Inl e \<Longrightarrow> is_value_error e"
  by (auto simp: parse_event_eq split: if_splits)

lemma parse_event_layout:
  assumes "parse_event pkt = Inr (ev, payload)"
  shows "\<exists>mid rc trailer. length mid = 6 \<and> 0 \<le> ev \<and> ev < 65536 \<and> int (length payload) + 8 < 4294967296 \<and>
      pkt = be_bytes 2 SERVICE_ID @ be_bytes 2 ev @ be_bytes 4 (int (length payload) + 8) @
            mid @ [2, rc] @ payload @ trailer"
proof -
  from assms have len: "16 \<le> length pkt" and service: "from_be (py_slice pkt 0 2) = SERVICE_ID"
    and mt: "from_be (py_slice pkt 14 15) = 2"
    and ev: "ev = from_be (py_slice pkt 2 4)"
    and field: "8 \<le> from_be (py_slice pkt 4 8)" "from_be (py_slice pkt 4 8) - 8 \<le> int (length pkt) - 16"
    and payload: "payload = py_slice pkt 16 (16 + nat (from_be (py_slice pkt 4 8) - 8))"
    by (auto simp: parse_event_eq simp del: py_slice_0 SERVICE_ID_def split: if_splits)
  have n: "from_be (py_slice pkt 4 8) = int (length payload) + 8"
    using field len by (simp add: payload)
  have cuts: "pkt = py_slice pkt 0 2 @ py_slice pkt 2 4 @ py_slice pkt 4 8 @ py_slice pkt 8 14 @
      py_slice pkt 14 15 @ py_slice pkt 15 16 @ payload @ drop (16 + nat (from_be (py_slice pkt 4 8) - 8)) pkt"
    unfolding payload by (simp add: py_slice_cut [symmetric] del: py_slice_0)
  have ids: "py_slice pkt 0 2 = be_bytes 2 SERVICE_ID" "py_slice pkt 2 4 = be_bytes 2 ev"
    "py_slice pkt 4 8 = be_bytes 4 (int (length payload) + 8)"
    using len unfolding service [symmetric] ev n [symmetric]
    by (simp_all add: be_bytes_from_be_id del: py_slice_0)
  have m14: "py_slice pkt 14 15 = [2]" and m15: "py_slice pkt 15 16 = [pkt ! 15]"
  proof -
    have one: "py_slice pkt 14 15 = [pkt ! 14]" "py_slice pkt 15 16 = [pkt ! 15]"
      using len py_slice_single [of 14 pkt] py_slice_single [of 15 pkt] by simp_all
    with mt have "uint (pkt ! 14) = uint (2 :: byte)" by simp
    then have "pkt ! 14 = 2" by (rule word_uint_eqI)
    then show "py_slice pkt 14 15 = [2]" using one by simp
    show "py_slice pkt 15 16 = [pkt ! 15]" by (rule one)
  qed
  have "0 \<le> ev" "ev < 65536" "int (length payload) + 8 < 4294967296"
    using from_be_bounds [of "py_slice pkt 2 4"] from_be_bounds [of "py_slice pkt 4 8"] len
    by (simp_all add: ev n)
  moreover have "length (py_slice pkt 8 14) = 6" using len by simp
  ultimately show ?thesis
    using cuts unfolding ids m14 m15 by (metis append_Cons append_Nil)
qed

text \<open>The packet determines the event, the payload and the session.\<close>

definition read_event :: "bytes \<Rightarrow> (int \<times> bytes \<times> int) res" where
  "read_event pkt = res_bind (parse_event pkt) (\<lambda>(ev, p). Inr (ev, p, from_be (py_slice pkt 10 12)))"

interpretation event_codec: codec "\<lambda>(ev, p, s). build_packet ev p s" read_event "\<lambda>x. x"
proof
  fix x :: "int \<times> bytes \<times> int" and pkt
  obtain ev p s where x: "x = (ev, p, s)" by (cases x)
  assume "(case x of (ev, p, s) \<Rightarrow> build_packet ev p s) = Inr pkt"
  then have built: "build_packet ev p s = Inr pkt" by (simp add: x)
  then have "from_be (py_slice pkt 10 12) = s"
    by (auto simp: build_packet_eq packable_def event_header_session split: if_splits)
  with parse_event_built [OF built] show "read_event pkt = Inr x" by (simp add: read_event_def x)
qed

section \<open>Properties\<close>

text \<open>
  C18: what parse_event accepts, exactly.  It returns \<open>(ev, payload)\<close> for a byte string iff
  that string is the service id, the event id, the length \<open>len(payload) + 8\<close>, six bytes it
  ignores, message type 2, a return code, the payload and any trailing bytes.
\<close>

theorem parse_event_accepts_iff:
  "parse_event pkt = Inr (ev, payload) \<longleftrightarrow>
   (\<exists>mid rc trailer. length mid = 6 \<and> 0 \<le> ev \<and> ev < 65536 \<and> int (length payload) + 8 < 4294967296 \<and>
      pkt = be_bytes 2 SERVICE_ID @ be_bytes 2 ev @ be_bytes 4 (int (length payload) + 8) @
            mid @ [2, rc] @ payload @ trailer)" (is "?L \<longleftrightarrow> ?R")
proof
  assume ?L
  then show ?R by (rule parse_event_layout)
next
  assume ?R
  then obtain mid rc trailer where r: "length mid = 6" "0 \<le> ev" "ev < 65536"
    "int (length payload) + 8 < 4294967296"
    and pkt: "pkt = be_bytes 2 SERVICE_ID @ be_bytes 2 ev @ be_bytes 4 (int (length payload) + 8) @
            mid @ [2, rc] @ payload @ trailer" by blast
  have "py_slice pkt 0 2 = be_bytes 2 SERVICE_ID" "py_slice pkt 2 4 = be_bytes 2 ev"
    "py_slice pkt 4 8 = be_bytes 4 (int (length payload) + 8)" "py_slice pkt 14 15 = [2]"
    "\<And>k. py_slice pkt 16 (16 + k) = take k (payload @ trailer)"
    using r(1) by (simp_all add: pkt py_slice_def)
  with r show ?L
    by (simp add: parse_event_eq del: py_slice_0) (simp add: pkt)
qed

text \<open>
  Build_packet succeeds exactly when the event id and the session id fit 16 bits and the
  length fits 32, and raises \<open>struct.error\<close> otherwise: no other exception, no truncation.
\<close>

theorem build_packet_errors:
  "build_packet ev p s = Inl e \<longleftrightarrow>
   e = StructError \<and>
   (ev < 0 \<or> 65536 \<le> ev \<or> s < 0 \<or> 65536 \<le> s \<or> 4294967296 \<le> int (length p) + 8)"
  by (auto simp: build_packet_eq packable_def)

text \<open>
  The wire format of a built packet.  It is 8-byte aligned with less than 8 bytes of
  padding, all zero; the length field is payload + 8 and does not count the padding; the
  header carries the service, event and session ids and the bytes 1, 1, 2, 0.
\<close>

theorem build_packet_wire_format:
  assumes "build_packet ev p s = Inr pkt"
  shows "8 dvd length pkt \<and> 16 + length p \<le> length pkt \<and> length pkt < 24 + length p \<and>
    from_be (py_slice pkt 0 2) = SERVICE_ID \<and> from_be (py_slice pkt 2 4) = ev \<and>
    from_be (py_slice pkt 4 8) = int (length p) + 8 \<and> from_be (py_slice pkt 10 12) = s \<and>
    py_slice pkt 12 16 = [1, 1, 2, 0] \<and> py_slice pkt 16 (16 + length p) = p \<and>
    (\<forall>b \<in> set (drop (16 + length p) pkt). b = 0)"
proof -
  from assms have ok: "packable ev (length p) s"
    and pkt: "pkt = event_header ev (int (length p) + 8) s @ p @ replicate (pad_len (length p)) 0"
    by (auto simp: build_packet_eq split: if_splits)
  have "8 dvd 16 + (length p + pad_len (length p))"
    using pad_len_aligns [of "length p"] by simp
  then have "8 dvd length pkt" by (simp add: pkt add.assoc)
  with ok pad_len_less [of "length p"] show ?thesis
    by (simp add: pkt packable_def event_header_slices event_header_session event_header_tail
        py_slice_append_right del: py_slice_0) (simp add: py_slice_def)
qed

theorem build_packet_wire_format_witness:
  "\<exists>pkt. build_packet 0x8001 [0x55] 1 = Inr pkt \<and> 8 dvd length pkt \<and>
    from_be (py_slice pkt 4 8) = 9"
proof -
  obtain pkt where pkt: "build_packet 0x8001 [0x55] 1 = Inr pkt"
    by (simp add: build_packet_eq packable_def)
  show ?thesis using build_packet_wire_format [OF pkt] pkt by auto
qed

text \<open>
  C19: round trip and injectivity.  Whatever build_packet builds, parse_event reads back, the
  same event id and the same payload, padding dropped; and no other event, payload or
  session gives the same packet.
\<close>

theorem parse_event_build_packet:
  assumes "build_packet ev p s = Inr pkt"
  shows "parse_event pkt = Inr (ev, p) \<and>
    (\<forall>ev' p' s'. build_packet ev' p' s' = Inr pkt \<longrightarrow> ev' = ev \<and> p' = p \<and> s' = s)"
proof (intro conjI allI impI)
  show "parse_event pkt = Inr (ev, p)" using assms by (rule parse_event_built)
next
  fix ev' p' s'
  assume "build_packet ev' p' s' = Inr pkt"
  with assms have "(ev', p', s') = (ev, p, s)"
    using event_codec.encoding_determines_view [of "(ev', p', s')" pkt "(ev, p, s)"] by simp
  then show "ev' = ev" "p' = p" "s' = s" by simp_all
qed

theorem parse_event_build_packet_witness:
  "\<exists>pkt. build_packet 0x8002 [1, 2, 3] 65535 = Inr pkt \<and> parse_event pkt = Inr (0x8002, [1, 2, 3]) \<and>
     build_packet 0x8002 [1, 2, 3] 1 \<noteq> Inr pkt"
proof -
  obtain pkt where pkt: "build_packet 0x8002 [1, 2, 3] 65535 = Inr pkt"
    by (simp add: build_packet_eq packable_def)
  from parse_event_build_packet [OF pkt] have parsed: "parse_event pkt = Inr (0x8002, [1, 2, 3])"
    and unique: "\<forall>s'. build_packet 0x8002 [1, 2, 3] s' = Inr pkt \<longrightarrow> s' = 65535" by blast+
  have "build_packet 0x8002 [1, 2, 3] 1 \<noteq> Inr pkt"
  proof
    assume "build_packet 0x8002 [1, 2, 3] 1 = Inr pkt"
    with unique have "(1 :: int) = 65535" by blast
    then show False by simp
  qed
  with parsed pkt show ?thesis by blast
qed

text \<open>
  The two messages the MPU sends.  For a 16-bit session id and any integer level or
  counter, the packet is built, is 24 bytes long, and parses to its event with the one-byte
  payload \<open>value mod 256\<close>.
\<close>

theorem notify_heartbeat_roundtrip:
  assumes "0 \<le> s" "s < 65536"
  shows "(\<exists>pkt. build_notify v s = Inr pkt \<and> length pkt = 24 \<and>
            (\<exists>b. parse_event pkt = Inr (EVENT_NOTIFY, [b]) \<and> uint b = v mod 256)) \<and>
         (\<exists>pkt. build_heartbeat v s = Inr pkt \<and> length pkt = 24 \<and>
            (\<exists>b. parse_event pkt = Inr (EVENT_HEARTBEAT, [b]) \<and> uint b = v mod 256))"
proof -
  have one: "\<exists>pkt. build_packet ev [word_of_int v] s = Inr pkt \<and> length pkt = 24 \<and>
      (\<exists>b. parse_event pkt = Inr (ev, [b]) \<and> uint b = v mod 256)"
    if ev: "0 \<le> ev" "ev < 65536" for ev
  proof -
    have built: "build_packet ev [word_of_int v] s =
        Inr (event_header ev 9 s @ [word_of_int v] @ replicate 7 0)"
      using assms ev by (simp add: build_packet_eq packable_def pad_len_def)
    have "parse_event (event_header ev 9 s @ [word_of_int v] @ replicate 7 0) = Inr (ev, [word_of_int v])"
      by (rule parse_event_built [OF built])
    then show ?thesis by (auto simp: built uint_byte)
  qed
  from one [of EVENT_NOTIFY] one [of EVENT_HEARTBEAT] show ?thesis
    by (simp add: build_notify_eq build_heartbeat_eq)
qed

theorem notify_heartbeat_roundtrip_witness:
  "\<exists>pkt. build_notify 85 1 = Inr pkt \<and> length pkt = 24"
  using notify_heartbeat_roundtrip [of 1 85] by auto

text \<open>
  Parse_event raises nothing but ValueError, whatever the bytes: what every caller that
  catches ValueError relies on.
\<close>

theorem parse_event_raises_value_error: "parse_event pkt = Inl e \<Longrightarrow> is_value_error e"
  by (rule parse_event_only_value_error)

theorem parse_event_raises_value_error_witness:
  "parse_event [0, 1, 2] = Inl (ValueError (PacketTooShort 3)) \<and>
   is_value_error (ValueError (PacketTooShort 3))"
proof -
  have "parse_event [0, 1, 2] = Inl (ValueError (PacketTooShort 3))"
    by (simp add: parse_event_def)
  then show ?thesis using parse_event_raises_value_error by blast
qed

end
