(* ===== verification/Stream_Parser.thy ===== *)
theory Stream_Parser
  imports Complex_Main Someip_Protocol
begin

text \<open>
  \<open>StreamParser\<close> of \<open>mpu/someip/protocol.py\<close>: reassembly of event frames from a byte stream
  (the UART link).  The object's fields are a record; \<open>time.monotonic()\<close> is the parameter
  \<open>clk\<close>, where \<open>clk n\<close> is the result of the \<open>n\<close>-th call: each \<open>feed\<close> makes two.  Clock
  values are real numbers of seconds (the rounding of Python's floats is not modelled).

  \<open>assemble\<close> and \<open>reassemble\<close> are the same machine without time; the first group of lemmas
  shows that \<open>feed_bytes\<close> refines it whenever no pause exceeds the timeout, so that the
  framing theorems are proved about the untimed machine.
\<close>

section \<open>The parser as the code has it\<close>

record stream_parser =
  timeout_ms :: int
  buf :: bytes
  last_tick :: "real option"

definition HEADER_SIZE :: nat where [simp]: "HEADER_SIZE = 16"
definition DEFAULT_TIMEOUT_MS :: int where [simp]: "DEFAULT_TIMEOUT_MS = 50"

definition new_stream_parser :: "int \<Rightarrow> stream_parser" where
  "new_stream_parser t = \<lparr>timeout_ms = t, buf = [], last_tick = None\<rparr>"

definition sp_reset :: "stream_parser \<Rightarrow> stream_parser" where
  "sp_reset p = p\<lparr>buf := [], last_tick := None\<rparr>"

text \<open>The condition of the resynchronisation at the head of \<open>feed\<close>.\<close>

definition expired :: "real \<Rightarrow> stream_parser \<Rightarrow> bool" where
  "expired now p \<longleftrightarrow>
     buf p \<noteq> [] \<and>
     (case last_tick p of None \<Rightarrow> False | Some t \<Rightarrow> now - t > of_int (timeout_ms p) / 1000)"

definition feed :: "(nat \<Rightarrow> real) \<Rightarrow> nat \<Rightarrow> int \<Rightarrow> stream_parser \<Rightarrow> (int \<times> bytes) option res \<times> stream_parser" where
  "feed clk n b p =
     (let p1 = (if expired (clk n) p then sp_reset p else p);
          p2 = p1\<lparr>buf := buf p1 @ [word_of_int (b AND 0xFF)], last_tick := Some (clk (Suc n))\<rparr>
      in
      if length (buf p2) < HEADER_SIZE then (Inr None, p2)
      else
        let len = from_be (py_slice (buf p2) 4 8) in
        if len < 8 \<or> len > 32 then (Inr None, sp_reset p2)
        else
          let total = HEADER_SIZE + nat (len - 8) in
          if length (buf p2) < total then (Inr None, p2)
          else
            let frame = take total (buf p2); p3 = sp_reset p2 in
            case parse_event frame of
              Inr ev \<Rightarrow> (Inr (Some ev), p3)
            | Inl (ValueError _) \<Rightarrow> (Inr None, p3)
            | Inl e \<Rightarrow> (Inl e, p3))"

fun feed_bytes :: "(nat \<Rightarrow> real) \<Rightarrow> nat \<Rightarrow> bytes \<Rightarrow> stream_parser \<Rightarrow> (int \<times> bytes) list res \<times> stream_parser" where
  "feed_bytes clk n [] p = (Inr [], p)"
| "feed_bytes clk n (b # data) p =
     (case feed clk n (uint b) p of
        (Inl e, p') \<Rightarrow> (Inl e, p')
      | (Inr ev, p') \<Rightarrow>
          (case feed_bytes clk (n + 2) data p' of
             (Inl e, p'') \<Rightarrow> (Inl e, p'')
           | (Inr evs, p'') \<Rightarrow> (Inr (opt_cons ev evs), p'')))"

section \<open>The untimed machine\<close>

text \<open>What happens to a buffer that has just received a byte.\<close>

definition assemble :: "bytes \<Rightarrow> (int \<times> bytes) option \<times> bytes" where
  "assemble xs =
     (if length xs < 16 then (None, xs)
      else
        let len = from_be (py_slice xs 4 8) in
        if len < 8 \<or> 32 < len then (None, [])
        else if length xs < 16 + nat (len - 8) then (None, xs)
        else (case parse_event (take (16 + nat (len - 8)) xs) of
                Inr ev \<Rightarrow> Some ev | Inl _ \<Rightarrow> None, []))"

fun reassemble :: "bytes \<Rightarrow> bytes \<Rightarrow> (int \<times> bytes) list \<times> bytes" where
  "reassemble xs [] = ([], xs)"
| "reassemble xs (b # data) =
     (case assemble (xs @ [b]) of
        (ev, ys) \<Rightarrow> (case reassemble ys data of (evs, zs) \<Rightarrow> (opt_cons ev evs, zs)))"

text \<open>The buffer a byte is appended to, and the state a buffer leaves behind.\<close>

definition live_buf :: "real \<Rightarrow> stream_parser \<Rightarrow> bytes" where
  "live_buf now p = (if expired now p then [] else buf p)"

definition settle :: "stream_parser \<Rightarrow> bytes \<Rightarrow> real \<Rightarrow> stream_parser" where
  "settle p xs t = p\<lparr>buf := xs, last_tick := (if xs = [] then None else Some t)\<rparr>"

text \<open>
  No pause: the tick of feed \<open>i\<close> is reading \<open>n + 2 * i + 1\<close>, the next feed's \<open>now\<close> is
  reading \<open>n + 2 * i + 2\<close>; their distance never exceeds the timeout.
\<close>

definition steady :: "(nat \<Rightarrow> real) \<Rightarrow> nat \<Rightarrow> nat \<Rightarrow> int \<Rightarrow> bool" where
  "steady clk n k t \<longleftrightarrow>
     (\<forall>i < k - 1. clk (n + 2 * i + 2) - clk (n + 2 * i + 1) \<le> of_int t / 1000)"

section \<open>Refinement of the untimed machine\<close>

lemma feed_assemble:
  "feed clk n (uint b) p =
     (Inr (fst (assemble (live_buf (clk n) p @ [b]))),
      settle p (snd (assemble (live_buf (clk n) p @ [b]))) (clk (Suc n)))"
proof -
  have pe: "(case parse_event f of
          Inr ev \<Rightarrow> (Inr (Some ev), q) | Inl (ValueError _) \<Rightarrow> (Inr None, q) | Inl e \<Rightarrow> (Inl e, q)) =
      (Inr (case parse_event f of Inr ev \<Rightarrow> Some ev | Inl _ \<Rightarrow> None), q)" for f and q :: stream_parser
  proof (cases "parse_event f")
    case (Inl e)
    then show ?thesis using parse_event_only_value_error [OF Inl] by (cases e) auto
  qed simp
  show ?thesis
    unfolding feed_def pe
    by (simp add: assemble_def live_buf_def settle_def sp_reset_def Let_def)
qed

lemma live_buf_settle:
  "live_buf now (settle p xs t) =
     (if now - t > of_int (timeout_ms p) / 1000 then [] else xs)"
  by (auto simp: live_buf_def settle_def expired_def)

lemma timeout_settle [simp]: "timeout_ms (settle p xs t) = timeout_ms p"
  by (simp add: settle_def)

lemma settle_settle [simp]: "settle (settle p xs t) ys u = settle p ys u"
  by (simp add: settle_def)

lemma feed_bytes_total: "\<exists>evs p'. feed_bytes clk n data p = (Inr evs, p')"
proof (induction data arbitrary: n p)
  case Nil
  then show ?case by simp
next
  case (Cons b data)
  let ?q = "settle p (snd (assemble (live_buf (clk n) p @ [b]))) (clk (Suc n))"
  obtain evs p' where "feed_bytes clk (n + 2) data ?q = (Inr evs, p')"
    using Cons by blast
  then show ?case by (simp add: feed_assemble)
qed

lemma steady_Suc:
  "steady clk n (Suc (Suc k)) t \<longleftrightarrow>
     clk (n + 2) - clk (n + 1) \<le> of_int t / 1000 \<and> steady clk (n + 2) (Suc k) t"
  by (simp add: steady_def All_less_Suc2 algebra_simps)

text \<open>A clock that advances by a millisecond at each reading has no long pause.\<close>

lemma steady_millisecond: "steady (\<lambda>i. a + real i / 1000) n k 50"
  by (auto simp: steady_def diff_divide_distrib [symmetric])

lemma live_buf_fresh [simp]: "buf p = [] \<Longrightarrow> live_buf now p = []"
  by (simp add: live_buf_def)

lemma live_buf_expired: "expired now p \<Longrightarrow> live_buf now p = []"
  by (simp add: live_buf_def)

lemma feed_bytes_Cons:
  assumes "feed_bytes clk (n + 2) data
      (settle p (snd (assemble (live_buf (clk n) p @ [b]))) (clk (Suc n))) = (Inr evs, q)"
  shows "feed_bytes clk n (b # data) p =
    (Inr (opt_cons (fst (assemble (live_buf (clk n) p @ [b]))) evs), q)"
  using assms by (simp add: feed_assemble)

lemma reassemble_Cons:
  "reassemble xs (b # data) =
    (opt_cons (fst (assemble (xs @ [b]))) (fst (reassemble (snd (assemble (xs @ [b]))) data)),
     snd (reassemble (snd (assemble (xs @ [b]))) data))"
  by (simp add: split_beta)

lemma feed_bytes_reassemble:
  assumes "steady clk n (length data) (timeout_ms p)"
  shows "feed_bytes clk n data p =
    (Inr (fst (reassemble (live_buf (clk n) p) data)),
     if data = [] then p
     else settle p (snd (reassemble (live_buf (clk n) p) data)) (clk (n + 2 * length data - 1)))"
  using assms
proof (induction data arbitrary: n p)
  case Nil
  then show ?case by simp
next
  case (Cons b data)
  let ?ys = "snd (assemble (live_buf (clk n) p @ [b]))"
  let ?q = "settle p ?ys (clk (Suc n))"
  show ?case
  proof (cases "data = []")
    case True
    then show ?thesis by (simp add: feed_assemble split_beta)
  next
    case False
    then obtain k where k: "length data = Suc k" by (cases data) auto
    with Cons.prems have gap: "clk (n + 2) - clk (Suc n) \<le> of_int (timeout_ms p) / 1000"
      and rest: "steady clk (n + 2) (length data) (timeout_ms ?q)"
      by (simp_all add: steady_Suc)
    have live: "live_buf (clk (n + 2)) ?q = ?ys"
      unfolding live_buf_settle using gap by simp
    have tail: "feed_bytes clk (n + 2) data ?q =
        (Inr (fst (reassemble ?ys data)), settle p (snd (reassemble ?ys data)) (clk (n + 2 * length (b # data) - 1)))"
      using Cons.IH [OF rest] False unfolding live by simp
    show ?thesis
      unfolding feed_bytes_Cons [OF tail] reassemble_Cons by simp
  qed
qed

text \<open>Both machines process a concatenation in two steps.\<close>

lemma reassemble_append:
  "reassemble xs (d @ e) =
     (fst (reassemble xs d) @ fst (reassemble (snd (reassemble xs d)) e),
      snd (reassemble (snd (reassemble xs d)) e))"
  by (induction d arbitrary: xs) (simp_all add: reassemble_Cons opt_cons_append del: reassemble.simps(2))

lemma feed_bytes_append:
  assumes "feed_bytes clk n d p = (Inr evs, q)"
    and "feed_bytes clk (n + 2 * length d) e q = (Inr evs', r)"
  shows "feed_bytes clk n (d @ e) p = (Inr (evs @ evs'), r)"
  using assms
proof (induction d arbitrary: n p evs)
  case Nil
  then show ?case by simp
next
  case (Cons b d)
  let ?p' = "settle p (snd (assemble (live_buf (clk n) p @ [b]))) (clk (Suc n))"
  obtain evs1 q1 where tail: "feed_bytes clk (n + 2) d ?p' = (Inr evs1, q1)"
    using feed_bytes_total by blast
  with Cons.prems(1) have q: "q1 = q" "evs = opt_cons (fst (assemble (live_buf (clk n) p @ [b]))) evs1"
    by (simp_all del: feed_bytes.simps add: feed_bytes_Cons [OF tail])
  have "feed_bytes clk (n + 2 + 2 * length d) e q = (Inr evs', r)"
    using Cons.prems(2) by (simp add: algebra_simps)
  from Cons.IH [OF tail [unfolded q(1)] this]
  have "feed_bytes clk (n + 2) (d @ e) ?p' = (Inr (evs1 @ evs'), r)" .
  from feed_bytes_Cons [OF this] show ?case by (simp add: q opt_cons_append)
qed

section \<open>Framing\<close>

lemma assemble_short: "length xs < 16 \<Longrightarrow> assemble xs = (None, xs)"
  by (simp add: assemble_def)

text \<open>A header whose length field is admissible, and the size of the frame it announces.\<close>

definition frame_len :: "bytes \<Rightarrow> int" where
  "frame_len xs = from_be (py_slice xs 4 8)"

lemma frame_len_take: "8 \<le> k \<Longrightarrow> frame_len (take k xs) = frame_len xs"
  by (simp add: frame_len_def py_slice_prefix)

lemma frame_len_append: "8 \<le> length xs \<Longrightarrow> frame_len (xs @ ys) = frame_len xs"
  by (simp add: frame_len_def py_slice_append_left)

lemma assemble_partial:
  assumes "8 \<le> frame_len xs" "frame_len xs \<le> 32" "length xs < 16 + nat (frame_len xs - 8)"
  shows "assemble xs = (None, xs)"
  using assms by (auto simp: assemble_def frame_len_def)

lemma reassemble_partial:
  assumes "8 \<le> frame_len f" "frame_len f \<le> 32" "length f < 16 + nat (frame_len f - 8)"
  shows "reassemble [] f = ([], f)"
proof -
  have "reassemble [] (take k f) = ([], take k f)" if "k \<le> length f" for k
    using that
  proof (induction k)
    case 0
    then show ?case by simp
  next
    case (Suc k)
    have "assemble (take (Suc k) f) = (None, take (Suc k) f)"
    proof (cases "Suc k < 16")
      case True
      then show ?thesis by (intro assemble_short) simp
    next
      case False
      with assms Suc.prems show ?thesis by (intro assemble_partial) (simp_all add: frame_len_take)
    qed
    with Suc show ?case
      by (simp add: take_Suc_conv_app_nth reassemble_append)
  qed
  from this [of "length f"] show ?thesis by simp
qed

lemma reassemble_short: "length f < 16 \<Longrightarrow> reassemble [] f = ([], f)"
proof -
  assume short: "length f < 16"
  have "reassemble [] (take k f) = ([], take k f)" if "k \<le> length f" for k
    using that
  proof (induction k)
    case (Suc k)
    with short show ?case
      by (simp add: take_Suc_conv_app_nth reassemble_append assemble_short)
  qed simp
  from this [of "length f"] show ?thesis by simp
qed

lemma reassemble_snoc:
  "reassemble [] g = ([], g) \<Longrightarrow>
   reassemble [] (g @ [b]) = (opt_cons (fst (assemble (g @ [b]))) [], snd (assemble (g @ [b])))"
  by (simp add: reassemble_append split_beta)

text \<open>The byte that completes a frame.\<close>

lemma reassemble_frame:
  assumes "8 \<le> frame_len f" "frame_len f \<le> 32" "length f = 16 + nat (frame_len f - 8)"
  shows "reassemble [] f = (case parse_event f of Inr ev \<Rightarrow> [ev] | Inl _ \<Rightarrow> [], [])"
proof -
  define g b where "g = butlast f" and "b = last f"
  have "f \<noteq> []" using assms(3) by auto
  then have f: "f = g @ [b]" by (simp add: g_def b_def)
  have len: "length f = Suc (length g)" by (simp add: f)
  have "reassemble [] g = ([], g)"
  proof (cases "length g < 16")
    case True
    then show ?thesis by (rule reassemble_short)
  next
    case False
    then have "frame_len f = frame_len g" unfolding f by (intro frame_len_append) simp
    with assms len show ?thesis by (intro reassemble_partial) simp_all
  qed
  moreover have "assemble f = (case parse_event f of Inr ev \<Rightarrow> Some ev | Inl _ \<Rightarrow> None, [])"
    using assms by (simp add: assemble_def frame_len_def)
  ultimately show ?thesis
    using reassemble_snoc [of g b] by (simp add: f [symmetric] split: sum.split)
qed

text \<open>A header that announces an inadmissible length is dropped at its sixteenth byte.\<close>

lemma reassemble_bad_length:
  assumes "length f = 16" "frame_len f < 8 \<or> 32 < frame_len f"
  shows "reassemble [] f = ([], [])"
proof -
  define g b where "g = butlast f" and "b = last f"
  have "f \<noteq> []" using assms(1) by auto
  then have f: "f = g @ [b]" by (simp add: g_def b_def)
  have "reassemble [] g = ([], g)"
    using assms(1) by (intro reassemble_short) (simp add: f)
  moreover have "assemble f = (None, [])"
    using assms by (auto simp: assemble_def frame_len_def)
  ultimately show ?thesis
    using reassemble_snoc [of g b] by (simp add: f [symmetric])
qed

text \<open>A built packet leaves its padding behind in the buffer.\<close>

lemma reassemble_packet:
  assumes built: "build_packet ev p s = Inr pkt" and small: "length p \<le> 24"
  shows "reassemble [] pkt = ([(ev, p)], replicate (pad_len (length p)) 0)"
proof -
  let ?f = "event_header ev (int (length p) + 8) s @ p"
  from built have ok: "packable ev (length p) s"
    and pkt: "pkt = ?f @ replicate (pad_len (length p)) 0"
    by (auto simp: build_packet_eq split: if_splits)
  have len: "frame_len ?f = int (length p) + 8"
    using small by (simp add: frame_len_def event_header_slices)
  have "parse_event ?f = Inr (ev, p)"
    using ok by (simp add: packable_def parse_event_frame)
  then have "reassemble [] ?f = ([(ev, p)], [])"
    using reassemble_frame [of ?f] small by (simp add: len)
  moreover have "reassemble [] (replicate (pad_len (length p)) 0) = ([], replicate (pad_len (length p)) 0)"
    using pad_len_less [of "length p"] by (intro reassemble_short) simp
  ultimately show ?thesis by (simp add: pkt reassemble_append del: append_assoc)
qed

section \<open>Loss of synchronisation\<close>

text \<open>
  A packet with a one-byte payload ends in seven padding bytes.  If the next packet follows
  without a pause, the parser takes them for the first seven bytes of a header, and from then
  on cycles through two misaligned states: five zero bytes, and a thirteen-byte tail.
\<close>

definition event_packet :: "int \<Rightarrow> byte \<Rightarrow> int \<Rightarrow> bytes" where
  "event_packet ev v s = event_header ev 9 s @ [v] @ replicate 7 0"

definition event_tail :: "byte \<Rightarrow> int \<Rightarrow> bytes" where
  "event_tail v s = [word_of_int s, 1, 1, 2, 0, v] @ replicate 7 0"

lemma length_event_tail: "length (event_tail v s) = 13"
  by (simp add: event_tail_def)

lemma event_packet_built:
  assumes "build_packet ev [v] s = Inr pkt"
  shows "pkt = event_packet ev v s" "0 \<le> ev" "ev < 65536" "0 \<le> s" "s < 65536"
  using assms by (auto simp: build_packet_eq packable_def event_packet_def pad_len_def split: if_splits)

lemma replicate_7: "replicate 7 x = [x, x, x, x, x, x, x]"
  by (simp add: eval_nat_numeral)

lemma event_packet_bytes:
  "event_packet ev v s =
     [0x12, 0x34, word_of_int (ev div 256), word_of_int ev, 0, 0, 0, 9, 0, 1,
      word_of_int (s div 256), word_of_int s, 1, 1, 2, 0, v, 0, 0, 0, 0, 0, 0, 0]"
  by (simp add: event_packet_def event_header_def pack_simps replicate_7)

text \<open>Length fields as the misaligned parser reads them.\<close>

lemma frame_len_bytes:
  "frame_len (a # b # c # d # e # f # g # h # xs) = ((uint e * 256 + uint f) * 256 + uint g) * 256 + uint h"
  by (simp add: frame_len_def py_slice_def from_be_def)

lemma reassemble_reset:
  assumes "length f = 16" "frame_len f < 8 \<or> 32 < frame_len f" "length r < 16"
  shows "reassemble [] (f @ r) = ([], r)"
  using assms reassemble_bad_length [of f] reassemble_short [of r]
  by (simp add: reassemble_append)

lemma resume:
  assumes "reassemble [] xs = ([], xs)" shows "reassemble xs ys = reassemble [] (xs @ ys)"
  using assms by (simp add: reassemble_append)

text \<open>After a delivered packet: the next one is read as a 26-byte frame of service 0.\<close>

lemma desync_first:
  "reassemble (replicate 7 0) (event_packet ev v s) = ([], replicate 5 0)"
proof -
  let ?h = "replicate 7 0 @ [0x12, 0x34, word_of_int (ev div 256), word_of_int ev, 0, 0, 0, 9, 0, 1,
      word_of_int (s div 256), word_of_int s, 1, 1, 2, 0, v, 0, 0]"
  have len: "frame_len ?h = 18" by (simp add: replicate_7 frame_len_bytes)
  have "\<exists>e. parse_event ?h = Inl e"
    by (simp add: parse_event_eq py_slice_def from_be_def replicate_7)
  with len have "reassemble [] ?h = ([], [])"
    using reassemble_frame [of ?h] by auto
  moreover have "reassemble [] (replicate 5 0) = ([], replicate 5 (0 :: byte))"
    by (rule reassemble_short) simp
  moreover have "replicate 7 0 @ event_packet ev v s = ?h @ replicate 5 0"
    by (simp add: event_packet_bytes eval_nat_numeral)
  ultimately have "reassemble [] (replicate 7 0 @ event_packet ev v s) = ([], replicate 5 0)"
    by (simp only: reassemble_append) simp
  then show ?thesis
    by (subst resume) (simp_all add: reassemble_short)
qed

lemma desync_second:
  "reassemble (replicate 5 0) (event_packet ev v s) = ([], event_tail v s)"
proof -
  let ?h = "replicate 5 0 @ [0x12, 0x34, word_of_int (ev div 256), word_of_int ev, 0, 0, 0, 9, 0, 1,
      word_of_int (s div 256)] :: bytes"
  have five: "replicate 5 (0 :: byte) = [0, 0, 0, 0, 0]" by (simp add: eval_nat_numeral)
  have "frame_len ?h = 1192960 + uint (word_of_int (ev div 256) :: byte)"
    by (simp add: five frame_len_bytes)
  then have "32 < frame_len ?h" using byte_bounds(1) [of "word_of_int (ev div 256)"] by linarith
  then have "reassemble [] (?h @ event_tail v s) = ([], event_tail v s)"
    by (intro reassemble_reset) (simp_all add: event_tail_def)
  moreover have "replicate 5 0 @ event_packet ev v s = ?h @ event_tail v s"
    by (simp add: event_packet_bytes event_tail_def replicate_7)
  ultimately show ?thesis
    by (subst resume) (simp_all add: reassemble_short)
qed

lemma desync_third:
  "reassemble (event_tail v s) (event_packet ev v' s') = ([], replicate 5 0)"
proof -
  let ?g = "event_tail v s @ [0x12, 0x34, word_of_int (ev div 256)]"
  let ?h = "[word_of_int ev, 0, 0, 0, 9, 0, 1, word_of_int (s' div 256), word_of_int s', 1, 1, 2, 0, v', 0, 0] :: bytes"
  have "frame_len ?g = uint v * 65536"
    by (simp add: event_tail_def replicate_7 frame_len_bytes)
  then have g: "frame_len ?g < 8 \<or> 32 < frame_len ?g"
    using byte_bounds(1) [of v] by (cases "uint v = 0") auto
  have "frame_len ?h = 150995200 + uint (word_of_int (s' div 256) :: byte)"
    by (simp add: frame_len_bytes)
  then have h: "32 < frame_len ?h" using byte_bounds(1) [of "word_of_int (s' div 256)"] by linarith
  have "reassemble [] (?g @ []) = ([], [])"
    using g by (intro reassemble_reset) (simp_all add: event_tail_def)
  moreover have "reassemble [] (?h @ replicate 5 0) = ([], replicate 5 0)"
    using h by (intro reassemble_reset) simp_all
  moreover have "event_tail v s @ event_packet ev v' s' = (?g @ []) @ ?h @ replicate 5 0"
    by (simp add: event_packet_bytes eval_nat_numeral)
  ultimately have "reassemble [] (event_tail v s @ event_packet ev v' s') = ([], replicate 5 0)"
    by (simp only: reassemble_append) simp
  then show ?thesis
    by (subst resume) (simp_all add: reassemble_short length_event_tail del: reassemble.simps)
qed

definition misaligned :: "bytes \<Rightarrow> bool" where
  "misaligned xs \<longleftrightarrow> xs = replicate 5 0 \<or> (\<exists>v s. xs = event_tail v s)"

lemma misaligned_packet:
  "misaligned xs \<Longrightarrow> \<exists>ys. misaligned ys \<and> reassemble xs (event_packet ev v s) = ([], ys)"
  unfolding misaligned_def using desync_second [of ev v s] desync_third [of _ _ ev v s] by fastforce

lemma misaligned_run:
  "misaligned xs \<Longrightarrow> fst (reassemble xs (concat (map (\<lambda>(ev, v, s). event_packet ev v s) ms))) = []"
proof (induction ms arbitrary: xs)
  case Nil
  then show ?case by simp
next
  case (Cons m ms)
  obtain ev v s where m: "m = (ev, v, s)" by (cases m)
  obtain ys where "misaligned ys" "reassemble xs (event_packet ev v s) = ([], ys)"
    using misaligned_packet [OF Cons.prems] by blast
  with Cons.IH show ?case by (simp add: m reassemble_append)
qed

section \<open>Where delivered events come from\<close>

text \<open>
  Whatever the timing, a delivered event is parsed from a contiguous piece of the input (or
  of the bytes already buffered), and the buffer stays short.
\<close>

lemma assemble_Some:
  assumes "assemble xs = (Some ev, ys)"
  shows "ys = []" "\<exists>frame r. xs = frame @ r \<and> parse_event frame = Inr ev \<and> length frame \<le> 40"
proof -
  let ?T = "16 + nat (frame_len xs - 8)"
  from assms have "ys = []" "frame_len xs \<le> 32" "parse_event (take ?T xs) = Inr ev"
    by (auto simp: assemble_def frame_len_def Let_def split: if_splits sum.splits)
  moreover from this have "xs = take ?T xs @ drop ?T xs \<and> parse_event (take ?T xs) = Inr ev \<and> length (take ?T xs) \<le> 40"
    by simp
  ultimately show "ys = []" "\<exists>frame r. xs = frame @ r \<and> parse_event frame = Inr ev \<and> length frame \<le> 40"
    by blast+
qed

lemma assemble_buf: "snd (assemble xs) = xs \<or> snd (assemble xs) = []"
  by (auto simp: assemble_def Let_def)

lemma live_buf_suffix: "\<exists>z. buf p = z @ live_buf now p"
  by (simp add: live_buf_def)

lemma feed_bytes_provenance:
  assumes "feed_bytes clk n data p = (Inr evs, q)" "e \<in> set evs"
  shows "\<exists>pre f post. buf p @ data = pre @ f @ post \<and> parse_event f = Inr e \<and> length f \<le> 40"
  using assms
proof (induction data arbitrary: n p evs)
  case Nil
  then show ?case by simp
next
  case (Cons b data)
  let ?xs = "live_buf (clk n) p @ [b]"
  let ?p' = "settle p (snd (assemble ?xs)) (clk (Suc n))"
  obtain z where z: "buf p = z @ live_buf (clk n) p" using live_buf_suffix by blast
  obtain evs1 where tail: "feed_bytes clk (n + 2) data ?p' = (Inr evs1, q)"
    and evs: "evs = opt_cons (fst (assemble ?xs)) evs1"
    using feed_bytes_total [of clk "n + 2" data ?p'] Cons.prems(1)
    by (auto simp del: feed_bytes.simps simp: feed_bytes_Cons)
  from evs Cons.prems(2) consider "fst (assemble ?xs) = Some e" | "e \<in> set evs1"
    by (cases "fst (assemble ?xs)") auto
  then show ?case
  proof cases
    case 1
    then have "assemble ?xs = (Some e, snd (assemble ?xs))" by (simp add: prod_eq_iff)
    then obtain f r where f: "?xs = f @ r" "parse_event f = Inr e" "length f \<le> 40"
      by (blast dest: assemble_Some(2))
    have "buf p @ b # data = z @ f @ (r @ data)"
      using f(1) by (simp add: z)
    with f show ?thesis by blast
  next
    case 2
    then obtain pre f post where f: "buf ?p' @ data = pre @ f @ post" "parse_event f = Inr e" "length f \<le> 40"
      using Cons.IH [OF tail] by blast
    have "\<exists>z'. buf p @ b # data = z' @ buf ?p' @ data"
      using assemble_buf [of ?xs] by (auto simp: settle_def z)
    with f show ?thesis by (metis append_assoc)
  qed
qed

section \<open>The state invariant\<close>

definition sp_inv :: "stream_parser \<Rightarrow> bool" where
  "sp_inv p \<longleftrightarrow>
     (buf p = [] \<longleftrightarrow> last_tick p = None) \<and>
     (length (buf p) < 16 \<or>
      8 \<le> frame_len (buf p) \<and> frame_len (buf p) \<le> 32 \<and>
      length (buf p) < 16 + nat (frame_len (buf p) - 8))"

lemma feed_int: "feed clk n b p = feed clk n (uint (word_of_int b :: byte)) p"
  by (simp add: feed_def)

lemma sp_inv_settle: "sp_inv (settle p (snd (assemble xs)) t)"
  by (auto simp: sp_inv_def settle_def assemble_def frame_len_def Let_def)

lemma sp_inv_short: "sp_inv p \<Longrightarrow> length (buf p) \<le> 39"
  by (auto simp: sp_inv_def)

text \<open>
  Packets of 24 bytes, so 48 clock readings each, with a pause longer than the timeout
  before every packet but the first.
\<close>

definition spaced :: "(nat \<Rightarrow> real) \<Rightarrow> nat \<Rightarrow> nat \<Rightarrow> int \<Rightarrow> bool" where
  "spaced clk n k t \<longleftrightarrow>
     (\<forall>i < k. steady clk (n + 48 * i) 24 t) \<and>
     (\<forall>i < k - 1. clk (n + 48 * i + 48) - clk (n + 48 * i + 47) > of_int t / 1000)"

lemma spaced_pause: "spaced (\<lambda>i. real (i div 48) + real i / 1000) 0 k 50"
proof -
  have same: "(0 + 48 * i + 2 * j + 2) div 48 = i" "(0 + 48 * i + 2 * j + 1) div 48 = i" if "j < 23" for i j :: nat
    using that by simp_all
  have jump: "(0 + 48 * i + 48) div 48 = Suc i" "(0 + 48 * i + 47) div 48 = i" for i :: nat
    by simp_all
  show ?thesis
    unfolding spaced_def steady_def jump
    by (intro conjI allI impI; (subst same)?; (subst same)?) (simp_all add: diff_divide_distrib [symmetric])
qed

lemma back_to_back_reassembled:
  assumes "build_packet ev [v] s = Inr pkt"
    and "\<forall>(e, b, ses, q) \<in> set ms. build_packet e [b] ses = Inr q"
  shows "fst (reassemble [] (pkt @ concat (map (\<lambda>(e, b, ses, q). q) ms))) = [(ev, [v])]"
proof -
  have frames: "map (\<lambda>(e, b, ses, q). q) ms =
      map (\<lambda>(e, b, ses). event_packet e b ses) (map (\<lambda>(e, b, ses, q). (e, b, ses)) ms)"
    using assms(2) by (auto dest: event_packet_built(1))
  have silent: "fst (reassemble (replicate 7 0) (concat (map (\<lambda>(e, b, ses). event_packet e b ses) ks))) = []" for ks
  proof (cases ks)
    case (Cons k ks')
    have "misaligned (replicate 5 0)" by (simp add: misaligned_def)
    from misaligned_run [OF this] Cons show ?thesis
      by (cases k) (simp add: reassemble_append desync_first)
  qed simp
  have "fst (reassemble (replicate 7 0) (concat (map (\<lambda>(e, b, ses, q). q) ms))) = []"
    unfolding frames by (rule silent)
  then show ?thesis
    using reassemble_packet [OF assms(1)] by (simp add: reassemble_append pad_len_def)
qed

lemma back_to_back_lost:
  assumes "build_packet ev [v] s = Inr pkt"
    and "\<forall>(e, b, ses, q) \<in> set ms. build_packet e [b] ses = Inr q"
    and "buf p = [] \<or> expired (clk n) p"
    and "steady clk n (length (pkt @ concat (map (\<lambda>(e, b, ses, q). q) ms))) (timeout_ms p)"
  shows "\<exists>p'. feed_bytes clk n (pkt @ concat (map (\<lambda>(e, b, ses, q). q) ms)) p = (Inr [(ev, [v])], p')"
proof -
  have "live_buf (clk n) p = []"
    using assms(3) by (auto simp: live_buf_expired)
  then show ?thesis
    using feed_bytes_reassemble [OF assms(4)] back_to_back_reassembled [OF assms(1,2)] by simp
qed

section \<open>Receivers of frames\<close>

text \<open>
  The contract that the parser of the MPU and the receiver of the firmware share: on an input
  whose bytes come without a pause, the events delivered are those of the untimed machine,
  up to what the receiver hands on of an event.
\<close>

locale frame_receiver =
  fixes timely :: "'i \<Rightarrow> bool" and bytes_of :: "'i \<Rightarrow> bytes"
    and deliver :: "'i \<Rightarrow> 'e list" and shows_event :: "'e \<Rightarrow> int \<times> bytes \<Rightarrow> bool"
  assumes deliver_reassembled:
    "timely i \<Longrightarrow> list_all2 shows_event (deliver i) (fst (reassemble [] (bytes_of i)))"
begin

lemma delivers_packet:
  assumes "timely i" "build_packet ev payload s = Inr (bytes_of i)" "length payload \<le> 24"
  shows "\<exists>e. deliver i = [e] \<and> shows_event e (ev, payload)"
  using deliver_reassembled [OF assms(1)] reassemble_packet [OF assms(2,3)]
  by (auto simp: list_all2_Cons2)

lemma delivers_first:
  assumes "timely i" "build_packet ev [v] s = Inr pkt"
    and "\<forall>(e, b, ses, q) \<in> set ms. build_packet e [b] ses = Inr q"
    and "bytes_of i = pkt @ concat (map (\<lambda>(e, b, ses, q). q) ms)"
  shows "\<exists>e. deliver i = [e] \<and> shows_event e (ev, [v])"
  using deliver_reassembled [OF assms(1)] back_to_back_reassembled [OF assms(2,3)] assms(4)
  by (auto simp: list_all2_Cons2)

end

text \<open>StreamParser, started afresh at reading \<open>k\<close> of the clock.\<close>

definition parsed_events :: "(nat \<Rightarrow> real) \<times> nat \<times> bytes \<Rightarrow> (int \<times> bytes) list" where
  "parsed_events = (\<lambda>(clk, k, data).
     case fst (feed_bytes clk k data (new_stream_parser DEFAULT_TIMEOUT_MS)) of Inr evs \<Rightarrow> evs | Inl _ \<Rightarrow> [])"

interpretation parser_rx: frame_receiver
  "\<lambda>(clk, k, data). steady clk k (length data) DEFAULT_TIMEOUT_MS" "\<lambda>(clk, k, data). data" parsed_events "(=)"
proof
  fix i :: "(nat \<Rightarrow> real) \<times> nat \<times> bytes"
  assume "case i of (clk, k, data) \<Rightarrow> steady clk k (length data) DEFAULT_TIMEOUT_MS"
  then show "list_all2 (=) (parsed_events i) (fst (reassemble [] (case i of (clk, k, data) \<Rightarrow> data)))"
    by (auto simp: parsed_events_def feed_bytes_reassemble new_stream_parser_def list_all2_eq [symmetric]
        split: prod.split)
qed

lemma parsed_eventsD:
  "parsed_events (clk, k, data) = evs \<Longrightarrow>
   \<exists>p'. feed_bytes clk k data (new_stream_parser DEFAULT_TIMEOUT_MS) = (Inr evs, p')"
  using feed_bytes_total [of clk k data "new_stream_parser DEFAULT_TIMEOUT_MS"]
  by (auto simp: parsed_events_def)

lemma spaced_delivered:
  assumes "\<forall>(e, b, ses, q) \<in> set ms. build_packet e [b] ses = Inr q"
    and "buf p = [] \<or> expired (clk n) p"
    and "spaced clk n (length ms) (timeout_ms p)"
  shows "\<exists>p'. feed_bytes clk n (concat (map (\<lambda>(e, b, ses, q). q) ms)) p =
    (Inr (map (\<lambda>(e, b, ses, q). (e, [b])) ms), p')"
  using assms
proof (induction ms arbitrary: n p)
  case Nil
  then show ?case by simp
next
  case (Cons m ms)
  obtain e b ses q where m: "m = (e, b, ses, q)" by (cases m)
  have built: "build_packet e [b] ses = Inr q" using Cons.prems(1) by (simp add: m)
  have len: "length q = 24" using event_packet_built(1) [OF built] by (simp add: event_packet_def)
  have steady: "steady clk n (length q) (timeout_ms p)"
    using Cons.prems(3) by (simp add: spaced_def len All_less_Suc2)
  have "live_buf (clk n) p = []" using Cons.prems(2) by (auto simp: live_buf_expired)
  then have head: "feed_bytes clk n q p = (Inr [(e, [b])], settle p (replicate 7 0) (clk (n + 47)))"
    using feed_bytes_reassemble [OF steady] reassemble_packet [OF built] built_nonempty [OF built]
    by (simp add: len pad_len_def add.commute replicate_7)
  let ?p' = "settle p (replicate 7 0) (clk (n + 47))"
  have "\<exists>p''. feed_bytes clk (n + 48) (concat (map (\<lambda>(e, b, ses, q). q) ms)) ?p' =
      (Inr (map (\<lambda>(e, b, ses, q). (e, [b])) ms), p'')"
  proof (cases "ms = []")
    case False
    show ?thesis
    proof (rule Cons.IH)
      show "\<forall>(e, b, ses, q) \<in> set ms. build_packet e [b] ses = Inr q" using Cons.prems(1) by simp
      show "buf ?p' = [] \<or> expired (clk (n + 48)) ?p'"
        using Cons.prems(3) False by (cases ms) (simp_all add: spaced_def expired_def settle_def All_less_Suc2)
      show "spaced clk (n + 48) (length ms) (timeout_ms ?p')"
        using Cons.prems(3) False by (cases ms) (simp_all add: spaced_def All_less_Suc2 algebra_simps)
    qed
  qed simp
  then show ?case
    using feed_bytes_append [OF head, of "concat (map (\<lambda>(e, b, ses, q). q) ms)"]
    by (auto simp: m len simp del: feed_bytes.simps)
qed

section \<open>Properties\<close>

text \<open>
  Feed never raises and keeps the parser well-formed.  From any well-formed state, any
  integer and any clock, the result is a value (an event or None), the timeout is unchanged,
  and the new state is well-formed again: less than a header, or an unfinished frame with an
  admissible length field, so never more than 39 bytes.
\<close>

theorem feed_keeps_invariant:
  assumes "sp_inv p"
  shows "\<exists>ev p'. feed clk n b p = (Inr ev, p') \<and> sp_inv p' \<and> length (buf p') \<le> 39 \<and>
    timeout_ms p' = timeout_ms p"
  by (subst feed_int) (simp add: feed_assemble sp_inv_settle sp_inv_short)

theorem feed_keeps_invariant_witness:
  "sp_inv (new_stream_parser 50) \<and>
   (\<exists>ev p'. feed real 0 300 (new_stream_parser 50) = (Inr ev, p') \<and> sp_inv p')"
proof -
  have "sp_inv (new_stream_parser 50)"
    by (simp add: sp_inv_def new_stream_parser_def)
  then show ?thesis using feed_keeps_invariant by blast
qed

text \<open>
  C1: with timely bytes the parser is the untimed reassembler.  If no pause between two
  bytes exceeds the timeout, feed_bytes returns exactly the events \<open>reassemble\<close> finds from
  the bytes still live at the first call, and leaves exactly its buffer.
\<close>

theorem feed_bytes_refines_reassemble:
  assumes "steady clk n (length data) (timeout_ms p)" and "data \<noteq> []"
    and "reassemble (live_buf (clk n) p) data = (evs, rest)"
  shows "\<exists>p'. feed_bytes clk n data p = (Inr evs, p') \<and> buf p' = rest \<and> timeout_ms p' = timeout_ms p"
  using feed_bytes_reassemble [OF assms(1)] assms(2,3) by (simp add: settle_def)

theorem feed_bytes_refines_reassemble_witness:
  "\<exists>p'. feed_bytes (\<lambda>i. real i / 1000) 0 [1, 2] (new_stream_parser 50) = (Inr [], p') \<and> buf p' = [1, 2]"
proof -
  have "steady (\<lambda>i. real i / 1000) 0 (length [1, 2 :: byte]) (timeout_ms (new_stream_parser 50))"
    by (simp add: steady_def new_stream_parser_def)
  moreover have "reassemble (live_buf 0 (new_stream_parser 50)) [1, 2] = ([], [1, 2])"
    by (simp add: new_stream_parser_def live_buf_def assemble_def)
  ultimately show ?thesis
    using feed_bytes_refines_reassemble [of "\<lambda>i. real i / 1000" 0 "[1, 2]" "new_stream_parser 50"]
    by auto
qed

text \<open>
  A packet is delivered, and the parser resynchronises.  If the buffer is empty, or
  holds anything at all but has been silent for longer than the timeout, a built packet
  with a payload of at most 24 bytes that arrives without long pauses yields exactly its
  event, and leaves its padding in the buffer.
\<close>

theorem stream_delivers_packet:
  assumes "build_packet ev payload s = Inr pkt" and "length payload \<le> 24"
    and "buf p = [] \<or> expired (clk n) p"
    and "steady clk n (length pkt) (timeout_ms p)"
  shows "\<exists>p'. feed_bytes clk n pkt p = (Inr [(ev, payload)], p') \<and>
    buf p' = replicate (pad_len (length payload)) 0"
proof -
  have "live_buf (clk n) p = []"
    using assms(3) by (auto simp: live_buf_expired)
  moreover have "pkt \<noteq> []" using assms(1) by (rule built_nonempty)
  ultimately show ?thesis
    using feed_bytes_reassemble [OF assms(4)] reassemble_packet [OF assms(1,2)]
    by (simp add: settle_def)
qed

theorem stream_delivers_packet_witness:
  "\<exists>pkt p'. build_packet 0x8001 [85] 1 = Inr pkt \<and>
    feed_bytes (\<lambda>i. 10 + real i / 1000) 0 pkt \<lparr>timeout_ms = 50, buf = [1, 2, 3], last_tick = Some 0\<rparr> =
      (Inr [(0x8001, [85])], p')"
proof -
  obtain pkt where pkt: "build_packet 0x8001 [85] 1 = Inr pkt"
    by (simp add: build_packet_eq packable_def)
  have "steady (\<lambda>i. 10 + real i / 1000) 0 (length pkt) 50"
    by (rule steady_millisecond)
  moreover have "expired 10 \<lparr>timeout_ms = 50, buf = [1, 2, 3], last_tick = Some 0\<rparr>"
    by (simp add: expired_def)
  ultimately show ?thesis
    using stream_delivers_packet [OF pkt, of "\<lparr>timeout_ms = 50, buf = [1, 2, 3], last_tick = Some 0\<rparr>"
        "\<lambda>i. 10 + real i / 1000" 0] pkt by auto
qed

text \<open>
  C2: without pauses, everything after the first packet is lost.  A parser that receives a
  stream of event packets with one-byte payloads (the only ones the MPU sends) with no pause
  longer than the timeout delivers the first event and no other, however many follow.  The
  seven padding bytes are kept as the start of the next header.
\<close>

theorem stream_loses_back_to_back:
  assumes "build_packet ev [v] s = Inr pkt"
    and "\<forall>(e, b, ses, q) \<in> set ms. build_packet e [b] ses = Inr q"
    and "buf p = [] \<or> expired (clk n) p"
    and "steady clk n (length (pkt @ concat (map (\<lambda>(e, b, ses, q). q) ms))) (timeout_ms p)"
  shows "\<exists>p'. feed_bytes clk n (pkt @ concat (map (\<lambda>(e, b, ses, q). q) ms)) p = (Inr [(ev, [v])], p')"
  using assms by (rule back_to_back_lost)

theorem stream_loses_back_to_back_witness:
  "\<exists>a b p'. build_notify 85 1 = Inr a \<and> build_heartbeat 7 1 = Inr b \<and>
     feed_bytes (\<lambda>i. 0 + real i / 1000) 0 (a @ b) (new_stream_parser 50) = (Inr [(EVENT_NOTIFY, [85])], p')"
proof -
  obtain a where a: "build_packet EVENT_NOTIFY [85] 1 = Inr a"
    by (simp add: build_packet_eq packable_def)
  obtain b where b: "build_packet EVENT_HEARTBEAT [7] 1 = Inr b"
    by (simp add: build_packet_eq packable_def)
  have "timeout_ms (new_stream_parser 50) = 50" "buf (new_stream_parser 50) = []"
    by (simp_all add: new_stream_parser_def)
  moreover have "\<forall>(e, b, ses, q) \<in> set [(EVENT_HEARTBEAT, 7, 1, b)]. build_packet e [b] ses = Inr q"
    using b by simp
  moreover have "steady (\<lambda>i. 0 + real i / 1000) 0 (length (a @ concat (map (\<lambda>(e, b, ses, q). q) [(EVENT_HEARTBEAT, 7 :: byte, 1 :: int, b)]))) 50"
    by (rule steady_millisecond)
  ultimately show ?thesis
    using stream_loses_back_to_back [OF a, of "[(EVENT_HEARTBEAT, 7, 1, b)]" "new_stream_parser 50" "\<lambda>i. 0 + real i / 1000" 0] a b
    by (auto simp: build_notify_eq build_heartbeat_eq)
qed

text \<open>
  With a pause longer than the timeout before every packet, nothing is lost: every
  packet of the sequence is delivered, in order.
\<close>

theorem stream_delivers_spaced:
  assumes "\<forall>(e, b, ses, q) \<in> set ms. build_packet e [b] ses = Inr q"
    and "buf p = [] \<or> expired (clk n) p"
    and "spaced clk n (length ms) (timeout_ms p)"
  shows "\<exists>p'. feed_bytes clk n (concat (map (\<lambda>(e, b, ses, q). q) ms)) p =
    (Inr (map (\<lambda>(e, b, ses, q). (e, [b])) ms), p')"
  using assms by (rule spaced_delivered)

theorem stream_delivers_spaced_witness:
  "\<exists>a b p'. build_heartbeat 0 1 = Inr a \<and> build_heartbeat 1 1 = Inr b \<and>
     feed_bytes (\<lambda>i. real (i div 48) + real i / 1000) 0 (a @ b) (new_stream_parser 50) =
       (Inr [(EVENT_HEARTBEAT, [0]), (EVENT_HEARTBEAT, [1])], p')"
proof -
  obtain a where a: "build_packet EVENT_HEARTBEAT [0] 1 = Inr a"
    by (simp add: build_packet_eq packable_def)
  obtain b where b: "build_packet EVENT_HEARTBEAT [1] 1 = Inr b"
    by (simp add: build_packet_eq packable_def)
  let ?ms = "[(EVENT_HEARTBEAT, 0 :: byte, 1 :: int, a), (EVENT_HEARTBEAT, 1, 1, b)]"
  have "spaced (\<lambda>i. real (i div 48) + real i / 1000) 0 (length ?ms) 50"
    by (rule spaced_pause)
  then show ?thesis
    using stream_delivers_spaced [of ?ms "new_stream_parser 50" "\<lambda>i. real (i div 48) + real i / 1000" 0] a b
    by (auto simp: new_stream_parser_def build_heartbeat_eq)
qed

text \<open>
  No event is invented.  Whatever the clock does, every event feed_bytes returns is
  parsed from at most 40 consecutive bytes of what was buffered plus what was fed.
\<close>

theorem stream_events_come_from_input:
  assumes "feed_bytes clk n data p = (Inr evs, p')" and "e \<in> set evs"
  shows "\<exists>pre frame post. buf p @ data = pre @ frame @ post \<and> parse_event frame = Inr e \<and>
    length frame \<le> 40"
  using assms by (rule feed_bytes_provenance)

theorem stream_events_come_from_input_witness:
  "\<exists>a. build_notify 85 1 = Inr a \<and>
    (\<exists>pre frame post. a = pre @ frame @ post \<and> parse_event frame = Inr (EVENT_NOTIFY, [85]))"
proof -
  obtain a where a: "build_packet EVENT_NOTIFY [85] 1 = Inr a"
    by (simp add: build_packet_eq packable_def)
  have "steady (\<lambda>i. 0 + real i / 1000) 0 (length a) (timeout_ms (new_stream_parser 50))"
    using steady_millisecond [of 0 0 "length a"] by (simp add: new_stream_parser_def)
  from feed_bytes_reassemble [OF this] reassemble_packet [OF a]
  have "feed_bytes (\<lambda>i. 0 + real i / 1000) 0 a (new_stream_parser 50) =
      (Inr [(EVENT_NOTIFY, [85])], settle (new_stream_parser 50) (replicate 7 0) (0 + real (0 + 2 * length a - 1) / 1000))"
    using built_nonempty [OF a] by (simp add: new_stream_parser_def pad_len_def)
  from stream_events_come_from_input [OF this, of "(EVENT_NOTIFY, [85])"] a show ?thesis
    by (auto simp: new_stream_parser_def build_notify_eq)
qed

end
