(* ===== verification/Io_World.thy ===== *)
theory Io_World
  imports Py_Prelude
begin

text \<open>
  The outside of the program: calls into the operating system and the serial port, recorded
  in the order they are made.  Whether a call succeeds is decided by the environment
  \<open>env\<close>, which for the \<open>n\<close>-th call of a run gives the exception it raises, if any; a run is
  thus a function of the environment, and every failure pattern is covered by quantifying
  over it.  The state of the world is the trace of calls so far, each with its outcome.
\<close>

datatype io_op =
    SocketCreate
  | SocketSetReuse
  | SocketBind int
  | SocketJoin string
  | SendTo bytes string int
  | SocketClose
  | SerialOpen string int
  | SerialWrite bytes
  | SerialFlush
  | SerialClose
  | Sleep nat
  | ThreadStart string
  | OtherCall string

type_synonym trace = "(io_op \<times> bool) list"
type_synonym env = "nat \<Rightarrow> py_error option"

definition perform :: "env \<Rightarrow> io_op \<Rightarrow> trace \<Rightarrow> unit res \<times> trace" where
  "perform env op tr =
     (case env (length tr) of
        None \<Rightarrow> (Inr (), tr @ [(op, True)])
      | Some e \<Rightarrow> (Inl e, tr @ [(op, False)]))"

text \<open>\<open>a; b\<close> where \<open>a\<close> may raise, and \<open>try: ... finally: f\<close>.\<close>

definition io_bind :: "'a res \<times> trace \<Rightarrow> ('a \<Rightarrow> trace \<Rightarrow> 'b res \<times> trace) \<Rightarrow> 'b res \<times> trace" where
  "io_bind m f = (case m of (Inl e, tr) \<Rightarrow> (Inl e, tr) | (Inr x, tr) \<Rightarrow> f x tr)"

definition io_finally :: "'a res \<times> trace \<Rightarrow> (trace \<Rightarrow> unit res \<times> trace) \<Rightarrow> 'a res \<times> trace" where
  "io_finally m f =
     (case m of (r, tr) \<Rightarrow> (case f tr of (Inl e, tr') \<Rightarrow> (Inl e, tr') | (Inr _, tr') \<Rightarrow> (r, tr')))"

text \<open>A pure computation that may raise, lifted to the world.\<close>

definition io_res :: "'a res \<Rightarrow> trace \<Rightarrow> 'a res \<times> trace" where
  "io_res r tr = (r, tr)"

text \<open>
  \<open>sock.sendto(packet, (host, port))\<close>: a port outside 0..65535 raises OverflowError before
  anything is sent.
\<close>

definition sendto :: "env \<Rightarrow> bytes \<Rightarrow> string \<Rightarrow> int \<Rightarrow> trace \<Rightarrow> unit res \<times> trace" where
  "sendto env packet host port tr =
     (if port < 0 \<or> 65535 < port then (Inl OverflowError, tr)
      else perform env (SendTo packet host port) tr)"

text \<open>The packets that left the machine, oldest first, and the balance of open sockets.\<close>

fun sent_by :: "io_op \<times> bool \<Rightarrow> bytes list" where
  "sent_by (SendTo p h q, True) = [p]"
| "sent_by (SerialWrite p, True) = [p]"
| "sent_by _ = []"

definition delivered :: "trace \<Rightarrow> bytes list" where
  "delivered tr = concat (map sent_by tr)"

definition sockets_opened :: "trace \<Rightarrow> nat" where
  "sockets_opened tr = length (filter (\<lambda>c. c = (SocketCreate, True)) tr)"

text \<open>A socket is released by \<open>close\<close> whether or not the call reports an error.\<close>

definition sockets_closed :: "trace \<Rightarrow> nat" where
  "sockets_closed tr = length (filter (\<lambda>c. fst c = SocketClose) tr)"

section \<open>Lemmas\<close>

lemma perform_cases:
  obtains "perform env op tr = (Inr (), tr @ [(op, True)])"
  | e where "env (length tr) = Some e" "perform env op tr = (Inl e, tr @ [(op, False)])"
  by (cases "env (length tr)") (auto simp: perform_def)

lemma delivered_Nil [simp]: "delivered [] = []"
  by (simp add: delivered_def)

lemma delivered_append [simp]: "delivered (tr @ ops) = delivered tr @ delivered ops"
  by (simp add: delivered_def)

lemma delivered_Cons [simp]: "delivered (c # ops) = sent_by c @ delivered ops"
  by (simp add: delivered_def)

lemma sockets_append [simp]:
  "sockets_opened (tr @ ops) = sockets_opened tr + sockets_opened ops"
  "sockets_closed (tr @ ops) = sockets_closed tr + sockets_closed ops"
  by (simp_all add: sockets_opened_def sockets_closed_def)

lemma sockets_single [simp]:
  "sockets_opened [] = 0" "sockets_closed [] = 0"
  "sockets_opened (c # ops) = (if c = (SocketCreate, True) then 1 else 0) + sockets_opened ops"
  "sockets_closed (c # ops) = (if fst c = SocketClose then 1 else 0) + sockets_closed ops"
  by (simp_all add: sockets_opened_def sockets_closed_def)

lemmas io_defs [py_defs] = perform_def io_bind_def io_finally_def io_res_def sendto_def

end
