(* ===== verification/Transport.thy ===== *)
theory Transport
  imports Io_World Someip_Protocol
begin

text \<open>
  The transport layer \<open>mpu/someip/transport.py\<close> (UDP and UART) and its client
  \<open>mpu/someip/client.py\<close>.  pyserial is not part of the repository: whether it can be
  imported is the parameter \<open>have_pyserial\<close>, and its calls are calls into the environment.

  The locale \<open>link\<close> is the contract between a transport and the code that sends through it:
  what the trace holds after a \<open>send\<close> that returns, or raises.  The lemmas on heartbeats and
  notifications are proved from it; both transports are instances.
\<close>

section \<open>UdpTransport\<close>

record udp_transport =
  udp_host :: string
  udp_port :: int

definition udp_send :: "env \<Rightarrow> udp_transport \<Rightarrow> bytes \<Rightarrow> trace \<Rightarrow> unit res \<times> trace" where
  "udp_send env t packet tr =
     io_bind (perform env SocketCreate tr) (\<lambda>_ tr1.
       io_finally (sendto env packet (udp_host t) (udp_port t) tr1) (perform env SocketClose))"

definition udp_close :: "udp_transport \<Rightarrow> trace \<Rightarrow> unit res \<times> trace" where
  "udp_close t tr = (Inr (), tr)"

section \<open>UartTransport\<close>

text \<open>\<open>serial\<close> is the attribute \<open>_serial\<close>: absent until the port has been opened.\<close>

record uart_transport =
  serial :: "(string \<times> int) option"

definition uart_init :: "env \<Rightarrow> bool \<Rightarrow> string \<Rightarrow> int \<Rightarrow> trace \<Rightarrow> uart_transport res \<times> trace" where
  "uart_init env have_pyserial port baud tr =
     (if \<not> have_pyserial then (Inl RuntimeError, tr)
      else io_bind (perform env (SerialOpen port baud) tr) (\<lambda>_ tr1.
        (Inr \<lparr>serial = Some (port, baud)\<rparr>, tr1)))"

definition uart_send :: "env \<Rightarrow> uart_transport \<Rightarrow> bytes \<Rightarrow> trace \<Rightarrow> unit res \<times> trace" where
  "uart_send env t packet tr =
     (case serial t of
        None \<Rightarrow> (Inl AttributeError, tr)
      | Some _ \<Rightarrow>
          io_bind (perform env (SerialWrite packet) tr) (\<lambda>_ tr1. perform env SerialFlush tr1))"

definition uart_close :: "env \<Rightarrow> uart_transport \<Rightarrow> trace \<Rightarrow> unit res \<times> trace" where
  "uart_close env t tr =
     (case serial t of
        None \<Rightarrow> (Inr (), tr)
      | Some _ \<Rightarrow>
          (case perform env SerialClose tr of
             (Inl e, tr1) \<Rightarrow> (if is_exception e then Inr () else Inl e, tr1)
           | (Inr _, tr1) \<Rightarrow> (Inr (), tr1)))"

section \<open>The client\<close>

datatype transport = Udp udp_transport | Uart uart_transport

fun transport_send :: "env \<Rightarrow> transport \<Rightarrow> bytes \<Rightarrow> trace \<Rightarrow> unit res \<times> trace" where
  "transport_send env (Udp t) packet tr = udp_send env t packet tr"
| "transport_send env (Uart t) packet tr = uart_send env t packet tr"

fun transport_close :: "env \<Rightarrow> transport \<Rightarrow> trace \<Rightarrow> unit res \<times> trace" where
  "transport_close env (Udp t) tr = udp_close t tr"
| "transport_close env (Uart t) tr = uart_close env t tr"

definition create_transport ::
  "env \<Rightarrow> bool \<Rightarrow> string \<Rightarrow> string \<Rightarrow> int \<Rightarrow> string option \<Rightarrow> trace \<Rightarrow> transport res \<times> trace" where
  "create_transport env have_pyserial transport_name host port uart_port tr =
     (if transport_name = ''uart'' then
        (case uart_port of
           None \<Rightarrow> (Inl (ValueError UartPortRequired), tr)
         | Some dev \<Rightarrow>
             if dev = [] then (Inl (ValueError UartPortRequired), tr)
             else io_bind (uart_init env have_pyserial dev 115200 tr) (\<lambda>t tr1. (Inr (Uart t), tr1)))
      else (Inr (Udp \<lparr>udp_host = host, udp_port = port\<rparr>), tr))"

definition send_notify :: "(bytes \<Rightarrow> trace \<Rightarrow> unit res \<times> trace) \<Rightarrow> int \<Rightarrow> int \<Rightarrow> trace \<Rightarrow> unit res \<times> trace" where
  "send_notify send level session tr =
     io_bind (io_res (build_notify level session) tr) (\<lambda>packet tr1. send packet tr1)"

definition send_heartbeat :: "(bytes \<Rightarrow> trace \<Rightarrow> unit res \<times> trace) \<Rightarrow> int \<Rightarrow> int \<Rightarrow> trace \<Rightarrow> unit res \<times> trace" where
  "send_heartbeat send counter session tr =
     io_bind (io_res (build_heartbeat counter session) tr) (\<lambda>packet tr1. send packet tr1)"

text \<open>The command line entry of client.py: one notification, session 1, then close.\<close>

definition client_main ::
  "env \<Rightarrow> bool \<Rightarrow> int \<Rightarrow> string \<Rightarrow> string \<Rightarrow> string \<Rightarrow> trace \<Rightarrow> unit res \<times> trace" where
  "client_main env have_pyserial level dest transport_name uart_port tr =
     io_bind (create_transport env have_pyserial transport_name dest SOMEIP_PORT (Some uart_port) tr)
       (\<lambda>t tr1. io_bind (send_notify (transport_send env t) level 1 tr1)
          (\<lambda>_ tr2. transport_close env t tr2))"

section \<open>The contract of a link\<close>

locale link =
  fixes send :: "bytes \<Rightarrow> trace \<Rightarrow> unit res \<times> trace"
  assumes send_appends: "send p tr = (r, tr') \<Longrightarrow> \<exists>ops. tr' = tr @ ops"
    and send_returns: "send p tr = (Inr (), tr') \<Longrightarrow> delivered tr' = delivered tr @ [p]"
    and send_raises: "send p tr = (Inl e, tr') \<Longrightarrow>
          delivered tr' = delivered tr \<or> delivered tr' = delivered tr @ [p]"
begin

lemma delivered_at_most_once:
  assumes "send p tr = (r, tr')"
  obtains "delivered tr' = delivered tr @ [p]" | e where "r = Inl e" "delivered tr' = delivered tr"
proof (cases r)
  case (Inl e)
  with assms send_raises [of p tr e tr'] that show thesis by auto
next
  case (Inr u)
  with assms send_returns [of p tr tr'] that show thesis by auto
qed

lemma send_notify_returns:
  assumes "send_notify send v s tr = (Inr (), tr')"
  shows "\<exists>pkt. build_notify v s = Inr pkt \<and> delivered tr' = delivered tr @ [pkt]"
  using assms
  by (auto simp: send_notify_def io_bind_def io_res_def split: sum.splits dest: send_returns)

lemma send_notify_raises:
  assumes "send_notify send v s tr = (Inl e, tr')"
  shows "delivered tr' = delivered tr \<or>
    (\<exists>pkt. build_notify v s = Inr pkt \<and> delivered tr' = delivered tr @ [pkt])"
  using assms
  by (auto simp: send_notify_def io_bind_def io_res_def split: sum.splits dest: send_raises)

lemma send_heartbeat_cases:
  assumes "send_heartbeat send c s tr = (r, tr')" "build_heartbeat c s = Inr pkt"
  shows "delivered tr' = delivered tr @ [pkt] \<or> (\<exists>e. r = Inl e) \<and> delivered tr' = delivered tr"
  using assms
  by (auto simp: send_heartbeat_def io_bind_def io_res_def elim: delivered_at_most_once)

end

section \<open>Both transports are links\<close>

lemma udp_send_cases:
  "udp_send env t packet tr =
     (case env (length tr) of
        Some e \<Rightarrow> (Inl e, tr @ [(SocketCreate, False)])
      | None \<Rightarrow>
         (case sendto env packet (udp_host t) (udp_port t) (tr @ [(SocketCreate, True)]) of
            (r, tr2) \<Rightarrow>
              (case env (length tr2) of
                 None \<Rightarrow> (r, tr2 @ [(SocketClose, True)])
               | Some e \<Rightarrow> (Inl e, tr2 @ [(SocketClose, False)]))))"
  by (simp add: udp_send_def io_bind_def io_finally_def perform_def split: option.split prod.split)

interpretation udp_link: link "udp_send env t" for env t
proof
  fix p tr r tr'
  assume "udp_send env t p tr = (r, tr')"
  then show "\<exists>ops. tr' = tr @ ops"
    by (auto simp: udp_send_cases sendto_def perform_def split: option.splits if_splits)
next
  fix p tr tr'
  assume "udp_send env t p tr = (Inr (), tr')"
  then show "delivered tr' = delivered tr @ [p]"
    by (auto simp: udp_send_cases sendto_def perform_def split: option.splits if_splits)
next
  fix p tr e tr'
  assume "udp_send env t p tr = (Inl e, tr')"
  then show "delivered tr' = delivered tr \<or> delivered tr' = delivered tr @ [p]"
    by (auto simp: udp_send_cases sendto_def perform_def split: option.splits if_splits)
qed

interpretation uart_link: link "uart_send env t" for env t
proof
  fix p tr r tr'
  assume "uart_send env t p tr = (r, tr')"
  then show "\<exists>ops. tr' = tr @ ops"
    by (auto simp: uart_send_def io_bind_def perform_def split: option.splits if_splits)
next
  fix p tr tr'
  assume "uart_send env t p tr = (Inr (), tr')"
  then show "delivered tr' = delivered tr @ [p]"
    by (auto simp: uart_send_def io_bind_def perform_def split: option.splits if_splits)
next
  fix p tr e tr'
  assume "uart_send env t p tr = (Inl e, tr')"
  then show "delivered tr' = delivered tr \<or> delivered tr' = delivered tr @ [p]"
    by (auto simp: uart_send_def io_bind_def perform_def split: option.splits if_splits)
qed

interpretation any_link: link "transport_send env t" for env t
proof (cases t)
  case (Udp u)
  then have "transport_send env t = udp_send env u" by (simp add: fun_eq_iff)
  then show "link (transport_send env t)" by (simp add: udp_link.link_axioms)
next
  case (Uart u)
  then have "transport_send env t = uart_send env u" by (simp add: fun_eq_iff)
  then show "link (transport_send env t)" by (simp add: uart_link.link_axioms)
qed

lemma udp_send_sockets:
  assumes "udp_send env t packet tr = (r, tr')"
  shows "sockets_opened tr' + sockets_closed tr = sockets_opened tr + sockets_closed tr'"
  using assms
  by (auto simp: udp_send_cases sendto_def perform_def split: option.splits if_splits)

section \<open>Properties\<close>

text \<open>
  UdpTransport.send leaks no socket.  Whichever call fails (socket, sendto, close) and
  whatever the port, the call opens as many sockets as it closes.
\<close>

theorem udp_send_closes_socket:
  assumes "udp_send env t packet tr = (r, tr')"
  shows "sockets_opened tr' + sockets_closed tr = sockets_opened tr + sockets_closed tr'"
  using assms by (rule udp_send_sockets)

theorem udp_send_closes_socket_witness:
  "\<exists>r tr'. udp_send (\<lambda>n. if n = 1 then Some OSError else None) \<lparr>udp_host = ''127.0.0.1'', udp_port = 30490\<rparr> [1] [] = (r, tr') \<and>
    r = Inl OSError \<and> sockets_opened tr' = 1 \<and> sockets_closed tr' = 1"
proof -
  let ?env = "\<lambda>n. if n = 1 then Some OSError else None" and ?t = "\<lparr>udp_host = ''127.0.0.1'', udp_port = 30490\<rparr>"
  have run: "udp_send ?env ?t [1] [] =
      (Inl OSError, [(SocketCreate, True), (SendTo [1] ''127.0.0.1'' 30490, False), (SocketClose, True)])"
    by (simp add: udp_send_cases sendto_def perform_def)
  from udp_send_closes_socket [OF run] run show ?thesis by simp
qed

text \<open>
  C37: a notification reaches the wire exactly once or the caller learns of it.  Over either
  transport, with a 16-bit session: if send_notify returns, one packet was added to the
  wire, and it parses to the Notify event with the level modulo 256; if it raises, the wire
  gained at most that packet.
\<close>

theorem send_notify_delivers:
  assumes "send_notify (transport_send env t) level s tr = (r, tr')" "0 \<le> s" "s < 65536"
  shows "\<exists>pkt. parse_event pkt = Inr (EVENT_NOTIFY, [word_of_int level]) \<and>
    (delivered tr' = delivered tr @ [pkt] \<or> (\<exists>e. r = Inl e) \<and> delivered tr' = delivered tr)"
proof -
  obtain pkt where pkt: "build_notify level s = Inr pkt"
    using assms(2,3) by (simp add: build_notify_eq build_packet_eq packable_def)
  moreover have "parse_event pkt = Inr (EVENT_NOTIFY, [word_of_int level])"
    using pkt unfolding build_notify_eq by (rule parse_event_built)
  ultimately show ?thesis
    using assms(1) any_link.send_notify_returns [of env t level s tr tr']
      any_link.send_notify_raises [of env t level s tr _ tr']
    by (cases r) auto
qed

theorem send_notify_delivers_witness:
  "\<exists>r tr' pkt. send_notify (transport_send (\<lambda>_. None) (Uart \<lparr>serial = Some (''/dev/ttyS0'', 115200)\<rparr>)) 85 1 [] = (r, tr') \<and>
     parse_event pkt = Inr (EVENT_NOTIFY, [85]) \<and> delivered tr' = [pkt]"
proof -
  obtain r tr' where run: "send_notify (transport_send (\<lambda>_. None) (Uart \<lparr>serial = Some (''/dev/ttyS0'', 115200)\<rparr>)) 85 1 [] = (r, tr')"
    by fastforce
  then have "r = Inr ()"
    by (simp add: send_notify_def io_defs build_notify_eq build_packet_eq packable_def uart_send_def)
  with send_notify_delivers [OF run] run show ?thesis by auto
qed

text \<open>
  The transport factory.  The name uart needs a non-empty port (ValueError otherwise),
  then pyserial (RuntimeError otherwise), then a port that opens (its exception otherwise),
  and opens it at 115200 baud; every other name, known or not, gives the UDP transport and
  touches nothing.
\<close>

theorem create_transport_outcome:
  "create_transport env have_pyserial name host port uart_port tr =
     (if name \<noteq> ''uart'' then (Inr (Udp \<lparr>udp_host = host, udp_port = port\<rparr>), tr)
      else if uart_port = None \<or> uart_port = Some [] then (Inl (ValueError UartPortRequired), tr)
      else if \<not> have_pyserial then (Inl RuntimeError, tr)
      else (case env (length tr) of
              Some e \<Rightarrow> (Inl e, tr @ [(SerialOpen (the uart_port) 115200, False)])
            | None \<Rightarrow> (Inr (Uart \<lparr>serial = Some (the uart_port, 115200)\<rparr>),
                       tr @ [(SerialOpen (the uart_port) 115200, True)])))"
  by (auto simp: create_transport_def uart_init_def io_bind_def perform_def split: option.split)

text \<open>
  The single-shot client.  With a quiet environment it opens the port, writes one
  packet, flushes and closes.  When the write fails, the port is still open at exit:
  \<open>t.close()\<close> is not reached.
\<close>

theorem client_main_uart:
  assumes "dev \<noteq> []"
  shows "\<exists>pkt. build_notify level 1 = Inr pkt \<and>
     client_main (\<lambda>_. None) True level dest ''uart'' dev [] =
       (Inr (), [(SerialOpen dev 115200, True), (SerialWrite pkt, True), (SerialFlush, True), (SerialClose, True)]) \<and>
     client_main (\<lambda>n. if n = 1 then Some OSError else None) True level dest ''uart'' dev [] =
       (Inl OSError, [(SerialOpen dev 115200, True), (SerialWrite pkt, False)])"
proof -
  obtain pkt where pkt: "build_notify level 1 = Inr pkt"
    by (simp add: build_notify_eq build_packet_eq packable_def)
  with assms show ?thesis
    by (simp add: client_main_def create_transport_def uart_init_def uart_send_def uart_close_def
        send_notify_def io_defs)
qed

theorem client_main_uart_witness:
  "\<exists>tr. client_main (\<lambda>_. None) True 85 ''127.0.0.1'' ''uart'' ''/dev/ttyS0'' [] = (Inr (), tr)"
  using client_main_uart [of "''/dev/ttyS0''" 85 "''127.0.0.1''"] by auto

end
