(* ===== verification/Inet.thy ===== *)
theory Inet
  imports Py_Prelude
begin

text \<open>
  \<open>socket.inet_aton\<close> and \<open>socket.inet_ntoa\<close> as \<open>mpu/someip/sd.py\<close> uses them: the C
  library's grammar of IPv4 addresses (one to four numbers, decimal, octal or hexadecimal,
  the last one filling the remaining bytes; anything after white space is ignored), OSError
  for anything else, ValueError for an embedded null character.  Beside them, the built-in
  \<open>int\<close> on text.
\<close>

section \<open>Definitions\<close>

definition char_code :: "char \<Rightarrow> nat" where
  "char_code c = of_char c"

definition digit_value :: "char \<Rightarrow> nat option" where
  "digit_value c =
     (let n = char_code c in
      if 48 \<le> n \<and> n \<le> 57 then Some (n - 48)
      else if 97 \<le> n \<and> n \<le> 102 then Some (n - 87)
      else if 65 \<le> n \<and> n \<le> 70 then Some (n - 55)
      else None)"

fun digits_value :: "nat \<Rightarrow> nat \<Rightarrow> string \<Rightarrow> nat option" where
  "digits_value base acc [] = Some acc"
| "digits_value base acc (c # cs) =
     (case digit_value c of
        None \<Rightarrow> None
      | Some d \<Rightarrow> if d < base then digits_value base (acc * base + d) cs else None)"

definition number_literal :: "string \<Rightarrow> nat option" where
  "number_literal s =
     (case s of
        [] \<Rightarrow> None
      | c # cs \<Rightarrow>
          if c = CHR ''0'' then
            (case cs of
               [] \<Rightarrow> Some 0
             | x # xs \<Rightarrow>
                 if x = CHR ''x'' \<or> x = CHR ''X''
                 then (if xs = [] then None else digits_value 16 0 xs)
                 else digits_value 8 0 cs)
          else digits_value 10 0 s)"

fun split_dots :: "string \<Rightarrow> string list" where
  "split_dots [] = [[]]"
| "split_dots (c # cs) =
     (if c = CHR ''.'' then [] # split_dots cs
      else (case split_dots cs of x # xs \<Rightarrow> (c # x) # xs | [] \<Rightarrow> [[c]]))"

definition is_space :: "char \<Rightarrow> bool" where
  "is_space c \<longleftrightarrow> char_code c = 32 \<or> (9 \<le> char_code c \<and> char_code c \<le> 13)"

fun all_some :: "'a option list \<Rightarrow> 'a list option" where
  "all_some [] = Some []"
| "all_some (None # xs) = None"
| "all_some (Some x # xs) = map_option (\<lambda>ys. x # ys) (all_some xs)"

definition address_bytes :: "nat list \<Rightarrow> bytes option" where
  "address_bytes ns =
     (if 1 \<le> length ns \<and> length ns \<le> 4 \<and> (\<forall>n \<in> set (butlast ns). n \<le> 255) \<and>
         last ns < 256 ^ (5 - length ns)
      then Some (map of_nat (butlast ns) @ be_bytes (5 - length ns) (int (last ns)))
      else None)"

definition inet_aton :: "string \<Rightarrow> bytes res" where
  "inet_aton s =
     (if CHR 0x00 \<in> set s then Inl (ValueError EmbeddedNull)
      else (case all_some (map number_literal (split_dots (takeWhile (\<lambda>c. \<not> is_space c) s))) of
              None \<Rightarrow> Inl OSError
            | Some ns \<Rightarrow> (case address_bytes ns of None \<Rightarrow> Inl OSError | Some bs \<Rightarrow> Inr bs)))"

text \<open>The decimal notation of a byte.\<close>

definition digit_char :: "nat \<Rightarrow> char" where
  "digit_char d = char_of (48 + d)"

definition dec_byte :: "nat \<Rightarrow> string" where
  "dec_byte n =
     (if n < 10 then [digit_char n]
      else if n < 100 then [digit_char (n div 10), digit_char (n mod 10)]
      else [digit_char (n div 100), digit_char (n div 10 mod 10), digit_char (n mod 10)])"

definition inet_ntoa :: "bytes \<Rightarrow> string res" where
  "inet_ntoa bs =
     (case bs of
        [a, b, c, d] \<Rightarrow> Inr (dec_byte (unat a) @ ''.'' @ dec_byte (unat b) @ ''.'' @
                             dec_byte (unat c) @ ''.'' @ dec_byte (unat d))
      | _ \<Rightarrow> Inl OSError)"

text \<open>\<open>int(s)\<close>: surrounding white space, a sign, decimal digits with single underscores.\<close>

definition int_space :: "char \<Rightarrow> bool" where
  "int_space c \<longleftrightarrow> is_space c \<or> char_code c \<in> {28, 29, 30, 31, 0x85, 0xA0}"

fun int_digits :: "int \<Rightarrow> bool \<Rightarrow> string \<Rightarrow> int option" where
  "int_digits acc after_digit [] = (if after_digit then Some acc else None)"
| "int_digits acc after_digit (c # cs) =
     (if c = CHR ''_'' then (if after_digit then int_digits acc False cs else None)
      else (case digit_value c of
              None \<Rightarrow> None
            | Some d \<Rightarrow> if d < 10 then int_digits (acc * 10 + int d) True cs else None))"

definition py_int :: "string \<Rightarrow> int res" where
  "py_int s =
     (let t = rev (dropWhile int_space (rev (dropWhile int_space s)));
          v = (case t of
                 [] \<Rightarrow> None
               | c # cs \<Rightarrow> (if c = CHR ''-'' then map_option uminus (int_digits 0 False cs)
                            else if c = CHR ''+'' then int_digits 0 False cs
                            else int_digits 0 False t))
      in case v of None \<Rightarrow> Inl (ValueError (InvalidLiteral s)) | Some i \<Rightarrow> Inr i)"

section \<open>Lemmas\<close>

definition plain_chars :: "string \<Rightarrow> bool" where
  "plain_chars s \<longleftrightarrow> list_all (\<lambda>c. c \<noteq> CHR ''.'' \<and> \<not> is_space c \<and> c \<noteq> CHR 0x00) s"

lemma char_code_digit: "d < 10 \<Longrightarrow> char_code (digit_char d) = 48 + d"
  by (simp add: char_code_def digit_char_def)

lemma digit_char_eq: "d < 10 \<Longrightarrow> digit_char d = c \<longleftrightarrow> char_code c = 48 + d"
  using char_code_digit [of d] by (metis char_code_def char_of_char digit_char_def)

lemma digit_value_digit: "d < 10 \<Longrightarrow> digit_value (digit_char d) = Some d"
  by (simp add: digit_value_def char_code_digit)

lemma plain_digit: "d < 10 \<Longrightarrow> plain_chars [digit_char d]"
  by (simp add: plain_chars_def is_space_def char_code_digit digit_char_eq) (simp add: char_code_def)

lemma plain_chars_Cons: "plain_chars (c # cs) \<longleftrightarrow> plain_chars [c] \<and> plain_chars cs"
  by (simp add: plain_chars_def)

lemma dec_byte_ok:
  assumes "n < 256"
  shows "number_literal (dec_byte n) = Some n" "plain_chars (dec_byte n)"
proof -
  have zero: "digit_char d = CHR ''0'' \<longleftrightarrow> d = 0" if "d < 10" for d
    using that by (simp add: digit_char_eq) (auto simp: char_code_def)
  have three: "n div 100 < 10" "(n div 100 * 10 + n div 10 mod 10) * 10 + n mod 10 = n"
  proof -
    show "n div 100 < 10" using assms by auto
    have "n div 100 * 10 + n div 10 mod 10 = n div 10"
      using div_mult2_eq [of n 10 10] div_mult_mod_eq [of "n div 10" 10] by simp
    then show "(n div 100 * 10 + n div 10 mod 10) * 10 + n mod 10 = n"
      using div_mult_mod_eq [of n 10] by simp
  qed
  consider "n < 10" | "10 \<le> n" "n < 100" | "100 \<le> n" by linarith
  then show "number_literal (dec_byte n) = Some n"
  proof cases
    case 1
    then show ?thesis by (auto simp: dec_byte_def number_literal_def zero digit_value_digit)
  next
    case 2
    then have "n div 10 < 10" "n div 10 \<noteq> 0" by auto
    with 2 show ?thesis by (simp add: dec_byte_def number_literal_def zero digit_value_digit)
  next
    case 3
    then have "n div 100 \<noteq> 0" by auto
    with 3 three show ?thesis by (simp add: dec_byte_def number_literal_def zero digit_value_digit)
  qed
  show "plain_chars (dec_byte n)"
    using three(1) by (auto simp: dec_byte_def plain_chars_Cons [of _ "_ # _"] plain_digit)
qed

lemma split_dots_plain: "plain_chars s \<Longrightarrow> split_dots s = [s]"
  by (induction s) (auto simp: plain_chars_def)

lemma split_dots_append:
  "plain_chars s \<Longrightarrow> split_dots (s @ CHR ''.'' # r) = s # split_dots r"
  by (induction s) (auto simp: plain_chars_def)

lemma address_bytes_length: "address_bytes ns = Some bs \<Longrightarrow> length bs = 4"
  by (auto simp: address_bytes_def split: if_splits)

lemma inet_aton_length: "inet_aton s = Inr bs \<Longrightarrow> length bs = 4"
  by (auto simp: inet_aton_def dest: address_bytes_length split: if_splits option.splits)

lemma inet_aton_errors: "inet_aton s = Inl e \<Longrightarrow> e = OSError \<or> e = ValueError EmbeddedNull"
  by (auto simp: inet_aton_def split: if_splits option.splits)

lemma inet_aton_ntoa:
  assumes "length bs = 4"
  shows "\<exists>s. inet_ntoa bs = Inr s \<and> inet_aton s = Inr bs"
proof -
  from assms obtain a b c d where bs: "bs = [a, b, c, d]"
    by (auto simp: length_Suc_conv numeral_eq_Suc)
  have byte: "unat (x :: byte) < 256" for x using unsigned_less [of x] by simp
  let ?s = "dec_byte (unat a) @ ''.'' @ dec_byte (unat b) @ ''.'' @ dec_byte (unat c) @ ''.'' @ dec_byte (unat d)"
  have plain: "plain_chars (dec_byte (unat x))" for x :: byte by (rule dec_byte_ok(2) [OF byte])
  then have clean: "CHR 0x00 \<notin> set ?s" "\<forall>x \<in> set ?s. \<not> is_space x"
    by (auto simp: plain_chars_def list_all_iff is_space_def char_code_def)
  then have core: "takeWhile (\<lambda>c. \<not> is_space c) ?s = ?s"
    by (intro takeWhile_eq_all_conv [THEN iffD2]) blast
  have "inet_aton ?s = (case all_some (map number_literal (split_dots ?s)) of
              None \<Rightarrow> Inl OSError
            | Some ns \<Rightarrow> (case address_bytes ns of None \<Rightarrow> Inl OSError | Some bs \<Rightarrow> Inr bs))"
    unfolding inet_aton_def core using clean(1) by (simp only: if_False)
  moreover have "split_dots ?s = [dec_byte (unat a), dec_byte (unat b), dec_byte (unat c), dec_byte (unat d)]"
    by (simp add: split_dots_append split_dots_plain plain)
  moreover have "(word_of_int (int (unat d)) :: byte) = d" "(of_nat (unat x) :: byte) = x" for x
    by simp_all
  moreover have "unat x \<le> 255" for x :: byte using byte [of x] by simp
  ultimately have "inet_aton ?s = Inr bs"
    using byte [of d] by (simp add: dec_byte_ok byte address_bytes_def bs)
  then show ?thesis by (simp add: inet_ntoa_def bs)
qed

section \<open>Decimal text and int\<close>

fun dec_nat :: "nat \<Rightarrow> string" where
  "dec_nat n = (if n < 10 then [digit_char n] else dec_nat (n div 10) @ [digit_char (n mod 10)])"

definition dec_int :: "int \<Rightarrow> string" where
  "dec_int i = (if i < 0 then CHR ''-'' # dec_nat (nat (- i)) else dec_nat (nat i))"

declare dec_nat.simps [simp del]

definition is_dec :: "char \<Rightarrow> bool" where
  "is_dec c \<longleftrightarrow> (\<exists>d<10. c = digit_char d)"

lemma dec_nat_digits: "list_all is_dec (dec_nat n) \<and> dec_nat n \<noteq> []"
proof (induction n rule: dec_nat.induct)
  case (1 n)
  have "is_dec (digit_char (n mod 10))" "n < 10 \<Longrightarrow> is_dec (digit_char n)"
    unfolding is_dec_def by (rule exI [of _ "n mod 10"], simp) blast
  with 1 show ?case by (subst (1 2) dec_nat.simps) auto
qed

lemma is_dec_chars: "is_dec c \<Longrightarrow> c \<noteq> CHR ''_'' \<and> c \<noteq> CHR ''-'' \<and> c \<noteq> CHR ''+'' \<and> \<not> int_space c"
  by (auto simp: is_dec_def digit_char_eq int_space_def is_space_def char_code_digit)
    (auto simp: char_code_def)

lemma int_digits_Cons:
  assumes "d < 10"
  shows "int_digits acc b (digit_char d # cs) = int_digits (acc * 10 + int d) True cs"
proof -
  have "is_dec (digit_char d)" using assms by (auto simp: is_dec_def)
  then have "digit_char d \<noteq> CHR ''_''" by (simp add: is_dec_chars)
  moreover have "digit_value (digit_char d) = Some d"
    using assms by (simp add: digit_value_def char_code_digit)
  ultimately show ?thesis using assms by simp
qed

lemma int_digits_dec: "int_digits 0 b (dec_nat n @ cs) = int_digits (int n) True cs"
proof (induction n arbitrary: b cs rule: dec_nat.induct)
  case (1 n)
  show ?case
  proof (cases "n < 10")
    case True
    then show ?thesis by (subst dec_nat.simps) (simp add: int_digits_Cons del: int_digits.simps)
  next
    case False
    have "int (n div 10) * 10 + int (n mod 10) = int n" by presburger
    with False "1.IH" show ?thesis
      by (subst dec_nat.simps) (simp add: int_digits_Cons del: int_digits.simps)
  qed
qed

lemma strip_id:
  assumes "t \<noteq> []" "\<not> P (hd t)" "\<not> P (last t)"
  shows "rev (dropWhile P (rev (dropWhile P t))) = t"
proof -
  have "dropWhile P t = t" using assms(1,2) by (cases t) auto
  moreover have "dropWhile P (rev t) = rev t" using assms(1,3) by (cases t rule: rev_cases) auto
  ultimately show ?thesis by simp
qed

lemma py_int_dec: "py_int (dec_int i) = Inr i"
proof -
  have ends: "is_dec (hd (dec_nat n))" "is_dec (last (dec_nat n))" for n
    using dec_nat_digits [of n] by (simp_all add: list_all_iff)
  have "\<not> int_space CHR ''-''" by (simp add: int_space_def is_space_def char_code_def)
  then have strip: "rev (dropWhile int_space (rev (dropWhile int_space (dec_int i)))) = dec_int i"
    using ends is_dec_chars dec_nat_digits by (intro strip_id) (auto simp: dec_int_def)
  have digits: "int_digits 0 False (dec_nat n) = Some (int n)" for n
    using int_digits_dec [of False n "[]"] by simp
  obtain c cs where pos: "dec_nat (nat i) = c # cs" "c \<noteq> CHR ''-''" "c \<noteq> CHR ''+''"
    using ends(1) [of "nat i"] is_dec_chars dec_nat_digits [of "nat i"]
    by (cases "dec_nat (nat i)") auto
  show ?thesis
  proof (cases "i < 0")
    case True
    then show ?thesis using strip digits by (simp add: py_int_def dec_int_def)
  next
    case False
    then show ?thesis using strip digits [of "nat i"] pos by (simp add: py_int_def dec_int_def)
  qed
qed

end
