(* ===== verification/Sd_Wire.thy ===== *)
theory Sd_Wire
  imports Someip_Protocol Inet
begin

text \<open>
  The service discovery messages of \<open>mpu/someip/sd.py\<close>: the entry, option and message
  builders, the convenience builders, and \<open>parse_sd\<close>.  The builders mask every field to its
  width, so that the only values they reject are addresses and oversized messages; the
  parser returns the dictionary of the code as a record, with the keys that only some
  entries and options have as options.
\<close>

section \<open>Constants (sd.py, lines 22 to 49)\<close>

definition SD_SERVICE_ID :: int where [simp]: "SD_SERVICE_ID = 0xFFFF"
definition SD_METHOD_ID :: int where [simp]: "SD_METHOD_ID = 0x8100"
definition SD_CLIENT_ID :: int where [simp]: "SD_CLIENT_ID = 0x0000"
definition SD_PORT :: int where [simp]: "SD_PORT = 30490"
definition SD_MULTICAST :: string where [simp]: "SD_MULTICAST = ''224.224.224.245''"
definition SD_PROTOCOL_VERSION :: int where [simp]: "SD_PROTOCOL_VERSION = 0x01"
definition SD_INTERFACE_VERSION :: int where [simp]: "SD_INTERFACE_VERSION = 0x01"
definition SD_MESSAGE_TYPE :: int where [simp]: "SD_MESSAGE_TYPE = 0x02"
definition SD_RETURN_CODE :: int where [simp]: "SD_RETURN_CODE = 0x00"
definition FLAG_UNICAST :: int where [simp]: "FLAG_UNICAST = 0x40"
definition FLAG_REBOOT :: int where [simp]: "FLAG_REBOOT = 0x80"
definition TTL_DEFAULT :: int where [simp]: "TTL_DEFAULT = 0xFFFFFF"
definition TTL_STOP :: int where [simp]: "TTL_STOP = 0x000000"
definition L4_UDP :: int where [simp]: "L4_UDP = 0x11"
definition L4_TCP :: int where [simp]: "L4_TCP = 0x06"
definition ENTRY_FIND_SERVICE :: int where [simp]: "ENTRY_FIND_SERVICE = 0x00"
definition ENTRY_OFFER_SERVICE :: int where [simp]: "ENTRY_OFFER_SERVICE = 0x01"
definition ENTRY_REQUEST_SERVICE :: int where [simp]: "ENTRY_REQUEST_SERVICE = 0x02"
definition ENTRY_FIND_EVENT_GROUP :: int where [simp]: "ENTRY_FIND_EVENT_GROUP = 0x04"
definition ENTRY_PUBLISH_EVENTGROUP :: int where [simp]: "ENTRY_PUBLISH_EVENTGROUP = 0x05"
definition ENTRY_SUBSCRIBE_EVENTGROUP :: int where [simp]: "ENTRY_SUBSCRIBE_EVENTGROUP = 0x06"
definition ENTRY_SUBSCRIBE_EVENTGROUP_ACK :: int where [simp]: "ENTRY_SUBSCRIBE_EVENTGROUP_ACK = 0x07"
definition OPT_IP4_ENDPOINT :: int where [simp]: "OPT_IP4_ENDPOINT = 0x04"
definition OPT_IP4_MULTICAST :: int where [simp]: "OPT_IP4_MULTICAST = 0x14"

section \<open>Builders\<close>

definition pack_ttl :: "int \<Rightarrow> bytes res" where
  "pack_ttl ttl = res_bind (struct_pack Big [UInt 4 (ttl AND 0xFFFFFF)]) (\<lambda>b. Inr (drop 1 b))"

text \<open>The first nine bytes, the same for both kinds of entries.\<close>

definition pack_entry_head :: "int \<Rightarrow> int \<Rightarrow> int \<Rightarrow> int \<Rightarrow> int \<Rightarrow> int \<Rightarrow> int \<Rightarrow> int \<Rightarrow> bytes res" where
  "pack_entry_head entry_type service_id instance_id major_version index1 index2 n_opts_run1 n_opts_run2 =
     (let n_opts = (push_bit 4 (n_opts_run1 AND 0x0F)) OR (n_opts_run2 AND 0x0F) in
      struct_pack Big
        [UInt 1 (entry_type AND 0xFF), UInt 1 (index1 AND 0xFF), UInt 1 (index2 AND 0xFF),
         UInt 1 (n_opts AND 0xFF), UInt 2 (service_id AND 0xFFFF), UInt 2 (instance_id AND 0xFFFF),
         UInt 1 (major_version AND 0xFF)])"

definition build_service_entry ::
  "int \<Rightarrow> int \<Rightarrow> int \<Rightarrow> int \<Rightarrow> int \<Rightarrow> int \<Rightarrow> int \<Rightarrow> int \<Rightarrow> int \<Rightarrow> int \<Rightarrow> bytes res" where
  "build_service_entry entry_type service_id instance_id ttl minor_version major_version
     index1 index2 n_opts_run1 n_opts_run2 =
     res_bind (pack_entry_head entry_type service_id instance_id major_version
                 index1 index2 n_opts_run1 n_opts_run2) (\<lambda>head.
     res_bind (pack_ttl ttl) (\<lambda>t.
     res_bind (struct_pack Big [UInt 4 (minor_version AND 0xFFFFFFFF)]) (\<lambda>minor.
       Inr (head @ t @ minor))))"

definition build_eventgroup_entry ::
  "int \<Rightarrow> int \<Rightarrow> int \<Rightarrow> int \<Rightarrow> int \<Rightarrow> int \<Rightarrow> int \<Rightarrow> int \<Rightarrow> int \<Rightarrow> int \<Rightarrow> bytes res" where
  "build_eventgroup_entry entry_type service_id instance_id eventgroup_id ttl major_version
     index1 index2 n_opts_run1 n_opts_run2 =
     res_bind (pack_entry_head entry_type service_id instance_id major_version
                 index1 index2 n_opts_run1 n_opts_run2) (\<lambda>head.
     res_bind (pack_ttl ttl) (\<lambda>t.
     res_bind (struct_pack Big [UInt 2 0x0000, UInt 2 (eventgroup_id AND 0xFFFF)]) (\<lambda>eg.
       Inr (head @ t @ eg))))"

definition build_ipv4_endpoint_option :: "string \<Rightarrow> int \<Rightarrow> int \<Rightarrow> bytes res" where
  "build_ipv4_endpoint_option ip port l4_proto =
     res_bind (struct_pack Big [UInt 2 9, UInt 1 OPT_IP4_ENDPOINT, UInt 1 0x00]) (\<lambda>head.
     res_bind (inet_aton ip) (\<lambda>address.
     res_bind (struct_pack Big [UInt 1 0x00, UInt 1 (l4_proto AND 0xFF), UInt 2 (port AND 0xFFFF)]) (\<lambda>rest.
       Inr (head @ address @ rest))))"

definition build_sd_message :: "bytes \<Rightarrow> bytes \<Rightarrow> int \<Rightarrow> int \<Rightarrow> bytes res" where
  "build_sd_message entries options session_id flags =
     (let len = 20 + int (length entries) + int (length options) in
      res_bind (struct_pack Big
        [UInt 2 SD_SERVICE_ID, UInt 2 SD_METHOD_ID, UInt 4 len, UInt 2 SD_CLIENT_ID,
         UInt 2 (session_id AND 0xFFFF), UInt 1 SD_PROTOCOL_VERSION, UInt 1 SD_INTERFACE_VERSION,
         UInt 1 SD_MESSAGE_TYPE, UInt 1 SD_RETURN_CODE]) (\<lambda>someip_header.
      res_bind (struct_pack Big
        [UInt 1 (flags AND 0xFF), Chars 3 [0, 0, 0], UInt 4 (int (length entries))]) (\<lambda>sd_header.
      res_bind (struct_pack Big [UInt 4 (int (length options))]) (\<lambda>options_len.
        Inr (someip_header @ sd_header @ entries @ options_len @ options)))))"

definition build_find_service :: "int \<Rightarrow> int \<Rightarrow> int \<Rightarrow> int \<Rightarrow> int \<Rightarrow> bytes res" where
  "build_find_service service_id instance_id session_id ttl flags =
     res_bind (build_service_entry ENTRY_FIND_SERVICE service_id instance_id ttl 0 1 0 0 0 0) (\<lambda>entry.
       build_sd_message entry [] session_id flags)"

definition build_offer_service ::
  "int \<Rightarrow> int \<Rightarrow> string \<Rightarrow> int \<Rightarrow> int \<Rightarrow> int \<Rightarrow> int \<Rightarrow> int \<Rightarrow> bytes res" where
  "build_offer_service service_id instance_id ip port session_id ttl minor_version flags =
     res_bind (build_service_entry ENTRY_OFFER_SERVICE service_id instance_id ttl minor_version 1 0 0 1 0) (\<lambda>entry.
     res_bind (build_ipv4_endpoint_option ip port L4_UDP) (\<lambda>option.
       build_sd_message entry option session_id flags))"

definition build_stop_offer_service :: "int \<Rightarrow> int \<Rightarrow> int \<Rightarrow> bytes res" where
  "build_stop_offer_service service_id instance_id session_id =
     res_bind (build_service_entry ENTRY_OFFER_SERVICE service_id instance_id TTL_STOP 0 1 0 0 0 0) (\<lambda>entry.
       build_sd_message entry [] session_id FLAG_UNICAST)"

definition build_subscribe_eventgroup ::
  "int \<Rightarrow> int \<Rightarrow> int \<Rightarrow> string \<Rightarrow> int \<Rightarrow> int \<Rightarrow> int \<Rightarrow> bytes res" where
  "build_subscribe_eventgroup service_id instance_id eventgroup_id ip port session_id ttl =
     res_bind (build_eventgroup_entry ENTRY_SUBSCRIBE_EVENTGROUP service_id instance_id eventgroup_id ttl
                 1 0 0 0 0) (\<lambda>entry.
     res_bind (build_ipv4_endpoint_option ip port L4_UDP) (\<lambda>option.
       build_sd_message entry option session_id FLAG_UNICAST))"

section \<open>Parser\<close>

record sd_entry =
  entry_type :: int
  service_id :: int
  instance_id :: int
  major_version :: int
  ttl :: int
  minor_version :: "int option"
  eventgroup_id :: "int option"

record sd_option =
  option_type :: int
  endpoint :: "(string \<times> int \<times> int) option"

record sd_info =
  info_session_id :: int
  info_flags :: int
  info_entries :: "sd_entry list"
  info_options :: "sd_option list"

text \<open>One pass of the entry loop, on the chunk \<open>entries[i:i + 16]\<close>.\<close>

definition parse_entry :: "bytes \<Rightarrow> sd_entry res" where
  "parse_entry chunk =
     res_bind (py_index chunk 0) (\<lambda>ty.
     res_bind (py_index chunk 8) (\<lambda>major.
       Inr \<lparr>entry_type = ty,
            service_id = from_be (py_slice chunk 4 6),
            instance_id = from_be (py_slice chunk 6 8),
            major_version = major,
            ttl = from_be (py_slice chunk 9 12),
            minor_version = (if 0 \<le> ty \<and> ty \<le> 2 then Some (from_be (py_slice chunk 12 16)) else None),
            eventgroup_id = (if 4 \<le> ty \<and> ty \<le> 7 then Some (from_be (py_slice chunk 14 16)) else None)\<rparr>))"

text \<open>\<open>range(0, n, 16)\<close>\<close>

definition range16 :: "nat \<Rightarrow> nat list" where
  "range16 n = map (\<lambda>k. 16 * k) [0..<(n + 15) div 16]"

fun parse_entries :: "bytes \<Rightarrow> nat list \<Rightarrow> sd_entry list res" where
  "parse_entries entries [] = Inr []"
| "parse_entries entries (i # is) =
     res_bind (parse_entry (py_slice entries i (i + 16))) (\<lambda>e.
     res_bind (parse_entries entries is) (\<lambda>es. Inr (e # es)))"

definition parse_option :: "int \<Rightarrow> bytes \<Rightarrow> sd_option res" where
  "parse_option opt_type opt_bytes =
     (if (opt_type = OPT_IP4_ENDPOINT \<or> opt_type = OPT_IP4_MULTICAST) \<and> 12 \<le> length opt_bytes then
        res_bind (inet_ntoa (py_slice opt_bytes 4 8)) (\<lambda>address.
        res_bind (py_index opt_bytes 9) (\<lambda>l4.
          Inr \<lparr>option_type = opt_type,
               endpoint = Some (address, l4, from_be (py_slice opt_bytes 10 12))\<rparr>))
      else Inr \<lparr>option_type = opt_type, endpoint = None\<rparr>)"

text \<open>The loop \<open>while pos < len(options)\<close>: every pass advances by at least three bytes.\<close>

function parse_options :: "bytes \<Rightarrow> nat \<Rightarrow> sd_option list res" where
  "parse_options options pos =
     (if pos < length options then
        if length options < pos + 4 then Inl (ValueError TruncatedOptionHeader)
        else
          let opt_length = from_be (py_slice options pos (pos + 2));
              block = nat opt_length + 3
          in
          res_bind (py_index options (pos + 2)) (\<lambda>opt_type.
            if length options < pos + block then Inl (ValueError OptionLengthMismatch)
            else
              res_bind (parse_option opt_type (py_slice options pos (pos + block))) (\<lambda>opt.
              res_bind (parse_options options (pos + block)) (\<lambda>rest. Inr (opt # rest))))
      else Inr [])"
  by pat_completeness auto
termination
  by (relation "measure (\<lambda>(options, pos). length options - pos)") auto

declare parse_options.simps [simp del]

definition parse_sd :: "bytes \<Rightarrow> sd_info res" where
  "parse_sd packet =
     (if length packet < 16 then Inl (ValueError (SdPacketTooShort (length packet)))
      else res_bind (struct_unpack header_format (py_slice packet 0 16)) (\<lambda>fields.
        case fields of
          [service, method, len, client, session, protocol_version, interface_version,
           message_type, return_code] \<Rightarrow>
            if service \<noteq> SD_SERVICE_ID \<or> method \<noteq> SD_METHOD_ID
            then Inl (ValueError (UnexpectedSdHeader service method))
            else if message_type \<noteq> SD_MESSAGE_TYPE
            then Inl (ValueError (UnexpectedSdMessageType message_type))
            else res_bind (py_index packet 16) (\<lambda>flags.
              let entries_len = nat (from_be (py_slice packet 20 24)) in
              if length packet < 24 + entries_len + 4
              then Inl (ValueError (EntriesLenInconsistent (int entries_len) (length packet)))
              else if entries_len mod 16 \<noteq> 0
              then Inl (ValueError (EntriesLenNotMultiple (int entries_len)))
              else
                let entries = py_slice packet 24 (24 + entries_len);
                    options_offset = 24 + entries_len;
                    options_len = nat (from_be (py_slice packet options_offset (options_offset + 4)))
                in
                if length packet < options_offset + 4 + options_len
                then Inl (ValueError (OptionsLenInconsistent (int options_len) (length packet)))
                else
                  let options = py_slice packet (options_offset + 4) (options_offset + 4 + options_len) in
                  res_bind (parse_entries entries (range16 entries_len)) (\<lambda>parsed_entries.
                  res_bind (parse_options options 0) (\<lambda>parsed_options.
                    Inr \<lparr>info_session_id = session, info_flags = flags,
                         info_entries = parsed_entries, info_options = parsed_options\<rparr>)))
        | _ \<Rightarrow> Inl (ValueError UnpackCount)))"

section \<open>What the builders produce\<close>

text \<open>Masked fields always fit: these entries cannot fail, whatever integers they are given.\<close>

lemma masked_field [simp]:
  "pack_field Big (UInt (Suc 0) (v AND 255)) = Inr [word_of_int v]"
  "pack_field Big (UInt 2 (v AND 65535)) = Inr (be_bytes 2 v)"
  "pack_field Big (UInt 4 (v AND 4294967295)) = Inr (be_bytes 4 v)"
  "pack_field Big (UInt 4 (v AND 16777215)) = Inr (be_bytes 4 (v mod 256 ^ 3))"
proof -
  have bound: "v mod 16777216 < 4294967296"
    using pos_mod_bound [of 16777216 v] by linarith
  show "pack_field Big (UInt (Suc 0) (v AND 255)) = Inr [word_of_int v]"
    by (simp add: order_bytes_def)
  show "pack_field Big (UInt 2 (v AND 65535)) = Inr (be_bytes 2 v)"
    "pack_field Big (UInt 4 (v AND 4294967295)) = Inr (be_bytes 4 v)"
    using be_bytes_mod [of 2 v] be_bytes_mod [of 4 v]
    by (simp_all add: order_bytes_def and_masks)
  show "pack_field Big (UInt 4 (v AND 16777215)) = Inr (be_bytes 4 (v mod 256 ^ 3))"
    using bound by (simp add: order_bytes_def and_masks)
qed

lemma pack_ttl_eq: "pack_ttl t = Inr (be_bytes 3 t)"
proof -
  have "drop (Suc 0) (be_bytes 4 (t mod 256 ^ 3)) = be_bytes 3 (t mod 256 ^ 3)"
    using be_bytes_drop_first [of 3] by (simp del: be_bytes.simps add: eval_nat_numeral)
  then show ?thesis
    unfolding pack_ttl_def be_bytes_mod by (simp del: pack_field.simps)
qed

definition n_opts_byte :: "int \<Rightarrow> int \<Rightarrow> byte" where
  "n_opts_byte n1 n2 = word_of_int ((push_bit 4 (n1 AND 0x0F)) OR (n2 AND 0x0F))"

definition entry_head :: "int \<Rightarrow> int \<Rightarrow> int \<Rightarrow> int \<Rightarrow> int \<Rightarrow> int \<Rightarrow> int \<Rightarrow> int \<Rightarrow> bytes" where
  "entry_head ty sid iid major i1 i2 n1 n2 =
     [word_of_int ty, word_of_int i1, word_of_int i2, n_opts_byte n1 n2] @
     be_bytes 2 sid @ be_bytes 2 iid @ [word_of_int major]"

lemma length_entry_head [simp]: "length (entry_head ty sid iid major i1 i2 n1 n2) = 9"
  by (simp add: entry_head_def)

lemma pack_entry_head_eq:
  "pack_entry_head ty sid iid major i1 i2 n1 n2 = Inr (entry_head ty sid iid major i1 i2 n1 n2)"
  by (simp add: pack_entry_head_def entry_head_def n_opts_byte_def Let_def del: pack_field.simps)

lemma build_service_entry_eq:
  "build_service_entry ty sid iid t minor major i1 i2 n1 n2 =
     Inr (entry_head ty sid iid major i1 i2 n1 n2 @ be_bytes 3 t @ be_bytes 4 minor)"
  by (simp add: build_service_entry_def pack_entry_head_eq pack_ttl_eq del: pack_field.simps)

lemma build_eventgroup_entry_eq:
  "build_eventgroup_entry ty sid iid eg t major i1 i2 n1 n2 =
     Inr (entry_head ty sid iid major i1 i2 n1 n2 @ be_bytes 3 t @ [0, 0] @ be_bytes 2 eg)"
proof -
  have zero: "pack_field Big (UInt 2 0) = Inr [0, 0]"
    by (simp add: order_bytes_def be_bytes_2)
  show ?thesis
    by (simp add: build_eventgroup_entry_def pack_entry_head_eq pack_ttl_eq zero del: pack_field.simps)
qed

definition endpoint_option :: "bytes \<Rightarrow> int \<Rightarrow> int \<Rightarrow> bytes" where
  "endpoint_option address l4 port = [0, 9, 4, 0] @ address @ [0, word_of_int l4] @ be_bytes 2 port"

lemma build_ipv4_endpoint_option_eq:
  "build_ipv4_endpoint_option ip port l4 =
     res_bind (inet_aton ip) (\<lambda>address. Inr (endpoint_option address l4 port))"
proof -
  have const: "pack_field Big (UInt 2 9) = Inr [0, 9]" "pack_field Big (UInt (Suc 0) 4) = Inr [4]"
    "pack_field Big (UInt (Suc 0) 0) = Inr [0]"
    by (simp_all add: order_bytes_def be_bytes_2)
  show ?thesis
    by (cases "inet_aton ip")
      (simp_all add: build_ipv4_endpoint_option_def endpoint_option_def const del: pack_field.simps)
qed

text \<open>The 28 bytes around the entries and options of a message.\<close>

definition sd_head :: "int \<Rightarrow> int \<Rightarrow> int \<Rightarrow> int \<Rightarrow> bytes" where
  "sd_head len session flags n =
     [255, 255, 129, 0] @ be_bytes 4 len @ [0, 0] @ be_bytes 2 session @ [1, 1, 2, 0] @
     [word_of_int flags, 0, 0, 0] @ be_bytes 4 n"

lemma length_sd_head [simp]: "length (sd_head len session flags n) = 24"
  by (simp add: sd_head_def)

lemma build_sd_message_eq:
  "build_sd_message es os s f =
     (if 20 + int (length es) + int (length os) < 4294967296
      then Inr (sd_head (20 + int (length es) + int (length os)) s f (int (length es)) @ es @
                be_bytes 4 (int (length os)) @ os)
      else Inl StructError)"
proof -
  have const: "pack_field Big (UInt 2 65535) = Inr [255, 255]" "pack_field Big (UInt 2 33024) = Inr [129, 0]"
    "pack_field Big (UInt 2 0) = Inr [0, 0]" "pack_field Big (UInt (Suc 0) 1) = Inr [1]"
    "pack_field Big (UInt (Suc 0) 2) = Inr [2]" "pack_field Big (UInt (Suc 0) 0) = Inr [0]"
    "pack_field Big (Chars 3 [0, 0, 0]) = Inr [0, 0, 0]"
    by (simp_all add: order_bytes_def be_bytes_2)
  have len: "pack_field Big (UInt 4 n) = (if 0 \<le> n \<and> n < 4294967296 then Inr (be_bytes 4 n) else Inl StructError)" for n
    by (simp add: order_bytes_def)
  show ?thesis
    by (simp add: build_sd_message_def sd_head_def const len Let_def del: pack_field.simps)
qed

section \<open>What the parser reads\<close>

lemma py_index_Inr: "i < length xs \<Longrightarrow> py_index xs i = Inr (uint (xs ! i))"
  by (simp add: py_index_def)

text \<open>The entry a 16-byte chunk stands for, and the option a block stands for.\<close>

definition entry_of :: "bytes \<Rightarrow> sd_entry" where
  "entry_of chunk =
     (let ty = uint (chunk ! 0) in
      \<lparr>entry_type = ty,
       service_id = from_be (py_slice chunk 4 6),
       instance_id = from_be (py_slice chunk 6 8),
       major_version = uint (chunk ! 8),
       ttl = from_be (py_slice chunk 9 12),
       minor_version = (if 0 \<le> ty \<and> ty \<le> 2 then Some (from_be (py_slice chunk 12 16)) else None),
       eventgroup_id = (if 4 \<le> ty \<and> ty \<le> 7 then Some (from_be (py_slice chunk 14 16)) else None)\<rparr>)"

lemma parse_entry_eq:
  assumes "8 < length chunk"
  shows "parse_entry chunk = Inr (entry_of chunk)"
proof -
  have "0 < length chunk" using assms by linarith
  then have "py_index chunk 0 = Inr (uint (chunk ! 0))" by (rule py_index_Inr)
  with assms show ?thesis by (simp add: parse_entry_def entry_of_def py_index_Inr Let_def)
qed

lemma parse_entries_eq:
  "\<forall>i \<in> set is. i + 8 < length entries \<Longrightarrow>
   parse_entries entries is = Inr (map (\<lambda>i. entry_of (py_slice entries i (i + 16))) is)"
proof (induction "is")
  case (Cons i "is")
  have "8 < length entries - i" using Cons.prems by (simp add: less_diff_conv)
  then have "8 < length (py_slice entries i (i + 16))" by simp
  from parse_entry_eq [OF this] Cons show ?case by simp
qed simp

lemma range16_eq: "range16 (16 * n) = map (\<lambda>k. 16 * k) [0..<n]"
proof -
  have "(16 * n + 15) div 16 = n" by simp
  then show ?thesis by (simp only: range16_def)
qed

lemma parse_entries_total:
  assumes "length entries = 16 * n"
  shows "parse_entries entries (range16 (length entries)) =
    Inr (map (\<lambda>k. entry_of (py_slice entries (16 * k) (16 * k + 16))) [0..<n])"
  using assms by (simp add: range16_eq parse_entries_eq o_def)

lemma py_slice_concat:
  "\<forall>e \<in> set es. length e = 16 \<Longrightarrow> k < length es \<Longrightarrow>
   py_slice (concat es) (16 * k) (16 * k + 16) = es ! k"
proof (induction es arbitrary: k)
  case (Cons e es)
  then show ?case
    by (cases k) (simp_all add: py_slice_append_right py_slice_append_left algebra_simps)
qed simp

lemma length_concat_16: "\<forall>e \<in> set es. length e = 16 \<Longrightarrow> length (concat es) = 16 * length es"
  by (induction es) simp_all

lemma parse_entries_concat:
  assumes "\<forall>e \<in> set es. length e = 16"
  shows "parse_entries (concat es) (range16 (length (concat es))) = Inr (map entry_of es)"
proof -
  have "map (\<lambda>k. entry_of (py_slice (concat es) (16 * k) (16 * k + 16))) [0..<length es] = map entry_of es"
    using assms by (intro nth_equalityI) (simp_all add: py_slice_concat)
  then show ?thesis
    using parse_entries_total [OF length_concat_16 [OF assms]] by simp
qed

definition option_of :: "bytes \<Rightarrow> sd_option" where
  "option_of b =
     (let ty = uint (b ! 2) in
      if (ty = 4 \<or> ty = 20) \<and> 12 \<le> length b
      then \<lparr>option_type = ty,
            endpoint = Some (dec_byte (unat (b ! 4)) @ ''.'' @ dec_byte (unat (b ! 5)) @ ''.'' @
                             dec_byte (unat (b ! 6)) @ ''.'' @ dec_byte (unat (b ! 7)),
                             uint (b ! 9), from_be (py_slice b 10 12))\<rparr>
      else \<lparr>option_type = ty, endpoint = None\<rparr>)"

lemma py_slice_4_8: "8 \<le> length b \<Longrightarrow> py_slice b 4 8 = [b ! 4, b ! 5, b ! 6, b ! 7]"
  by (simp add: py_slice_def list_eq_iff_nth_eq less_Suc_eq numeral_eq_Suc)

lemma parse_option_eq: "3 \<le> length b \<Longrightarrow> parse_option (uint (b ! 2)) b = Inr (option_of b)"
  by (auto simp: parse_option_def option_of_def py_slice_4_8 inet_ntoa_def py_index_Inr Let_def)

text \<open>A well-formed option block: its length field counts all but its first three bytes.\<close>

definition option_block :: "bytes \<Rightarrow> bool" where
  "option_block b \<longleftrightarrow> 4 \<le> length b \<and> int (length b) = from_be (take 2 b) + 3"

lemma parse_options_step:
  assumes "option_block b"
  shows "parse_options (pre @ b @ post) (length pre) =
    res_bind (parse_options (pre @ b @ post) (length pre + length b)) (\<lambda>rest. Inr (option_of b # rest))"
proof -
  from assms have len: "4 \<le> length b" and field: "nat (from_be (take 2 b)) + 3 = length b"
    by (auto simp: option_block_def)
  have "py_slice (pre @ b @ post) (length pre) (length pre + 2) = take 2 b"
    "py_slice (pre @ b @ post) (length pre) (length pre + length b) = b"
    "py_index (pre @ b @ post) (length pre + 2) = Inr (uint (b ! 2))"
    using len by (simp_all add: py_slice_append_right py_slice_append_left py_index_def nth_append)
  moreover have "b \<noteq> []" using len by auto
  ultimately show ?thesis
    using len field parse_option_eq [of b]
    by (subst parse_options.simps) (simp add: Let_def)
qed

lemma parse_options_concat:
  "\<forall>b \<in> set bs. option_block b \<Longrightarrow>
   parse_options (pre @ concat bs) (length pre) = Inr (map option_of bs)"
proof (induction bs arbitrary: pre)
  case Nil
  then show ?case by (subst parse_options.simps) simp
next
  case (Cons b bs)
  then show ?case
    using Cons.IH [of "pre @ b"] parse_options_step [of b pre "concat bs"] by simp
qed

text \<open>The parser, with the header read off at its offsets.\<close>

definition sd_header_ok :: "bytes \<Rightarrow> bool" where
  "sd_header_ok p \<longleftrightarrow>
     from_be (py_slice p 0 2) = SD_SERVICE_ID \<and> from_be (py_slice p 2 4) = SD_METHOD_ID \<and>
     from_be (py_slice p 14 15) = SD_MESSAGE_TYPE"

lemma parse_sd_body:
  assumes "16 \<le> length p" "sd_header_ok p"
  shows "parse_sd p =
    res_bind (py_index p 16) (\<lambda>flags.
      let n = nat (from_be (py_slice p 20 24)) in
      if length p < 28 + n then Inl (ValueError (EntriesLenInconsistent (int n) (length p)))
      else if n mod 16 \<noteq> 0 then Inl (ValueError (EntriesLenNotMultiple (int n)))
      else
        let m = nat (from_be (py_slice p (24 + n) (28 + n))) in
        if length p < 28 + n + m then Inl (ValueError (OptionsLenInconsistent (int m) (length p)))
        else
          res_bind (parse_entries (py_slice p 24 (24 + n)) (range16 n)) (\<lambda>es.
          res_bind (parse_options (py_slice p (28 + n) (28 + n + m)) 0) (\<lambda>os.
            Inr \<lparr>info_session_id = from_be (py_slice p 10 12), info_flags = flags,
                 info_entries = es, info_options = os\<rparr>)))"
proof -
  have off: "24 + n + 4 = 28 + n" for n :: nat by simp
  show ?thesis
    using assms unfolding parse_sd_def Let_def off
    by (simp add: unpack_header sd_header_ok_def del: py_slice_0)
qed

lemma parse_sd_bad_header:
  "length p < 16 \<or> \<not> sd_header_ok p \<Longrightarrow> \<exists>r. parse_sd p = Inl (ValueError r)"
  by (cases "length p < 16") (auto simp: parse_sd_def unpack_header sd_header_ok_def simp del: py_slice_0)

end
