(* ===== verification/Sd_Messages.thy ===== *)
theory Sd_Messages
  imports Sd_Wire
begin

text \<open>
  What the service discovery messages of \<open>mpu/someip/sd.py\<close> mean: the layout of a built
  message, the record \<open>parse_sd\<close> reads back from each builder, the ranges of the parsed
  fields, and the exceptions \<open>parse_sd\<close> can raise.
\<close>

section \<open>A message read back\<close>

lemma uint_const [simp]:
  "uint (255 :: byte) = 255" "uint (129 :: byte) = 129" "uint (2 :: byte) = 2"
  by simp_all

lemma sd_message_slices:
  "py_slice (sd_head len s f n @ r) 0 2 = [255, 255]"
  "py_slice (sd_head len s f n @ r) 2 4 = [129, 0]"
  "py_slice (sd_head len s f n @ r) 4 8 = be_bytes 4 len"
  "py_slice (sd_head len s f n @ r) 10 12 = be_bytes 2 s"
  "py_slice (sd_head len s f n @ r) 14 15 = [2]"
  "py_index (sd_head len s f n @ r) 16 = Inr (f mod 256)"
  "py_slice (sd_head len s f n @ r) 20 24 = be_bytes 4 n"
  by (simp_all add: py_slice_def py_index_def sd_head_def nth_append uint_byte)

lemma sd_header_ok_built: "sd_header_ok (sd_head len s f n @ r)"
  unfolding sd_header_ok_def sd_message_slices by (simp add: from_be_def)

lemma parse_sd_message:
  assumes "\<forall>e \<in> set es. length e = 16" "\<forall>b \<in> set bs. option_block b"
    and "20 + int (length (concat es)) + int (length (concat bs)) < 4294967296"
  shows "parse_sd (sd_head (20 + int (length (concat es)) + int (length (concat bs))) s f (int (length (concat es))) @
            concat es @ be_bytes 4 (int (length (concat bs))) @ concat bs @ trailer) =
    Inr \<lparr>info_session_id = s mod 65536, info_flags = f mod 256,
         info_entries = map entry_of es, info_options = map option_of bs\<rparr>" (is "parse_sd (?h @ ?r) = _")
proof -
  let ?n = "length (concat es)" and ?m = "length (concat bs)"
  have n: "nat (from_be (be_bytes 4 (int ?n))) = ?n" and m: "nat (from_be (be_bytes 4 (int ?m))) = ?m"
    using assms(3) by simp_all
  have n16: "?n mod 16 = 0" using length_concat_16 [OF assms(1)] by simp
  have cuts: "py_slice (?h @ ?r) 24 (24 + ?n) = concat es"
    "py_slice (?h @ ?r) (24 + ?n) (28 + ?n) = be_bytes 4 (int ?m)"
    "py_slice (?h @ ?r) (28 + ?n) (28 + ?n + ?m) = concat bs"
    by (simp_all add: py_slice_def)
  have ok: "16 \<le> length (?h @ ?r)" "sd_header_ok (?h @ ?r)"
    by (simp, rule sd_header_ok_built)
  have long: "\<not> length (?h @ ?r) < 28 + ?n" "\<not> length (?h @ ?r) < 28 + ?n + ?m" by simp_all
  have opts: "parse_options (concat bs) 0 = Inr (map option_of bs)"
    using parse_options_concat [OF assms(2), of "[]"] by simp
  show ?thesis
    unfolding parse_sd_body [OF ok] sd_message_slices Let_def n cuts m
    using n16 long opts parse_entries_concat [OF assms(1)]
    by (simp add: from_be_be_bytes del: length_concat length_append)
qed

text \<open>One entry and at most one option: the shape of all four convenience builders.\<close>

lemma parse_sd_built:
  assumes "build_sd_message e o1 s f = Inr pkt" "length e = 16" "o1 = [] \<or> option_block o1"
  shows "parse_sd pkt = Inr \<lparr>info_session_id = s mod 65536, info_flags = f mod 256,
    info_entries = [entry_of e], info_options = (if o1 = [] then [] else [option_of o1])\<rparr>"
  using assms parse_sd_message [of "[e]" "if o1 = [] then [] else [o1]" s f "[]"]
  by (auto simp: build_sd_message_eq split: if_splits)

lemma entry_head_fields:
  "uint ((entry_head ty sid iid major i1 i2 n1 n2 @ r) ! 0) = ty mod 256"
  "py_slice (entry_head ty sid iid major i1 i2 n1 n2 @ r) 4 6 = be_bytes 2 sid"
  "py_slice (entry_head ty sid iid major i1 i2 n1 n2 @ r) 6 8 = be_bytes 2 iid"
  "uint ((entry_head ty sid iid major i1 i2 n1 n2 @ r) ! 8) = major mod 256"
  by (simp_all add: entry_head_def py_slice_def nth_append uint_byte)

lemma entry_tail_fields:
  "py_slice (entry_head ty sid iid major i1 i2 n1 n2 @ be_bytes 3 t @ r) 9 12 = be_bytes 3 t"
  "length r = 4 \<Longrightarrow> py_slice (entry_head ty sid iid major i1 i2 n1 n2 @ be_bytes 3 t @ r) 12 16 = r"
  "length r = 4 \<Longrightarrow> py_slice (entry_head ty sid iid major i1 i2 n1 n2 @ be_bytes 3 t @ r) 14 16 = drop 2 r"
  by (simp_all add: py_slice_def)

lemma entry_of_built:
  assumes "length r = 4"
  shows "entry_of (entry_head ty sid iid major i1 i2 n1 n2 @ be_bytes 3 t @ r) =
    \<lparr>entry_type = ty mod 256, service_id = sid mod 65536, instance_id = iid mod 65536,
     major_version = major mod 256, ttl = t mod 16777216,
     minor_version = (if ty mod 256 \<le> 2 then Some (from_be r) else None),
     eventgroup_id = (if 4 \<le> ty mod 256 \<and> ty mod 256 \<le> 7 then Some (from_be (drop 2 r)) else None)\<rparr>"
  using assms
  by (simp add: entry_of_def Let_def entry_head_fields entry_tail_fields from_be_be_bytes)

lemma endpoint_option_block: "length a = 4 \<Longrightarrow> option_block (endpoint_option a l4 port)"
  by (simp add: option_block_def endpoint_option_def from_be_def)

lemma option_of_endpoint:
  assumes "length a = 4"
  shows "\<exists>ip. inet_aton ip = Inr a \<and> inet_ntoa a = Inr ip \<and>
    option_of (endpoint_option a l4 port) =
      \<lparr>option_type = OPT_IP4_ENDPOINT, endpoint = Some (ip, l4 mod 256, port mod 65536)\<rparr>"
proof -
  from assms obtain b c d e where a: "a = [b, c, d, e]"
    by (auto simp: length_Suc_conv numeral_eq_Suc)
  obtain ip where "inet_ntoa a = Inr ip" "inet_aton ip = Inr a"
    using inet_aton_ntoa [OF assms] by blast
  moreover have "py_slice (endpoint_option a l4 port) 10 12 = be_bytes 2 port"
    by (simp add: endpoint_option_def a py_slice_def)
  ultimately show ?thesis
    by (simp add: a inet_ntoa_def option_of_def endpoint_option_def Let_def uint_byte from_be_be_bytes)
qed

section \<open>What the parser can raise and return\<close>

lemma parse_option_total:
  assumes "4 \<le> length b"
  shows "\<exists>opt. parse_option ty b = Inr opt \<and> option_type opt = ty \<and>
    (\<forall>ip l4 port. endpoint opt = Some (ip, l4, port) \<longrightarrow>
       (ty = 4 \<or> ty = 20) \<and> 0 \<le> l4 \<and> l4 < 256 \<and> 0 \<le> port \<and> port < 65536)"
proof (cases "(ty = 4 \<or> ty = 20) \<and> 12 \<le> length b")
  case True
  then have "py_slice b 4 8 = [b ! 4, b ! 5, b ! 6, b ! 7]" "py_index b 9 = Inr (uint (b ! 9))"
    by (simp_all add: py_slice_4_8 py_index_Inr)
  with True from_be_bounds [of "py_slice b 10 12"] show ?thesis
    by (auto simp: parse_option_def inet_ntoa_def)
next
  case False
  then show ?thesis by (auto simp: parse_option_def)
qed

definition option_ok :: "sd_option \<Rightarrow> bool" where
  "option_ok opt \<longleftrightarrow> 0 \<le> option_type opt \<and> option_type opt < 256 \<and>
     (case endpoint opt of None \<Rightarrow> True
      | Some (ip, l4, port) \<Rightarrow> (option_type opt = OPT_IP4_ENDPOINT \<or> option_type opt = OPT_IP4_MULTICAST) \<and>
          0 \<le> l4 \<and> l4 < 256 \<and> 0 \<le> port \<and> port < 65536)"

lemma parse_option_ok:
  assumes "0 \<le> ty" "ty < 256"
  shows "(\<exists>opt. parse_option ty b = Inr opt \<and> option_ok opt)"
proof (cases "4 \<le> length b")
  case True
  from parse_option_total [OF this, of ty] assms show ?thesis
    by (fastforce simp: option_ok_def split: option.split prod.split)
next
  case False
  with assms show ?thesis by (simp add: parse_option_def option_ok_def)
qed

lemma parse_options_outcome:
  "(\<exists>r. parse_options os pos = Inl (ValueError r)) \<or>
   (\<exists>opts. parse_options os pos = Inr opts \<and> list_all option_ok opts \<and> 3 * length opts \<le> length os - pos)"
proof (induction os pos rule: parse_options.induct)
  case (1 os pos)
  let ?block = "nat (from_be (py_slice os pos (pos + 2))) + 3"
  consider "length os \<le> pos" | "pos < length os" "length os < pos + 4"
    | "pos + 4 \<le> length os" "length os < pos + ?block"
    | "pos + 4 \<le> length os" "pos + ?block \<le> length os" by linarith
  then show ?case
  proof cases
    case 4
    then have idx: "py_index os (pos + 2) = Inr (uint (os ! (pos + 2)))" by (simp add: py_index_Inr)
    obtain opt where opt: "parse_option (uint (os ! (pos + 2))) (py_slice os pos (pos + ?block)) = Inr opt"
        "option_ok opt"
      using parse_option_ok [of "uint (os ! (pos + 2))"] by auto
    have "(\<exists>r. parse_options os (pos + ?block) = Inl (ValueError r)) \<or>
       (\<exists>opts. parse_options os (pos + ?block) = Inr opts \<and> list_all option_ok opts \<and>
          3 * length opts \<le> length os - (pos + ?block))"
      using 4 idx opt by (intro "1.IH") auto
    with 4 idx opt show ?thesis
      by (subst (1 2) parse_options.simps) (auto simp: Let_def)
  qed (subst (1 2) parse_options.simps, simp add: py_index_Inr Let_def)+
qed

definition entry_ok :: "sd_entry \<Rightarrow> bool" where
  "entry_ok e \<longleftrightarrow>
     0 \<le> entry_type e \<and> entry_type e < 256 \<and> 0 \<le> service_id e \<and> service_id e < 65536 \<and>
     0 \<le> instance_id e \<and> instance_id e < 65536 \<and> 0 \<le> major_version e \<and> major_version e < 256 \<and>
     0 \<le> ttl e \<and> ttl e < 16777216 \<and>
     (minor_version e \<noteq> None \<longleftrightarrow> entry_type e \<le> 2) \<and>
     (eventgroup_id e \<noteq> None \<longleftrightarrow> 4 \<le> entry_type e \<and> entry_type e \<le> 7)"

lemma entry_of_ok: "entry_ok (entry_of c)"
proof -
  have bound: "0 \<le> from_be (py_slice c a b) \<and> from_be (py_slice c a b) < 256 ^ (b - a)" for a b
  proof -
    have "(256 :: int) ^ length (py_slice c a b) \<le> 256 ^ (b - a)"
      by (rule power_increasing) simp_all
    with from_be_bounds [of "py_slice c a b"] show ?thesis by linarith
  qed
  from bound [of 4 6] bound [of 6 8] bound [of 9 12] show ?thesis
    by (simp add: entry_ok_def entry_of_def Let_def)
qed

lemma parse_entries_framed:
  assumes "24 + n \<le> length p" "n mod 16 = 0"
  obtains es where "parse_entries (py_slice p 24 (24 + n)) (range16 n) = Inr es" "list_all entry_ok es" "16 * length es = n"
proof -
  obtain k where k: "n = 16 * k" using assms(2) by (metis mod_0_imp_dvd dvdE)
  with assms(1) have len: "length (py_slice p 24 (24 + n)) = 16 * k" by simp
  show thesis
    using that parse_entries_total [OF len] k len by (auto simp: list_all_iff entry_of_ok)
qed

text \<open>Which branch a packet takes, and what each gives.\<close>

lemma parse_sd_outcome:
  obtains (bad) r where "parse_sd p = Inl (ValueError r)"
  | (crash) "length p = 16" "sd_header_ok p" "parse_sd p = Inl IndexError"
  | (info) es opts s f where "parse_sd p = Inr \<lparr>info_session_id = s, info_flags = f, info_entries = es, info_options = opts\<rparr>"
      "sd_header_ok p" "list_all entry_ok es" "list_all option_ok opts" "0 \<le> s" "s < 65536" "0 \<le> f" "f < 256"
      "28 + 16 * length es + 3 * length opts \<le> length p"
proof (cases "length p < 16 \<or> \<not> sd_header_ok p")
  case True
  with parse_sd_bad_header bad show thesis by blast
next
  case False
  then have ok: "16 \<le> length p" "sd_header_ok p" by simp_all
  note body = parse_sd_body [OF ok]
  show thesis
  proof (cases "length p = 16")
    case True
    with crash ok body show thesis by (simp add: py_index_def)
  next
    case False
    with ok have f: "py_index p 16 = Inr (uint (p ! 16))" by (simp add: py_index_Inr)
    define n m where n: "n = nat (from_be (py_slice p 20 24))"
      and m: "m = nat (from_be (py_slice p (24 + n) (28 + n)))"
    let ?os = "py_slice p (28 + n) (28 + n + m)"
    show thesis
    proof (cases "length p < 28 + n \<or> n mod 16 \<noteq> 0 \<or> length p < 28 + n + m")
      case True
      then show thesis
        using bad body f unfolding Let_def n [symmetric] m [symmetric] by (auto split: if_splits)
    next
      case fits: False
      then obtain es where es: "parse_entries (py_slice p 24 (24 + n)) (range16 n) = Inr es"
          "list_all entry_ok es" "16 * length es = n"
        using parse_entries_framed [of n p] by auto
      note run = body [unfolded Let_def, folded n, folded m]
      from from_be_bounds [of "py_slice p 10 12"] ok
      have s: "0 \<le> from_be (py_slice p 10 12)" "from_be (py_slice p 10 12) < 65536" by auto
      from parse_options_outcome [of ?os 0] show thesis
      proof (elim disjE exE conjE)
        fix r assume "parse_options ?os 0 = Inl (ValueError r)"
        with run f fits es bad show thesis by simp
      next
        fix opts assume o: "parse_options ?os 0 = Inr opts" "list_all option_ok opts"
          "3 * length opts \<le> length ?os - 0"
        from o(3) fits es(3) have "28 + 16 * length es + 3 * length opts \<le> length p" by simp
        with info run f fits es o s ok show thesis by simp
      qed
    qed
  qed
qed

lemma length_build_sd_message:
  "build_sd_message es os s f = Inr pkt \<Longrightarrow> length pkt = 28 + length es + length os"
  by (auto simp: build_sd_message_eq split: if_splits)

lemma offer_length:
  assumes "build_offer_service sid iid ip port s t minor f = Inr pkt"
  shows "length pkt = 56"
proof -
  obtain a where a: "inet_aton ip = Inr a" "length a = 4"
    using assms(1) inet_aton_length [of ip]
    by (cases "inet_aton ip") (auto simp: build_offer_service_def build_ipv4_endpoint_option_eq build_service_entry_eq)
  then show ?thesis
    using assms(1) length_build_sd_message
    by (fastforce simp: build_offer_service_def build_ipv4_endpoint_option_eq build_service_entry_eq endpoint_option_def)
qed

lemma parse_sd_offer:
  "case build_offer_service sid iid ip port s t minor f of
     Inr pkt \<Rightarrow> \<exists>ip'. inet_aton ip' = inet_aton ip \<and> parse_sd pkt =
       Inr \<lparr>info_session_id = s mod 65536, info_flags = f mod 256,
         info_entries = [\<lparr>entry_type = ENTRY_OFFER_SERVICE, service_id = sid mod 65536, instance_id = iid mod 65536,
            major_version = 1, ttl = t mod 16777216, minor_version = Some (minor mod 4294967296), eventgroup_id = None\<rparr>],
         info_options = [\<lparr>option_type = OPT_IP4_ENDPOINT, endpoint = Some (ip', L4_UDP, port mod 65536)\<rparr>]\<rparr>
   | Inl e \<Rightarrow> inet_aton ip = Inl e"
proof (cases "inet_aton ip")
  case (Inl e)
  then show ?thesis
    by (simp add: build_offer_service_def build_service_entry_eq build_ipv4_endpoint_option_eq)
next
  case (Inr a)
  let ?e = "entry_head 1 sid iid 1 0 0 1 0 @ be_bytes 3 t @ be_bytes 4 minor"
    and ?o = "endpoint_option a L4_UDP port"
  have a: "length a = 4" using inet_aton_length [OF Inr] .
  then have o: "option_block ?o" by (rule endpoint_option_block)
  then have small: "length ?o < 2000" "?o \<noteq> []" using a by (auto simp: endpoint_option_def)
  have built: "build_offer_service sid iid ip port s t minor f = build_sd_message ?e ?o s f"
    using Inr by (simp add: build_offer_service_def build_service_entry_eq build_ipv4_endpoint_option_eq)
  obtain pkt where pkt: "build_sd_message ?e ?o s f = Inr pkt"
    using small by (simp add: build_sd_message_eq)
  obtain ip' where ip': "inet_aton ip' = Inr a"
    "option_of ?o = \<lparr>option_type = OPT_IP4_ENDPOINT, endpoint = Some (ip', L4_UDP mod 256, port mod 65536)\<rparr>"
    using option_of_endpoint [OF a] by blast
  have "parse_sd pkt = Inr \<lparr>info_session_id = s mod 65536, info_flags = f mod 256,
      info_entries = [entry_of ?e], info_options = [option_of ?o]\<rparr>"
    using parse_sd_built [OF pkt] o small by simp
  moreover have "entry_of ?e = \<lparr>entry_type = ENTRY_OFFER_SERVICE, service_id = sid mod 65536, instance_id = iid mod 65536,
            major_version = 1, ttl = t mod 16777216, minor_version = Some (minor mod 4294967296), eventgroup_id = None\<rparr>"
    by (simp add: entry_of_built from_be_be_bytes)
  ultimately show ?thesis using built pkt ip' Inr by auto
qed

text \<open>A message with one service entry and no option.\<close>

lemma parse_sd_single:
  assumes "length e = 16"
  shows "\<exists>pkt. build_sd_message e [] s f = Inr pkt \<and> parse_sd pkt =
      Inr \<lparr>info_session_id = s mod 65536, info_flags = f mod 256, info_entries = [entry_of e], info_options = []\<rparr>"
  using assms parse_sd_built [of e "[]" s f] by (simp add: build_sd_message_eq)

lemma parse_sd_find:
  "\<exists>pkt. build_find_service sid iid s t f = Inr pkt \<and> parse_sd pkt =
      Inr \<lparr>info_session_id = s mod 65536, info_flags = f mod 256,
         info_entries = [\<lparr>entry_type = ENTRY_FIND_SERVICE, service_id = sid mod 65536, instance_id = iid mod 65536,
            major_version = 1, ttl = t mod 16777216, minor_version = Some 0, eventgroup_id = None\<rparr>],
         info_options = []\<rparr>"
  using parse_sd_single [of "entry_head 0 sid iid 1 0 0 0 0 @ be_bytes 3 t @ be_bytes 4 0" s f]
  by (simp add: build_find_service_def build_service_entry_eq entry_of_built from_be_be_bytes)

text \<open>FindService messages are a codec: equal packets ask for the same service in the same words.\<close>

definition find_view :: "int \<times> int \<times> int \<times> int \<times> int \<Rightarrow> sd_info" where
  "find_view request = (case request of (sid, iid, s, t, f) \<Rightarrow>
     \<lparr>info_session_id = s mod 65536, info_flags = f mod 256,
      info_entries = [\<lparr>entry_type = ENTRY_FIND_SERVICE, service_id = sid mod 65536, instance_id = iid mod 65536,
         major_version = 1, ttl = t mod 16777216, minor_version = Some 0, eventgroup_id = None\<rparr>],
      info_options = []\<rparr>)"

interpretation find_codec: codec "\<lambda>(sid, iid, s, t, f). build_find_service sid iid s t f" parse_sd find_view
proof
  fix request pkt
  assume built: "(case request of (sid, iid, s, t, f) \<Rightarrow> build_find_service sid iid s t f) = Inr pkt"
  show "parse_sd pkt = Inr (find_view request)"
  proof (cases request)
    case (fields sid iid s t f)
    with parse_sd_find [of sid iid s t f] built show ?thesis
      by (auto simp: find_view_def)
  qed
qed

lemma find_packet_determines_request:
  assumes "build_find_service sid iid s t f = Inr pkt" "build_find_service sid' iid' s' t' f' = Inr pkt"
  shows "sid mod 65536 = sid' mod 65536 \<and> iid mod 65536 = iid' mod 65536 \<and> s mod 65536 = s' mod 65536"
  using find_codec.encoding_determines_view [of "(sid, iid, s, t, f)" pkt "(sid', iid', s', t', f')"] assms
  by (simp add: find_view_def)

text \<open>The \<open>#opts\<close> byte of the first entry of a message.\<close>

lemma py_index_built:
  "py_index (sd_head len s f n @ entry_head ty sid iid 1 0 0 k 0 @ r) 27 = Inr (uint (n_opts_byte k 0))"
  by (simp add: py_index_def nth_append sd_head_def entry_head_def)

lemma parse_sd_subscribe:
  assumes "inet_aton ip = Inr a"
  shows "\<exists>pkt ip'. build_subscribe_eventgroup sid iid eg ip port s t = Inr pkt \<and> inet_aton ip' = Inr a \<and>
     length pkt = 56 \<and> py_index pkt 27 = Inr 0 \<and>
     parse_sd pkt = Inr \<lparr>info_session_id = s mod 65536, info_flags = FLAG_UNICAST,
         info_entries = [\<lparr>entry_type = ENTRY_SUBSCRIBE_EVENTGROUP, service_id = sid mod 65536,
            instance_id = iid mod 65536, major_version = 1, ttl = t mod 16777216, minor_version = None,
            eventgroup_id = Some (eg mod 65536)\<rparr>],
         info_options = [\<lparr>option_type = OPT_IP4_ENDPOINT, endpoint = Some (ip', L4_UDP, port mod 65536)\<rparr>]\<rparr>"
proof -
  let ?o = "endpoint_option a L4_UDP port"
    and ?e = "entry_head 6 sid iid 1 0 0 0 0 @ be_bytes 3 t @ [0, 0] @ be_bytes 2 eg"
  have a: "length a = 4" using inet_aton_length [OF assms] .
  then have o: "option_block ?o" by (rule endpoint_option_block)
  have small: "length ?o = 12" using a by (simp add: endpoint_option_def)
  have sub: "build_subscribe_eventgroup sid iid eg ip port s t = build_sd_message ?e ?o s FLAG_UNICAST"
    using assms by (simp add: build_subscribe_eventgroup_def build_eventgroup_entry_eq build_ipv4_endpoint_option_eq)
  have "uint (n_opts_byte 0 0) = 0" by (simp add: n_opts_byte_def)
  then obtain pkt where pkt: "build_sd_message ?e ?o s FLAG_UNICAST = Inr pkt" "py_index pkt 27 = Inr 0" "length pkt = 56"
    using small by (simp add: build_sd_message_eq py_index_built)
  obtain ip' where ip': "inet_aton ip' = Inr a"
    "option_of ?o = \<lparr>option_type = OPT_IP4_ENDPOINT, endpoint = Some (ip', L4_UDP mod 256, port mod 65536)\<rparr>"
    using option_of_endpoint [OF a] by blast
  have "entry_of ?e = \<lparr>entry_type = ENTRY_SUBSCRIBE_EVENTGROUP, service_id = sid mod 65536,
            instance_id = iid mod 65536, major_version = 1, ttl = t mod 16777216, minor_version = None,
            eventgroup_id = Some (eg mod 65536)\<rparr>"
    by (simp add: entry_of_built from_be_be_bytes)
  moreover have "?o \<noteq> []" using small by auto
  ultimately show ?thesis using parse_sd_built [OF pkt(1)] o ip' sub pkt by simp
qed

section \<open>Properties\<close>

text \<open>
  A service discovery message is framed consistently.  Its SOME/IP length field is the
  size of the packet less eight, the entries length field is the size of the entries, both
  arrays stand at the documented offsets, and building fails only when that length does not
  fit 32 bits.
\<close>

theorem build_sd_message_layout:
  "case build_sd_message es os s f of
     Inr pkt \<Rightarrow> length pkt = 28 + length es + length os \<and> sd_header_ok pkt \<and>
       from_be (py_slice pkt 4 8) = int (length pkt) - 8 \<and>
       from_be (py_slice pkt 10 12) = s mod 65536 \<and> py_index pkt 16 = Inr (f mod 256) \<and>
       from_be (py_slice pkt 20 24) = int (length es) \<and> py_slice pkt 24 (24 + length es) = es \<and>
       from_be (py_slice pkt (24 + length es) (28 + length es)) = int (length os) \<and>
       drop (28 + length es) pkt = os
   | Inl e \<Rightarrow> e = StructError \<and> 4294967296 \<le> 20 + int (length es) + int (length os)"
proof (cases "20 + int (length es) + int (length os) < 4294967296")
  case True
  then show ?thesis
    by (simp add: build_sd_message_eq sd_header_ok_built sd_message_slices from_be_be_bytes)
      (simp add: py_slice_def)
next
  case False
  then show ?thesis by (simp add: build_sd_message_eq)
qed

text \<open>
  C21: round trip of whole messages.  Any number of 16-byte entries and of well-formed
  options, packed into one message and followed by any trailing bytes, is read back entry by
  entry and option by option, with the session and flags reduced to their width.
\<close>

theorem parse_sd_build_sd_message:
  assumes "build_sd_message (concat es) (concat bs) s f = Inr pkt"
    and "\<forall>e \<in> set es. length e = 16" "\<forall>b \<in> set bs. option_block b"
  shows "parse_sd (pkt @ trailer) =
    Inr \<lparr>info_session_id = s mod 65536, info_flags = f mod 256,
         info_entries = map entry_of es, info_options = map option_of bs\<rparr>"
  using assms parse_sd_message [of es bs s f trailer]
  by (auto simp: build_sd_message_eq simp del: length_concat split: if_splits)

theorem parse_sd_build_sd_message_witness:
  "\<exists>pkt. build_sd_message (concat [replicate 16 1, replicate 16 6]) (concat [[0, 9, 4, 0, 10, 0, 0, 1, 0, 17, 119, 26]]) 7 0xC0 = Inr pkt \<and>
     parse_sd (pkt @ [0]) = Inr \<lparr>info_session_id = 7, info_flags = 0xC0,
       info_entries = [entry_of (replicate 16 1), entry_of (replicate 16 6)],
       info_options = [option_of [0, 9, 4, 0, 10, 0, 0, 1, 0, 17, 119, 26]]\<rparr>"
proof -
  let ?es = "[replicate 16 1, replicate 16 6]" and ?bs = "[[0, 9, 4, 0, 10, 0, 0, 1, 0, 17, 119, 26]]"
  obtain pkt where pkt: "build_sd_message (concat ?es) (concat ?bs) 7 0xC0 = Inr pkt"
    by (simp add: build_sd_message_eq)
  show ?thesis
    using parse_sd_build_sd_message [OF pkt, of "[0]"] pkt by (simp add: option_block_def from_be_def)
qed

text \<open>
  An offer is read back as sent.  For any address string the C library accepts, the
  packet carries one OfferService entry and one IPv4 endpoint option with the service's
  identifiers, and an address text that denotes the same four bytes; an address it rejects
  makes the build fail with the library's error.
\<close>

theorem build_offer_service_roundtrip:
  "case build_offer_service sid iid ip port s t minor f of
     Inr pkt \<Rightarrow> \<exists>ip'. inet_aton ip' = inet_aton ip \<and> parse_sd pkt =
       Inr \<lparr>info_session_id = s mod 65536, info_flags = f mod 256,
         info_entries = [\<lparr>entry_type = ENTRY_OFFER_SERVICE, service_id = sid mod 65536, instance_id = iid mod 65536,
            major_version = 1, ttl = t mod 16777216, minor_version = Some (minor mod 4294967296), eventgroup_id = None\<rparr>],
         info_options = [\<lparr>option_type = OPT_IP4_ENDPOINT, endpoint = Some (ip', L4_UDP, port mod 65536)\<rparr>]\<rparr>
   | Inl e \<Rightarrow> inet_aton ip = Inl e"
  by (rule parse_sd_offer)

text \<open>
  Find and stop messages never fail to build and are read back as one entry without
  options: FindService with its TTL, and OfferService with TTL 0, flag unicast.
\<close>

theorem find_and_stop_roundtrip:
  "(\<exists>pkt. build_find_service sid iid s t f = Inr pkt \<and> parse_sd pkt =
      Inr \<lparr>info_session_id = s mod 65536, info_flags = f mod 256,
         info_entries = [\<lparr>entry_type = ENTRY_FIND_SERVICE, service_id = sid mod 65536, instance_id = iid mod 65536,
            major_version = 1, ttl = t mod 16777216, minor_version = Some 0, eventgroup_id = None\<rparr>],
         info_options = []\<rparr>) \<and>
   (\<exists>pkt. build_stop_offer_service sid iid s = Inr pkt \<and> parse_sd pkt =
      Inr \<lparr>info_session_id = s mod 65536, info_flags = FLAG_UNICAST,
         info_entries = [\<lparr>entry_type = ENTRY_OFFER_SERVICE, service_id = sid mod 65536, instance_id = iid mod 65536,
            major_version = 1, ttl = TTL_STOP, minor_version = Some 0, eventgroup_id = None\<rparr>],
         info_options = []\<rparr>)"
  using parse_sd_find [of sid iid s t f]
    parse_sd_single [of "entry_head 1 sid iid 1 0 0 0 0 @ be_bytes 3 0 @ be_bytes 4 0" s 64]
  by (simp add: build_stop_offer_service_def build_service_entry_eq entry_of_built from_be_be_bytes)

text \<open>
  C22: a subscription carries its endpoint but does not refer to it.  The message is read
  back with the event group and one endpoint option, while the entry's #opts byte (offset
  27 of the packet) is 0, where the offer's is 16, one option in the first run.
\<close>

theorem subscribe_roundtrip_without_reference:
  assumes "inet_aton ip = Inr a"
  shows "(\<exists>pkt ip'. build_subscribe_eventgroup sid iid eg ip port s t = Inr pkt \<and> inet_aton ip' = Inr a \<and>
     parse_sd pkt = Inr \<lparr>info_session_id = s mod 65536, info_flags = FLAG_UNICAST,
         info_entries = [\<lparr>entry_type = ENTRY_SUBSCRIBE_EVENTGROUP, service_id = sid mod 65536,
            instance_id = iid mod 65536, major_version = 1, ttl = t mod 16777216, minor_version = None,
            eventgroup_id = Some (eg mod 65536)\<rparr>],
         info_options = [\<lparr>option_type = OPT_IP4_ENDPOINT, endpoint = Some (ip', L4_UDP, port mod 65536)\<rparr>]\<rparr> \<and>
     py_index pkt 27 = Inr 0) \<and>
   (\<exists>pkt. build_offer_service sid iid ip port s t minor f = Inr pkt \<and> py_index pkt 27 = Inr 16)"
proof -
  let ?o = "endpoint_option a L4_UDP port"
    and ?off = "entry_head 1 sid iid 1 0 0 1 0 @ be_bytes 3 t @ be_bytes 4 minor"
  have "length ?o = 12" using inet_aton_length [OF assms] by (simp add: endpoint_option_def)
  moreover have "build_offer_service sid iid ip port s t minor f = build_sd_message ?off ?o s f"
    using assms by (simp add: build_offer_service_def build_service_entry_eq build_ipv4_endpoint_option_eq)
  moreover have "uint (n_opts_byte 1 0) = 16" by (simp add: n_opts_byte_def)
  ultimately have "\<exists>pkt. build_offer_service sid iid ip port s t minor f = Inr pkt \<and> py_index pkt 27 = Inr 16"
    by (simp add: build_sd_message_eq py_index_built)
  with parse_sd_subscribe [OF assms, of sid iid eg port s t] show ?thesis by blast
qed

theorem subscribe_roundtrip_without_reference_witness:
  "\<exists>pkt. build_subscribe_eventgroup 0x0100 1 0x8001 ''10.0.0.1'' 30490 1 0xFFFFFF = Inr pkt \<and> py_index pkt 27 = Inr 0"
proof -
  have "inet_aton ''10.0.0.1'' = Inr [10, 0, 0, 1]" by code_simp
  from subscribe_roundtrip_without_reference [OF this] show ?thesis by blast
qed

text \<open>
  C23: what parse_sd raises.  Only ValueError, as documented, with one exception: a packet of
  exactly 16 bytes whose SOME/IP header is a valid SD header raises IndexError (the flags are
  read before any length is checked).
\<close>

theorem parse_sd_errors:
  "(parse_sd p = Inl e \<longrightarrow> is_value_error e \<or> e = IndexError) \<and>
   (parse_sd p = Inl IndexError \<longleftrightarrow> length p = 16 \<and> sd_header_ok p)"
proof (cases rule: parse_sd_outcome [of p])
  case (bad r)
  moreover have "\<not> (length p = 16 \<and> sd_header_ok p)"
  proof
    assume "length p = 16 \<and> sd_header_ok p"
    then have "parse_sd p = Inl IndexError" by (simp add: parse_sd_body py_index_def)
    with bad show False by simp
  qed
  ultimately show ?thesis by auto
qed auto

theorem parse_sd_errors_witness:
  "parse_sd [255, 255, 129, 0, 0, 0, 0, 8, 0, 0, 0, 1, 1, 1, 2, 0] = Inl IndexError"
proof -
  have "length [255, 255, 129, 0, 0, 0, 0, 8, 0, 0, 0, 1, 1, 1, 2, 0 :: byte] = 16" by simp
  moreover have "sd_header_ok [255, 255, 129, 0, 0, 0, 0, 8, 0, 0, 0, 1, 1, 1, 2, 0]" by code_simp
  ultimately show ?thesis using parse_sd_errors by blast
qed



end
