(* ===== verification/Sd_Server.thy ===== *)
theory Sd_Server
  imports Sd_Messages Transport
begin

text \<open>
  The offer server \<open>SdServer\<close> of \<open>mpu/someip/sd.py\<close> (lines 239 to 300).  \<open>offer_once\<close> is a
  function on the object's fields and the trace of calls; the background thread and the two
  methods that control it are the step relation \<open>sd_step\<close>, whose states interleave one
  caller of \<open>start\<close> and \<open>stop\<close> with every thread ever started.
\<close>

section \<open>The object\<close>

record sd_server =
  srv_service_id :: int
  srv_instance_id :: int
  srv_ip :: string
  srv_port :: int
  srv_multicast :: string
  srv_sd_port :: int
  srv_period_ms :: nat
  srv_session :: int
  srv_first :: bool

definition new_sd_server :: "int \<Rightarrow> int \<Rightarrow> string \<Rightarrow> int \<Rightarrow> string \<Rightarrow> int \<Rightarrow> nat \<Rightarrow> sd_server" where
  "new_sd_server sid iid ip port multicast sd_port period_ms =
     \<lparr>srv_service_id = sid, srv_instance_id = iid, srv_ip = ip, srv_port = port,
      srv_multicast = multicast, srv_sd_port = sd_port, srv_period_ms = period_ms,
      srv_session = 1, srv_first = True\<rparr>"

text \<open>The fields assigned before an exception keep their new value.\<close>

definition offer_once :: "env \<Rightarrow> sd_server \<Rightarrow> trace \<Rightarrow> unit res \<times> sd_server \<times> trace" where
  "offer_once env srv tr =
     (let flags = (if srv_first srv then FLAG_REBOOT OR FLAG_UNICAST else FLAG_UNICAST);
          srv1 = srv\<lparr>srv_first := False\<rparr>
      in
      case build_offer_service (srv_service_id srv1) (srv_instance_id srv1) (srv_ip srv1) (srv_port srv1)
             (srv_session srv1) TTL_DEFAULT 0 flags of
        Inl e \<Rightarrow> (Inl e, srv1, tr)
      | Inr packet \<Rightarrow>
          let session1 = srv_session srv1 + 1;
              srv2 = srv1\<lparr>srv_session := (if session1 > 0xFFFF then 1 else session1)\<rparr>;
              (r, tr') = io_bind (perform env SocketCreate tr) (\<lambda>_ tr1.
                io_finally (sendto env packet (srv_multicast srv2) (srv_sd_port srv2) tr1)
                  (perform env SocketClose))
          in (r, srv2, tr'))"

text \<open>A run of \<open>n\<close> calls, their exceptions dropped as the thread does for OSError.\<close>

fun offers :: "env \<Rightarrow> nat \<Rightarrow> sd_server \<Rightarrow> trace \<Rightarrow> sd_server \<times> trace" where
  "offers env 0 srv tr = (srv, tr)"
| "offers env (Suc n) srv tr = (case offer_once env srv tr of (_, srv', tr') \<Rightarrow> offers env n srv' tr')"

section \<open>The thread and its control\<close>

text \<open>
  A thread is about to test the stop event, about to call \<open>offer_once\<close>, waiting on the event,
  or finished.  The caller is outside both methods, inside \<open>start\<close> past \<open>_stop.clear()\<close>, or
  inside \<open>stop\<close> past \<open>_stop.set()\<close>.
\<close>

datatype phase = AtCheck | AtOffer | Waiting | Dead
datatype caller = Idle | Starting | Stopping

record sd_system =
  server :: sd_server
  stop_set :: bool
  handle :: "nat option"
  threads :: "phase list"
  caller :: caller
  io :: trace

definition is_alive :: "sd_system \<Rightarrow> nat \<Rightarrow> bool" where
  "is_alive s i \<longleftrightarrow> i < length (threads s) \<and> threads s ! i \<noteq> Dead"

definition set_thread :: "nat \<Rightarrow> phase \<Rightarrow> sd_system \<Rightarrow> sd_system" where
  "set_thread i ph s = s\<lparr>threads := (threads s)[i := ph]\<rparr>"

inductive sd_step :: "env \<Rightarrow> sd_system \<Rightarrow> sd_system \<Rightarrow> bool" for env where
  start_again: "caller s = Idle \<Longrightarrow> handle s = Some i \<Longrightarrow> is_alive s i \<Longrightarrow> sd_step env s s"
| start_clear: "caller s = Idle \<Longrightarrow> (case handle s of None \<Rightarrow> True | Some i \<Rightarrow> \<not> is_alive s i) \<Longrightarrow>
    sd_step env s (s\<lparr>stop_set := False, caller := Starting\<rparr>)"
| start_spawn: "caller s = Starting \<Longrightarrow>
    sd_step env s (s\<lparr>handle := Some (length (threads s)), threads := threads s @ [AtCheck], caller := Idle\<rparr>)"
| start_fails: "caller s = Starting \<Longrightarrow>
    sd_step env s (s\<lparr>handle := Some (length (threads s)), threads := threads s @ [Dead], caller := Idle\<rparr>)"
| stop_unstarted: "caller s = Idle \<Longrightarrow> handle s = None \<Longrightarrow> sd_step env s s"
| stop_set: "caller s = Idle \<Longrightarrow> handle s = Some i \<Longrightarrow>
    sd_step env s (s\<lparr>stop_set := True, caller := Stopping\<rparr>)"
| stop_joined: "caller s = Stopping \<Longrightarrow> handle s = Some i \<Longrightarrow> \<not> is_alive s i \<Longrightarrow>
    sd_step env s (s\<lparr>handle := None, caller := Idle\<rparr>)"
| run_test: "i < length (threads s) \<Longrightarrow> threads s ! i = AtCheck \<Longrightarrow>
    sd_step env s (set_thread i (if stop_set s then Dead else AtOffer) s)"
| run_offer: "i < length (threads s) \<Longrightarrow> threads s ! i = AtOffer \<Longrightarrow>
    offer_once env (server s) (io s) = (r, srv', tr') \<Longrightarrow>
    sd_step env s (set_thread i (if r = Inr () \<or> r = Inl OSError then Waiting else Dead)
                     (s\<lparr>server := srv', io := tr'\<rparr>))"
| run_wake: "i < length (threads s) \<Longrightarrow> threads s ! i = Waiting \<Longrightarrow>
    sd_step env s (set_thread i AtCheck s)"

definition sd_init :: "sd_server \<Rightarrow> sd_system" where
  "sd_init srv = \<lparr>server = srv, stop_set = False, handle = None, threads = [], caller = Idle, io = []\<rparr>"

inductive sd_reachable :: "env \<Rightarrow> sd_server \<Rightarrow> sd_system \<Rightarrow> bool" for env srv where
  initial: "sd_reachable env srv (sd_init srv)"
| stepped: "sd_reachable env srv s \<Longrightarrow> sd_step env s s' \<Longrightarrow> sd_reachable env srv s'"

section \<open>One offer\<close>

definition srv_ok :: "sd_server \<Rightarrow> bool" where
  "srv_ok srv \<longleftrightarrow> 1 \<le> srv_session srv \<and> srv_session srv \<le> 0xFFFF"

definition offer_packet :: "sd_server \<Rightarrow> bytes res" where
  "offer_packet srv = build_offer_service (srv_service_id srv) (srv_instance_id srv) (srv_ip srv) (srv_port srv)
     (srv_session srv) TTL_DEFAULT 0 (if srv_first srv then 0xC0 else 0x40)"

definition next_session :: "sd_server \<Rightarrow> sd_server" where
  "next_session srv = srv\<lparr>srv_first := False,
     srv_session := (if srv_session srv + 1 > 0xFFFF then 1 else srv_session srv + 1)\<rparr>"

text \<open>The transmission is that of the UDP transport, to the multicast group.\<close>

definition group :: "sd_server \<Rightarrow> udp_transport" where
  "group srv = \<lparr>udp_host = srv_multicast srv, udp_port = srv_sd_port srv\<rparr>"

lemma offer_once_eq:
  "offer_once env srv tr =
     (case offer_packet srv of
        Inl e \<Rightarrow> (Inl e, srv\<lparr>srv_first := False\<rparr>, tr)
      | Inr packet \<Rightarrow> (case udp_send env (group srv) packet tr of (r, tr') \<Rightarrow> (r, next_session srv, tr')))"
proof -
  have "(128 :: int) OR 64 = 192" by simp
  then show ?thesis
    by (simp add: offer_once_def offer_packet_def next_session_def group_def udp_send_def Let_def
        split: sum.split prod.split)
qed

lemma srv_ok_next: "srv_ok srv \<Longrightarrow> srv_ok (next_session srv)"
  by (auto simp: srv_ok_def next_session_def)

lemma offer_once_ok:
  "offer_once env srv tr = (r, srv', tr') \<Longrightarrow> srv_ok srv \<Longrightarrow> srv_ok srv' \<and> \<not> srv_first srv'"
  by (auto simp: offer_once_eq srv_ok_next srv_ok_def next_session_def split: sum.splits prod.splits if_splits)

lemma offer_once_delivers:
  assumes "offer_once env srv tr = (r, srv', tr')"
  shows "delivered tr' = delivered tr \<or> (\<exists>pkt. offer_packet srv = Inr pkt \<and> delivered tr' = delivered tr @ [pkt])"
  using assms
  by (auto simp: offer_once_eq split: sum.splits prod.splits elim: udp_link.delivered_at_most_once)

text \<open>What a receiver reads in an offer.\<close>

lemma offer_packet_reads:
  assumes "offer_packet srv = Inr pkt" "srv_ok srv"
  shows "\<exists>info. parse_sd pkt = Inr info \<and> info_session_id info = srv_session srv \<and>
    info_flags info = (if srv_first srv then 0xC0 else 0x40)"
  using parse_sd_offer [where sid = "srv_service_id srv" and iid = "srv_instance_id srv" and ip = "srv_ip srv"
      and port = "srv_port srv" and s = "srv_session srv" and t = TTL_DEFAULT and minor = 0
      and f = "if srv_first srv then 0xC0 else 0x40"] assms
  by (auto simp: offer_packet_def srv_ok_def)

lemma offer_packet_errors:
  "offer_packet srv = Inl e \<longleftrightarrow> inet_aton (srv_ip srv) = Inl e"
proof (cases "inet_aton (srv_ip srv)")
  case (Inl e')
  then show ?thesis
    by (simp add: offer_packet_def build_offer_service_def build_service_entry_eq build_ipv4_endpoint_option_eq)
next
  case (Inr a)
  then have "length a = 4" by (rule inet_aton_length)
  with Inr show ?thesis
    by (simp add: offer_packet_def build_offer_service_def build_service_entry_eq
        build_ipv4_endpoint_option_eq build_sd_message_eq endpoint_option_def)
qed

text \<open>With nothing failing, one call adds one packet and three calls to the trace.\<close>

definition sendable :: "sd_server \<Rightarrow> bool" where
  "sendable srv \<longleftrightarrow> (\<exists>a. inet_aton (srv_ip srv) = Inr a) \<and> 0 \<le> srv_sd_port srv \<and> srv_sd_port srv \<le> 65535"

lemma udp_send_quiet:
  assumes "\<forall>n \<ge> length tr. env n = None" "0 \<le> udp_port t" "udp_port t \<le> 65535"
  shows "udp_send env t p tr =
    (Inr (), tr @ [(SocketCreate, True), (SendTo p (udp_host t) (udp_port t), True), (SocketClose, True)])"
  using assms by (simp add: udp_send_cases sendto_def perform_def)

lemma offer_once_quiet:
  assumes "sendable srv" "\<forall>n \<ge> length tr. env n = None"
  shows "\<exists>pkt tr'. offer_packet srv = Inr pkt \<and> offer_once env srv tr = (Inr (), next_session srv, tr') \<and>
    length tr \<le> length tr' \<and> delivered tr' = delivered tr @ [pkt]"
proof -
  obtain pkt where pkt: "offer_packet srv = Inr pkt"
    using assms(1) by (cases "offer_packet srv") (auto simp: sendable_def offer_packet_errors)
  have port: "0 \<le> udp_port (group srv)" "udp_port (group srv) \<le> 65535"
    using assms(1) by (auto simp: sendable_def group_def)
  show ?thesis
    using pkt by (simp add: offer_once_eq udp_send_quiet [OF assms(2) port])
qed

lemma sendable_next [simp]: "sendable (next_session srv) = sendable srv"
  by (simp add: sendable_def next_session_def)

text \<open>The server after \<open>k\<close> counted offers.\<close>

definition nth_server :: "sd_server \<Rightarrow> nat \<Rightarrow> sd_server" where
  "nth_server srv k = (next_session ^^ k) srv"

lemma nth_server_session:
  assumes "srv_session srv = 1"
  shows "srv_session (nth_server srv k) = int (k mod 65535) + 1"
proof (induction k)
  case 0
  then show ?case using assms by (simp add: nth_server_def)
next
  case (Suc k)
  have "Suc k mod 65535 = (if Suc (k mod 65535) = 65535 then 0 else Suc (k mod 65535))"
    by (simp only: mod_Suc)
  moreover have "k mod 65535 < 65534 \<or> k mod 65535 = 65534"
    using mod_less_divisor [of 65535 k] by linarith
  ultimately show ?case using Suc by (auto simp: nth_server_def next_session_def)
qed

lemma nth_server_first: "srv_first (nth_server srv k) = (k = 0 \<and> srv_first srv)"
  by (cases k) (simp_all add: nth_server_def next_session_def)

lemma nth_server_ok: "srv_ok srv \<Longrightarrow> srv_ok (nth_server srv k)"
  by (induction k) (simp_all add: nth_server_def srv_ok_next)

lemma offers_quiet:
  assumes "sendable srv" "\<forall>n \<ge> length tr. env n = None"
  shows "\<exists>pkts tr'. offers env n srv tr = (nth_server srv n, tr') \<and> length pkts = n \<and>
    delivered tr' = delivered tr @ pkts \<and> (\<forall>i < n. offer_packet (nth_server srv i) = Inr (pkts ! i))"
  using assms
proof (induction n arbitrary: srv tr)
  case 0
  then show ?case by (simp add: nth_server_def)
next
  case (Suc n)
  obtain pkt tr1 where one: "offer_packet srv = Inr pkt"
      "offer_once env srv tr = (Inr (), next_session srv, tr1)" "length tr \<le> length tr1"
      "delivered tr1 = delivered tr @ [pkt]"
    using offer_once_quiet [OF Suc.prems] by blast
  have later: "\<forall>n \<ge> length tr1. env n = None" using one(3) Suc.prems(2) by simp
  obtain pkts tr' where rest: "offers env n (next_session srv) tr1 = (nth_server (next_session srv) n, tr')"
      "length pkts = n" "delivered tr' = delivered tr1 @ pkts"
      "\<forall>i < n. offer_packet (nth_server (next_session srv) i) = Inr (pkts ! i)"
    using Suc.IH [OF _ later, of "next_session srv"] Suc.prems(1) by auto
  have shift: "nth_server (next_session srv) i = nth_server srv (Suc i)" for i
    by (simp add: nth_server_def funpow_swap1)
  have "\<forall>i < Suc n. offer_packet (nth_server srv i) = Inr ((pkt # pkts) ! i)"
    using rest(4) one(1) shift by (auto simp: less_Suc_eq_0_disj nth_server_def)
  with one rest shift show ?case
    by (intro exI [of _ "pkt # pkts"] exI [of _ tr']) simp
qed

section \<open>The thread system\<close>

text \<open>
  The invariant: only the thread of the handle can be alive, none is while \<open>start\<close> is about
  to create one, the stop event is clear while a server runs and set while \<open>stop\<close> waits.
\<close>

definition sd_ok :: "sd_system \<Rightarrow> bool" where
  "sd_ok s \<longleftrightarrow> srv_ok (server s) \<and>
     (\<forall>i. is_alive s i \<longrightarrow> handle s = Some i) \<and>
     (\<forall>i. handle s = Some i \<longrightarrow> i < length (threads s)) \<and>
     (caller s = Idle \<longrightarrow> (\<forall>i. is_alive s i \<longrightarrow> \<not> stop_set s)) \<and>
     (caller s = Starting \<longrightarrow> \<not> stop_set s \<and> (\<forall>i. \<not> is_alive s i)) \<and>
     (caller s = Stopping \<longrightarrow> stop_set s \<and> handle s \<noteq> None)"

lemma is_alive_simps [simp]:
  "is_alive (s\<lparr>stop_set := b\<rparr>) i = is_alive s i" "is_alive (s\<lparr>handle := h\<rparr>) i = is_alive s i"
  "is_alive (s\<lparr>caller := c\<rparr>) i = is_alive s i" "is_alive (s\<lparr>server := v\<rparr>) i = is_alive s i"
  "is_alive (s\<lparr>io := tr\<rparr>) i = is_alive s i"
  by (simp_all add: is_alive_def)

lemma set_thread_simps [simp]:
  "server (set_thread i ph s) = server s" "stop_set (set_thread i ph s) = stop_set s"
  "handle (set_thread i ph s) = handle s" "caller (set_thread i ph s) = caller s"
  "io (set_thread i ph s) = io s" "threads (set_thread i ph s) = (threads s)[i := ph]"
  by (simp_all add: set_thread_def)

lemma is_alive_set_thread:
  "is_alive (set_thread i ph s) j \<longleftrightarrow>
     (if i = j then i < length (threads s) \<and> ph \<noteq> Dead else is_alive s j)"
  by (cases "i = j") (auto simp: is_alive_def)

lemma sd_okI:
  assumes "srv_ok (server s)" "\<And>i. is_alive s i \<Longrightarrow> handle s = Some i"
    and "\<And>i. handle s = Some i \<Longrightarrow> i < length (threads s)"
    and "\<And>i. caller s = Idle \<Longrightarrow> is_alive s i \<Longrightarrow> \<not> stop_set s"
    and "\<And>i. caller s = Starting \<Longrightarrow> \<not> stop_set s \<and> \<not> is_alive s i"
    and "caller s = Stopping \<Longrightarrow> stop_set s \<and> handle s \<noteq> None"
  shows "sd_ok s"
  using assms unfolding sd_ok_def by blast

lemma sd_okD:
  assumes "sd_ok s"
  shows "srv_ok (server s)" "is_alive s i \<Longrightarrow> handle s = Some i"
    "handle s = Some i \<Longrightarrow> i < length (threads s)"
    "caller s = Idle \<Longrightarrow> is_alive s i \<Longrightarrow> \<not> stop_set s"
    "caller s = Starting \<Longrightarrow> \<not> stop_set s" "caller s = Starting \<Longrightarrow> \<not> is_alive s i"
    "caller s = Stopping \<Longrightarrow> stop_set s" "caller s = Stopping \<Longrightarrow> handle s \<noteq> None"
  using assms unfolding sd_ok_def by blast+

text \<open>A step of a live thread on the state of the others.\<close>

lemma sd_ok_set_thread:
  assumes "sd_ok s" "is_alive s i" "srv_ok srv'"
  shows "sd_ok (set_thread i ph (s\<lparr>server := srv', io := tr'\<rparr>))" (is "sd_ok ?s'")
proof -
  have alive: "is_alive s j" if "is_alive (set_thread i ph (s\<lparr>server := srv', io := tr'\<rparr>)) j" for j
    using that assms(2) by (auto simp: is_alive_set_thread split: if_splits)
  note old = sd_okD [OF assms(1)]
  show ?thesis
  proof (rule sd_okI)
    fix j
    show "is_alive ?s' j \<Longrightarrow> handle ?s' = Some j" using alive old(2) [of j] by simp
    show "handle ?s' = Some j \<Longrightarrow> j < length (threads ?s')" using old(3) [of j] by simp
    show "caller ?s' = Idle \<Longrightarrow> is_alive ?s' j \<Longrightarrow> \<not> stop_set ?s'" using alive old(4) [of j] by simp
    show "caller ?s' = Starting \<Longrightarrow> \<not> stop_set ?s' \<and> \<not> is_alive ?s' j"
      using alive [of j] old(5) old(6) [of j] by auto
    show "caller ?s' = Stopping \<Longrightarrow> stop_set ?s' \<and> handle ?s' \<noteq> None" using old(7,8) by simp
  qed (simp add: assms(3))
qed

lemma sd_ok_init: "srv_ok srv \<Longrightarrow> sd_ok (sd_init srv)"
  by (simp add: sd_ok_def sd_init_def is_alive_def)

inductive_cases sd_stepE: "sd_step env s s'"

lemmas sd_step_cases [consumes 1, case_names start_again start_clear start_spawn start_fails
  stop_unstarted stop_set stop_joined run_test run_offer run_wake] = sd_stepE

lemma sd_ok_spawn:
  assumes "sd_ok s" "caller s = Starting"
  shows "sd_ok (s\<lparr>handle := Some (length (threads s)), threads := threads s @ [ph], caller := Idle\<rparr>)"
    (is "sd_ok ?s'")
proof -
  have alive: "is_alive ?s' i \<Longrightarrow> i = length (threads s)" for i
    using sd_okD(6) [OF assms, of i] by (auto simp: is_alive_def nth_append split: if_splits)
  show ?thesis
  proof (rule sd_okI)
    fix i
    show "is_alive ?s' i \<Longrightarrow> handle ?s' = Some i" using alive [of i] by simp
    show "caller ?s' = Idle \<Longrightarrow> is_alive ?s' i \<Longrightarrow> \<not> stop_set ?s'" using sd_okD(5) [OF assms] by simp
  qed (use sd_okD(1) [OF assms(1)] in simp_all)
qed

lemma sd_ok_step:
  assumes "sd_step env s s'" "sd_ok s"
  shows "sd_ok s'"
  using assms(1)
proof (cases rule: sd_step_cases)
  case start_clear
  then have "\<not> is_alive s i" for i using sd_okD(2) [OF assms(2), of i] by auto
  with start_clear(1) sd_okD(1,3) [OF assms(2)] show ?thesis by (intro sd_okI) simp_all
next
  case start_spawn
  with sd_ok_spawn [OF assms(2)] show ?thesis by simp
next
  case start_fails
  with sd_ok_spawn [OF assms(2)] show ?thesis by simp
next
  case (stop_set i)
  with sd_okD(1,2,3) [OF assms(2)] show ?thesis by (intro sd_okI) simp_all
next
  case (stop_joined i)
  then have "\<not> is_alive s j" for j using sd_okD(2) [OF assms(2), of j] by auto
  with stop_joined(1) sd_okD(1) [OF assms(2)] show ?thesis by (intro sd_okI) simp_all
next
  case (run_test i)
  then have "is_alive s i" "srv_ok (server s)" using sd_okD(1) [OF assms(2)] by (simp_all add: is_alive_def)
  from sd_ok_set_thread [OF assms(2) this, of _ "io s"] run_test(1) show ?thesis by simp
next
  case (run_offer i r srv' tr')
  then have "is_alive s i" "srv_ok srv'"
    using offer_once_ok [OF run_offer(4)] sd_okD(1) [OF assms(2)] by (simp_all add: is_alive_def)
  from sd_ok_set_thread [OF assms(2) this] run_offer(1) show ?thesis by simp
next
  case (run_wake i)
  then have "is_alive s i" "srv_ok (server s)" using sd_okD(1) [OF assms(2)] by (simp_all add: is_alive_def)
  from sd_ok_set_thread [OF assms(2) this, of _ "io s"] run_wake(1) show ?thesis by simp
qed (use assms(2) in simp_all)

lemma sd_ok_reachable: "sd_reachable env srv s \<Longrightarrow> srv_ok srv \<Longrightarrow> sd_ok s"
  by (induction rule: sd_reachable.induct) (auto intro: sd_ok_init sd_ok_step)

lemma srv_ok_new [simp]: "srv_ok (new_sd_server sid iid ip port multicast sd_port period_ms)"
  by (simp add: srv_ok_def new_sd_server_def)

text \<open>The packets of a run: only the first that leaves can carry the reboot flag.\<close>

definition flag_of :: "bytes \<Rightarrow> int option" where
  "flag_of pkt = (case parse_sd pkt of Inr info \<Rightarrow> Some (info_flags info) | Inl _ \<Rightarrow> None)"

definition flags_ok :: "sd_server \<Rightarrow> bytes list \<Rightarrow> bool" where
  "flags_ok srv pkts \<longleftrightarrow>
     (srv_first srv \<longrightarrow> pkts = []) \<and>
     (\<forall>i < length pkts. flag_of (pkts ! i) = Some 0x40 \<or> i = 0 \<and> flag_of (pkts ! i) = Some 0xC0)"

lemma flags_ok_offer:
  assumes "offer_once env srv tr = (r, srv', tr')" "srv_ok srv" "flags_ok srv (delivered tr)"
  shows "flags_ok srv' (delivered tr')"
proof -
  have "\<not> srv_first srv'" using offer_once_ok [OF assms(1,2)] by simp
  from offer_once_delivers [OF assms(1)] show ?thesis
  proof (elim disjE exE conjE)
    assume "delivered tr' = delivered tr"
    with assms(3) \<open>\<not> srv_first srv'\<close> show ?thesis by (simp add: flags_ok_def)
  next
    fix pkt assume pkt: "offer_packet srv = Inr pkt" "delivered tr' = delivered tr @ [pkt]"
    from offer_packet_reads [OF pkt(1) assms(2)]
    have "flag_of pkt = Some (if srv_first srv then 0xC0 else 0x40)" by (auto simp: flag_of_def)
    with assms(3) pkt(2) \<open>\<not> srv_first srv'\<close> show ?thesis
      by (auto simp: flags_ok_def nth_append less_Suc_eq)
  qed
qed

lemma flags_ok_reachable:
  "sd_reachable env srv s \<Longrightarrow> srv_ok srv \<Longrightarrow> flags_ok (server s) (delivered (io s))"
proof (induction rule: sd_reachable.induct)
  case initial
  then show ?case by (simp add: flags_ok_def sd_init_def)
next
  case (stepped s s')
  note IH = stepped.IH [OF stepped.prems] and ok = sd_ok_reachable [OF stepped.hyps(1) stepped.prems]
  from stepped.hyps(2) show ?case
  proof (cases rule: sd_step_cases)
    case (run_offer i r srv' tr')
    with flags_ok_offer [OF run_offer(4)] sd_okD(1) ok IH show ?thesis by simp
  qed (use IH in simp_all)
qed

text \<open>What is left to do for the thread once \<open>stop\<close> has set the event.\<close>

definition remaining :: "sd_system \<Rightarrow> nat" where
  "remaining s = (case handle s of None \<Rightarrow> 0
     | Some i \<Rightarrow> (case threads s ! i of AtOffer \<Rightarrow> 3 | Waiting \<Rightarrow> 2 | AtCheck \<Rightarrow> 1 | Dead \<Rightarrow> 0))"

lemma stopping_step:
  assumes "sd_step env s s'" "sd_ok s" "caller s = Stopping"
  shows "caller s' = Idle \<and> handle s' = None \<and> io s' = io s \<or>
    caller s' = Stopping \<and> remaining s' < remaining s \<and>
      (io s' = io s \<or> remaining s = 3 \<and> (\<exists>pkts. delivered (io s') = delivered (io s) @ pkts \<and> length pkts \<le> 1))"
proof -
  have own: "handle s = Some i" if "i < length (threads s)" "threads s ! i \<noteq> Dead" for i
    using that sd_okD(2) [OF assms(2), of i] by (simp add: is_alive_def)
  have flag: "stop_set s" using sd_okD(7) [OF assms(2,3)] .
  from assms(1) show ?thesis
  proof (cases rule: sd_step_cases)
    case (run_offer i r srv' tr')
    with own [of i] have h: "handle s = Some i" by simp
    have "delivered tr' = delivered (io s) \<or> (\<exists>pkt. delivered tr' = delivered (io s) @ [pkt])"
      using offer_once_delivers [OF run_offer(4)] by blast
    then have "\<exists>pkts. delivered (io s') = delivered (io s) @ pkts \<and> length pkts \<le> 1"
      using run_offer(1) by auto
    moreover have "remaining s = 3" "remaining s' < 3" "caller s' = Stopping"
      using run_offer h assms(3) by (auto simp: remaining_def)
    ultimately show ?thesis by simp
  next
    case (run_test i)
    with own [of i] have h: "handle s = Some i" by simp
    with run_test flag assms(3) show ?thesis by (simp add: remaining_def)
  next
    case (run_wake i)
    with own [of i] have h: "handle s = Some i" by simp
    with run_wake assms(3) show ?thesis by (simp add: remaining_def)
  qed (use assms(3) in simp_all)
qed

lemma stopping_not_stuck:
  assumes "sd_ok s" "caller s = Stopping"
  shows "\<exists>s'. sd_step env s s'"
proof -
  from assms obtain i where i: "handle s = Some i" "i < length (threads s)" by (auto simp: sd_ok_def)
  show ?thesis
  proof (cases "threads s ! i")
    case AtOffer
    obtain r srv' tr' where "offer_once env (server s) (io s) = (r, srv', tr')" by (metis prod.exhaust)
    from sd_step.run_offer [OF i(2) AtOffer this] show ?thesis by blast
  next
    case Dead
    then have "\<not> is_alive s i" by (simp add: is_alive_def)
    from sd_step.stop_joined [OF assms(2) i(1) this] show ?thesis by blast
  qed (use i sd_step.run_test sd_step.run_wake in blast)+
qed

text \<open>The steps taken while the caller is inside \<open>stop\<close>.\<close>

definition within_stop :: "env \<Rightarrow> sd_system \<Rightarrow> sd_system \<Rightarrow> bool" where
  "within_stop env s s' \<longleftrightarrow> caller s = Stopping \<and> sd_step env s s'"

lemma within_stop_run:
  assumes "(within_stop env ^^ n) s s'" "sd_ok s" "caller s = Stopping"
  shows "n \<le> remaining s + 1 \<and> (caller s' = Stopping \<or> caller s' = Idle \<and> handle s' = None) \<and>
    (\<exists>pkts. delivered (io s') = delivered (io s) @ pkts \<and> length pkts \<le> (if remaining s = 3 then 1 else 0))"
  using assms
proof (induction n arbitrary: s)
  case 0
  then show ?case by simp
next
  case (Suc n)
  then obtain t where t: "within_stop env s t" "(within_stop env ^^ n) t s'" by (blast elim: relpowp_Suc_E2)
  then have step: "sd_step env s t" by (simp add: within_stop_def)
  note ok = sd_ok_step [OF step Suc.prems(2)]
  have le3: "remaining s \<le> 3" by (auto simp: remaining_def split: option.split phase.split)
  from stopping_step [OF step Suc.prems(2,3)] show ?case
  proof (elim disjE conjE)
    assume idle: "caller t = Idle" "handle t = None" "io t = io s"
    have "n = 0"
    proof (cases n)
      case (Suc k)
      then obtain u where "within_stop env t u" using t(2) by (blast elim: relpowp_Suc_E2)
      with idle show ?thesis by (simp add: within_stop_def)
    qed simp
    with idle t(2) show ?thesis by simp
  next
    assume go: "caller t = Stopping" "remaining t < remaining s" "io t = io s"
    with Suc.IH [OF t(2) ok] le3 show ?thesis by (auto split: if_splits)
  next
    assume go: "caller t = Stopping" "remaining t < remaining s" "remaining s = 3"
      and sent: "\<exists>pkts. delivered (io t) = delivered (io s) @ pkts \<and> length pkts \<le> 1"
    with Suc.IH [OF t(2) ok] show ?thesis by auto
  qed
qed

section \<open>Properties\<close>

text \<open>
  C25: the periodic offers, as the wire sees them.  When no call fails, \<open>n\<close> calls of a new
  server send \<open>n\<close> packets: the \<open>i\<close>-th is read back with session \<open>i mod 65535 + 1\<close> (from 1 to
  65535, never 0), and with the reboot flag exactly when \<open>i = 0\<close>.
\<close>

theorem sd_server_offers:
  assumes "srv = new_sd_server sid iid ip port multicast sd_port period_ms"
    and "inet_aton ip = Inr a" "0 \<le> sd_port" "sd_port \<le> 65535" "offers (\<lambda>_. None) n srv [] = (srv', tr)"
  shows "length (delivered tr) = n \<and> srv_session srv' = int (n mod 65535) + 1 \<and>
    (\<forall>i < n. \<exists>info. parse_sd (delivered tr ! i) = Inr info \<and>
       info_session_id info = int (i mod 65535) + 1 \<and>
       info_flags info = (if i = 0 then FLAG_REBOOT OR FLAG_UNICAST else FLAG_UNICAST))"
proof -
  have first: "srv_session srv = 1" "srv_first srv" "srv_ok srv" and ready: "sendable srv"
    using assms(1-4) by (simp_all add: new_sd_server_def srv_ok_def sendable_def)
  obtain pkts where pkts: "srv' = nth_server srv n" "length pkts = n" "delivered tr = pkts"
      "\<forall>i < n. offer_packet (nth_server srv i) = Inr (pkts ! i)"
    using offers_quiet [OF ready, of "[]" "\<lambda>_. None" n] assms(5) by auto
  have flags: "(128 :: int) OR 64 = 0xC0" by simp
  have "\<exists>info. parse_sd (pkts ! i) = Inr info \<and> info_session_id info = int (i mod 65535) + 1 \<and>
       info_flags info = (if i = 0 then FLAG_REBOOT OR FLAG_UNICAST else FLAG_UNICAST)" if "i < n" for i
    using offer_packet_reads [OF pkts(4) [rule_format, OF that] nth_server_ok [OF first(3)]]
    by (cases "i = 0") (simp_all add: nth_server_session [OF first(1)] nth_server_first first(2) flags)
  with pkts nth_server_session [OF first(1)] show ?thesis by simp
qed

theorem sd_server_offers_witness:
  "\<exists>srv' tr. offers (\<lambda>_. None) 3 (new_sd_server 0x0100 1 ''10.0.0.1'' 30490 SD_MULTICAST SD_PORT 2000) [] = (srv', tr) \<and>
     length (delivered tr) = 3"
proof -
  let ?srv = "new_sd_server 0x0100 1 ''10.0.0.1'' 30490 SD_MULTICAST SD_PORT 2000"
  obtain srv' tr where run: "offers (\<lambda>_. None) 3 ?srv [] = (srv', tr)" by fastforce
  have "inet_aton ''10.0.0.1'' = Inr [10, 0, 0, 1]" by code_simp
  from sd_server_offers [OF refl this _ _ run] run show ?thesis by simp
qed

text \<open>
  C26: one call, on every branch.  An address \<open>inet_aton\<close> rejects makes the call fail with
  that error, nothing sent and the session kept, but the pending reboot flag is dropped.
  Otherwise the session advances (65535 wraps to 1) and the flag is dropped whether or not the
  packet leaves, at most one packet leaves, and as many sockets are closed as were opened.
\<close>

theorem offer_once_outcome:
  assumes "offer_once env srv tr = (r, srv', tr')"
  shows "case inet_aton (srv_ip srv) of
      Inl e \<Rightarrow> r = Inl e \<and> srv' = srv\<lparr>srv_first := False\<rparr> \<and> tr' = tr
    | Inr _ \<Rightarrow>
        srv' = srv\<lparr>srv_first := False,
                  srv_session := (if srv_session srv + 1 > 0xFFFF then 1 else srv_session srv + 1)\<rparr> \<and>
        (delivered tr' = delivered tr \<or> (\<exists>pkt. delivered tr' = delivered tr @ [pkt])) \<and>
        (r = Inr () \<longrightarrow> delivered tr' \<noteq> delivered tr) \<and>
        sockets_opened tr' + sockets_closed tr = sockets_opened tr + sockets_closed tr'"
proof (cases "offer_packet srv")
  case (Inl e)
  with assms have "inet_aton (srv_ip srv) = Inl e" by (simp add: offer_packet_errors)
  with Inl assms show ?thesis by (simp add: offer_once_eq)
next
  case (Inr pkt)
  then obtain a where a: "inet_aton (srv_ip srv) = Inr a"
    using offer_packet_errors [of srv] by (cases "inet_aton (srv_ip srv)") auto
  obtain r0 tr0 where send: "udp_send env (group srv) pkt tr = (r0, tr0)" by fastforce
  with assms Inr have out: "r = r0" "srv' = next_session srv" "tr' = tr0" by (simp_all add: offer_once_eq)
  have "delivered tr0 = delivered tr @ [pkt]" if "r0 = Inr ()"
    using udp_link.send_returns [OF send [unfolded that]] .
  moreover have "sockets_opened tr0 + sockets_closed tr = sockets_opened tr + sockets_closed tr0"
    using send by (rule udp_send_sockets)
  moreover have "delivered tr0 = delivered tr \<or> (\<exists>pkt. delivered tr0 = delivered tr @ [pkt])"
    using send by (rule udp_link.delivered_at_most_once) auto
  ultimately show ?thesis using a out by (simp add: next_session_def)
qed

theorem offer_once_outcome_witness:
  "\<exists>r srv' tr'. offer_once (\<lambda>_. None) (new_sd_server 1 1 ''bad host'' 1 SD_MULTICAST SD_PORT 2000) [] = (r, srv', tr') \<and>
     r = Inl OSError \<and> \<not> srv_first srv' \<and> tr' = []"
proof -
  let ?srv = "new_sd_server 1 1 ''bad host'' 1 SD_MULTICAST SD_PORT 2000"
  obtain r srv' tr' where run: "offer_once (\<lambda>_. None) ?srv [] = (r, srv', tr')" by (metis prod.exhaust)
  have "inet_aton (srv_ip ?srv) = Inl OSError" by code_simp
  with offer_once_outcome [OF run] run show ?thesis by auto
qed

text \<open>
  A failed first offer loses the reboot flag.  If the first transmission fails and every
  later one works, \<open>n + 1\<close> calls of a new server send \<open>n\<close> packets, the first with session 2,
  and none of them carries the reboot flag.
\<close>

theorem sd_server_loses_reboot_flag:
  assumes "srv = new_sd_server sid iid ip port multicast sd_port period_ms"
    and "inet_aton ip = Inr a" "0 \<le> sd_port" "sd_port \<le> 65535"
    and "offers (\<lambda>i. if i = 1 then Some OSError else None) (Suc n) srv [] = (srv', tr)"
  shows "length (delivered tr) = n \<and>
    (\<forall>i < n. \<exists>info. parse_sd (delivered tr ! i) = Inr info \<and>
       info_session_id info = int (Suc i mod 65535) + 1 \<and> info_flags info = FLAG_UNICAST)"
proof -
  let ?env = "\<lambda>i. if i = 1 then Some OSError else None"
  have first: "srv_session srv = 1" "srv_ok srv" and ready: "sendable srv"
    using assms(1-4) by (simp_all add: new_sd_server_def srv_ok_def sendable_def)
  obtain pkt where pkt: "offer_packet srv = Inr pkt"
    using ready by (cases "offer_packet srv") (auto simp: sendable_def offer_packet_errors)
  let ?tr1 = "[(SocketCreate, True), (SendTo pkt (srv_multicast srv) (srv_sd_port srv), False), (SocketClose, True)]"
  have "offer_once ?env srv [] = (Inl OSError, next_session srv, ?tr1)"
    using pkt ready by (simp add: offer_once_eq udp_send_cases group_def sendto_def perform_def sendable_def)
  with assms(5) have rest: "offers ?env n (next_session srv) ?tr1 = (srv', tr)" by simp
  have quiet: "\<forall>i \<ge> length ?tr1. ?env i = None" by simp
  have shift: "nth_server (next_session srv) i = nth_server srv (Suc i)" for i
    by (simp add: nth_server_def funpow_swap1)
  obtain pkts where pkts: "length pkts = n" "delivered tr = pkts"
      "\<forall>i < n. offer_packet (nth_server srv (Suc i)) = Inr (pkts ! i)"
    using offers_quiet [of "next_session srv" ?tr1 ?env n, OF _ quiet] ready rest shift by auto
  have "\<exists>info. parse_sd (pkts ! i) = Inr info \<and> info_session_id info = int (Suc i mod 65535) + 1 \<and>
       info_flags info = FLAG_UNICAST" if "i < n" for i
    using offer_packet_reads [OF pkts(3) [rule_format, OF that] nth_server_ok [OF first(2)]]
    by (simp add: nth_server_session [OF first(1)] nth_server_first)
  with pkts show ?thesis by simp
qed

theorem sd_server_loses_reboot_flag_witness:
  "\<exists>srv' tr. offers (\<lambda>i. if i = 1 then Some OSError else None) 3
       (new_sd_server 0x0100 1 ''10.0.0.1'' 30490 SD_MULTICAST SD_PORT 2000) [] = (srv', tr) \<and>
     length (delivered tr) = 2"
proof -
  let ?srv = "new_sd_server 0x0100 1 ''10.0.0.1'' 30490 SD_MULTICAST SD_PORT 2000"
    and ?env = "\<lambda>i. if i = 1 then Some OSError else None"
  obtain srv' tr where run: "offers ?env (Suc 2) ?srv [] = (srv', tr)" by fastforce
  have "inet_aton ''10.0.0.1'' = Inr [10, 0, 0, 1]" by code_simp
  from sd_server_loses_reboot_flag [OF refl this _ _ run] run show ?thesis by (simp add: numeral_3_eq_3)
qed

text \<open>
  C27: the threads of a server.  In every reachable state at most one thread is alive, it is
  the one the object holds, and outside \<open>start\<close> and \<open>stop\<close> it is not told to stop; with no
  handle no thread is alive and no step sends; the session stays in 1 to 65535.
\<close>

theorem sd_server_threads:
  assumes "sd_reachable env (new_sd_server sid iid ip port multicast sd_port period_ms) s"
  shows "(\<forall>i j. is_alive s i \<longrightarrow> is_alive s j \<longrightarrow> i = j) \<and>
    (\<forall>i. is_alive s i \<longrightarrow> handle s = Some i \<and> (caller s = Idle \<longrightarrow> \<not> stop_set s)) \<and>
    (\<forall>s'. handle s = None \<longrightarrow> sd_step env s s' \<longrightarrow> io s' = io s) \<and>
    1 \<le> srv_session (server s) \<and> srv_session (server s) \<le> 0xFFFF"
proof -
  from sd_ok_reachable [OF assms] have ok: "sd_ok s" by simp
  note facts = sd_okD [OF ok]
  have "io s' = io s" if "handle s = None" "sd_step env s s'" for s'
    using that(2)
  proof (cases rule: sd_step_cases)
    case (run_offer i)
    then have "is_alive s i" by (simp add: is_alive_def)
    with facts(2) [of i] that(1) show ?thesis by simp
  qed simp_all
  moreover have "i = j" if "is_alive s i" "is_alive s j" for i j
    using facts(2) [OF that(1)] facts(2) [OF that(2)] by simp
  ultimately show ?thesis using facts(1,2,4) by (auto simp: srv_ok_def)
qed

lemma started_state:
  defines "srv \<equiv> new_sd_server 0x0100 1 ''10.0.0.1'' 30490 SD_MULTICAST SD_PORT 2000"
  shows "sd_reachable env srv
    \<lparr>server = srv, stop_set = False, handle = Some 0, threads = [AtCheck], caller = Idle, io = []\<rparr>"
proof -
  have "sd_step env (sd_init srv) ((sd_init srv)\<lparr>stop_set := False, caller := Starting\<rparr>)"
    by (rule sd_step.start_clear) (simp_all add: sd_init_def)
  from sd_reachable.stepped [OF sd_reachable.initial this]
  have r: "sd_reachable env srv ((sd_init srv)\<lparr>stop_set := False, caller := Starting\<rparr>)" .
  have "sd_step env ((sd_init srv)\<lparr>stop_set := False, caller := Starting\<rparr>)
      \<lparr>server = srv, stop_set = False, handle = Some 0, threads = [AtCheck], caller = Idle, io = []\<rparr>"
    using sd_step.start_spawn [of "(sd_init srv)\<lparr>stop_set := False, caller := Starting\<rparr>" env]
    by (simp add: sd_init_def)
  from sd_reachable.stepped [OF r this] show ?thesis .
qed

lemma stopping_state:
  defines "srv \<equiv> new_sd_server 0x0100 1 ''10.0.0.1'' 30490 SD_MULTICAST SD_PORT 2000"
  shows "sd_reachable env srv
    \<lparr>server = srv, stop_set = True, handle = Some 0, threads = [AtCheck], caller = Stopping, io = []\<rparr>"
  using sd_reachable.stepped [OF started_state sd_step.stop_set] by (simp add: srv_def)

theorem sd_server_threads_witness:
  "\<exists>s. sd_reachable (\<lambda>_. None) (new_sd_server 0x0100 1 ''10.0.0.1'' 30490 SD_MULTICAST SD_PORT 2000) s \<and>
     is_alive s 0 \<and> \<not> stop_set s"
proof -
  let ?srv = "new_sd_server 0x0100 1 ''10.0.0.1'' 30490 SD_MULTICAST SD_PORT 2000"
  let ?s = "\<lparr>server = ?srv, stop_set = False, handle = Some 0, threads = [AtCheck], caller = Idle, io = []\<rparr>"
  have alive: "is_alive ?s 0" by (simp add: is_alive_def)
  have "handle ?s = Some 0 \<and> (caller ?s = Idle \<longrightarrow> \<not> stop_set ?s)"
    using sd_server_threads [OF started_state [of "\<lambda>_. None"]] alive by blast
  then have "\<not> stop_set ?s" by simp
  with alive started_state show ?thesis by blast
qed

text \<open>
  C28: \<open>stop\<close> returns.  From any reachable state inside \<open>stop\<close> some step is possible, no run
  stays inside for more than four steps whatever the environment and the interleaving, it
  leaves with the handle cleared, and at most one more offer is sent on the way.
\<close>

theorem sd_server_stop_terminates:
  assumes "sd_reachable env (new_sd_server sid iid ip port multicast sd_port period_ms) s" "caller s = Stopping"
  shows "(\<exists>s'. sd_step env s s') \<and>
    (\<forall>n s'. (within_stop env ^^ n) s s' \<longrightarrow>
       n \<le> 4 \<and> (caller s' = Stopping \<or> caller s' = Idle \<and> handle s' = None) \<and>
       (\<exists>pkts. delivered (io s') = delivered (io s) @ pkts \<and> length pkts \<le> 1))"
proof -
  from sd_ok_reachable [OF assms(1)] have ok: "sd_ok s" by simp
  have "remaining s \<le> 3" by (auto simp: remaining_def split: option.split phase.split)
  then show ?thesis
    using within_stop_run [OF _ ok assms(2)] stopping_not_stuck [OF ok assms(2)]
    by (fastforce split: if_splits)
qed

theorem sd_server_stop_terminates_witness:
  "\<exists>s s'. sd_reachable (\<lambda>_. None) (new_sd_server 0x0100 1 ''10.0.0.1'' 30490 SD_MULTICAST SD_PORT 2000) s \<and>
     caller s = Stopping \<and> sd_step (\<lambda>_. None) s s'"
  using sd_server_stop_terminates [OF stopping_state [of "\<lambda>_. None"]] stopping_state [of "\<lambda>_. None"]
  by fastforce

text \<open>
  The reboot flag in any history.  Whatever fails and however often the server is
  started and stopped, every packet it has sent is an SD message with the unicast flag
  alone, except that the very first one may carry the reboot flag too.
\<close>

theorem sd_server_reboot_flag_once:
  assumes "sd_reachable env (new_sd_server sid iid ip port multicast sd_port period_ms) s"
    and "i < length (delivered (io s))"
  shows "\<exists>info. parse_sd (delivered (io s) ! i) = Inr info \<and>
    (info_flags info = FLAG_UNICAST \<or> i = 0 \<and> info_flags info = FLAG_REBOOT + FLAG_UNICAST)"
proof -
  from flags_ok_reachable [OF assms(1)] assms(2)
  have "flag_of (delivered (io s) ! i) = Some 0x40 \<or> i = 0 \<and> flag_of (delivered (io s) ! i) = Some 0xC0"
    by (simp add: flags_ok_def)
  then show ?thesis by (auto simp: flag_of_def split: sum.splits)
qed

theorem sd_server_reboot_flag_once_witness:
  "\<exists>s info. sd_reachable (\<lambda>_. None) (new_sd_server 0x0100 1 ''10.0.0.1'' 30490 SD_MULTICAST SD_PORT 2000) s \<and>
     0 < length (delivered (io s)) \<and> parse_sd (delivered (io s) ! 0) = Inr info"
proof -
  let ?srv = "new_sd_server 0x0100 1 ''10.0.0.1'' 30490 SD_MULTICAST SD_PORT 2000"
  let ?s = "\<lparr>server = ?srv, stop_set = False, handle = Some 0, threads = [AtCheck], caller = Idle, io = []\<rparr>"
  have "inet_aton ''10.0.0.1'' = Inr [10, 0, 0, 1]" by code_simp
  then have ready: "sendable ?srv" by (simp add: sendable_def new_sd_server_def)
  have "sd_step (\<lambda>_. None) ?s (set_thread 0 AtOffer ?s)"
    using sd_step.run_test [of 0 ?s] by simp
  from sd_reachable.stepped [OF started_state this]
  have r: "sd_reachable (\<lambda>_. None) ?srv (set_thread 0 AtOffer ?s)" .
  obtain pkt tr where send: "offer_once (\<lambda>_. None) ?srv [] = (Inr (), next_session ?srv, tr)" "delivered tr = [pkt]"
    using offer_once_quiet [OF ready, of "[]" "\<lambda>_. None"] by auto
  have "sd_step (\<lambda>_. None) (set_thread 0 AtOffer ?s)
     (set_thread 0 Waiting ((set_thread 0 AtOffer ?s)\<lparr>server := next_session ?srv, io := tr\<rparr>))"
    using sd_step.run_offer [of 0 "set_thread 0 AtOffer ?s" "\<lambda>_. None" "Inr ()" "next_session ?srv" tr] send(1) by simp
  from sd_reachable.stepped [OF r this] sd_server_reboot_flag_once [OF sd_reachable.stepped [OF r this], of 0] send(2)
  show ?thesis by fastforce
qed

end
