(* ===== verification/Sd_Client.thy ===== *)
theory Sd_Client
  imports Sd_Messages Io_World "HOL-Library.AList"
begin

text \<open>
  The discovery client \<open>SdClient\<close> of \<open>mpu/someip/sd.py\<close> (lines 303 to 372).  The socket calls
  go through the environment; the datagrams are given by \<open>recv\<close> (what the \<open>n\<close>-th \<open>recvfrom\<close>
  does) and the time by \<open>clk\<close> (the \<open>n\<close>-th reading of \<open>time.monotonic\<close>, in any unit).  The
  receive loop may run forever if the clock does not advance, so it is a partial function:
  \<open>None\<close> is a loop that does not return.  A Python dict is an association list in insertion
  order, and assignment is \<open>AList.update\<close>.
\<close>

datatype recv_outcome = Datagram bytes | TimedOut | RecvError py_error

record service =
  svc_service_id :: int
  svc_instance_id :: int
  svc_ip :: string
  svc_port :: int

type_synonym results = "((int \<times> int) \<times> service) list"

record sd_client =
  cl_multicast :: string
  cl_sd_port :: int
  cl_timeout :: int

section \<open>One message\<close>

text \<open>The \<open>for opt\<close> loop, which stops at the first IPv4 endpoint.\<close>

fun first_endpoint :: "sd_option list \<Rightarrow> (string \<times> int) option" where
  "first_endpoint [] = None"
| "first_endpoint (opt # opts) =
     (if option_type opt = OPT_IP4_ENDPOINT then
        (case endpoint opt of
           Some (address, l4, port) \<Rightarrow> Some (address, port)
         | None \<Rightarrow> first_endpoint opts)
      else first_endpoint opts)"

text \<open>One pass of the \<open>for entry\<close> loop, its three \<open>continue\<close>s first.\<close>

definition collect_entry :: "int \<Rightarrow> int \<Rightarrow> sd_option list \<Rightarrow> sd_entry \<Rightarrow> results \<Rightarrow> results" where
  "collect_entry find_service_id find_instance_id opts entry results =
     (if entry_type entry \<noteq> ENTRY_OFFER_SERVICE then results
      else if find_service_id \<noteq> 0xFFFF \<and> service_id entry \<noteq> find_service_id then results
      else if find_instance_id \<noteq> 0xFFFF \<and> instance_id entry \<noteq> find_instance_id then results
      else
        (case first_endpoint opts of
           None \<Rightarrow> results
         | Some (address, port) \<Rightarrow>
             AList.update (service_id entry, instance_id entry)
               \<lparr>svc_service_id = service_id entry, svc_instance_id = instance_id entry,
                svc_ip = address, svc_port = port\<rparr> results))"

definition collect :: "int \<Rightarrow> int \<Rightarrow> sd_info \<Rightarrow> results \<Rightarrow> results" where
  "collect find_service_id find_instance_id info results =
     fold (collect_entry find_service_id find_instance_id (info_options info)) (info_entries info) results"

section \<open>The receive loop\<close>

text \<open>
  Pass \<open>n\<close> reads the clock for the \<open>n + 1\<close>-st time after the deadline was taken;
  \<open>recvfrom(4096)\<close> truncates a longer datagram.
\<close>

partial_function (option) discover_loop ::
  "(nat \<Rightarrow> int) \<Rightarrow> (nat \<Rightarrow> recv_outcome) \<Rightarrow> int \<Rightarrow> int \<Rightarrow> int \<Rightarrow> nat \<Rightarrow> results \<Rightarrow> results res option" where
  "discover_loop clk recv find_service_id find_instance_id deadline n results =
     (if deadline - clk (Suc n) \<le> 0 then Some (Inr results)
      else
        (case recv n of
           TimedOut \<Rightarrow> Some (Inr results)
         | RecvError e \<Rightarrow> Some (Inl e)
         | Datagram data \<Rightarrow>
             (case parse_sd (take 4096 data) of
                Inl e \<Rightarrow>
                  if is_value_error e
                  then discover_loop clk recv find_service_id find_instance_id deadline (Suc n) results
                  else Some (Inl e)
              | Inr parsed \<Rightarrow>
                  discover_loop clk recv find_service_id find_instance_id deadline (Suc n)
                    (collect find_service_id find_instance_id parsed results))))"

text \<open>The socket's options, binding, group and request, all inside the \<open>try\<close>.\<close>

definition discover_setup :: "env \<Rightarrow> sd_client \<Rightarrow> bytes \<Rightarrow> trace \<Rightarrow> unit res \<times> trace" where
  "discover_setup env cl packet tr =
     io_bind (perform env SocketSetReuse tr) (\<lambda>_ tr1.
     io_bind (if cl_sd_port cl < 0 \<or> 65535 < cl_sd_port cl then (Inl OverflowError, tr1)
              else perform env (SocketBind (cl_sd_port cl)) tr1) (\<lambda>_ tr2.
     io_bind (io_res (inet_aton (cl_multicast cl)) tr2) (\<lambda>group tr3.
     io_bind (io_res (inet_aton ''0.0.0.0'') tr3) (\<lambda>any tr4.
     io_bind (io_res (struct_pack Big [Chars 4 group, Chars 4 any]) tr4) (\<lambda>mreq tr5.
     io_bind (perform env (SocketJoin (cl_multicast cl)) tr5) (\<lambda>_ tr6.
       sendto env packet (cl_multicast cl) (cl_sd_port cl) tr6))))))"

definition discover ::
  "env \<Rightarrow> (nat \<Rightarrow> int) \<Rightarrow> (nat \<Rightarrow> recv_outcome) \<Rightarrow> sd_client \<Rightarrow> int option \<Rightarrow> int option \<Rightarrow> int option \<Rightarrow>
   trace \<Rightarrow> (service list res \<times> trace) option" where
  "discover env clk recv cl sid iid timeout tr =
     (let timeout_s = (case timeout of None \<Rightarrow> cl_timeout cl | Some t \<Rightarrow> t);
          find_service_id = (case sid of Some i \<Rightarrow> i | None \<Rightarrow> 0xFFFF);
          find_instance_id = (case iid of Some i \<Rightarrow> i | None \<Rightarrow> 0xFFFF)
      in
      case build_find_service find_service_id find_instance_id 1 TTL_DEFAULT FLAG_UNICAST of
        Inl e \<Rightarrow> Some (Inl e, tr)
      | Inr packet \<Rightarrow>
          (case perform env SocketCreate tr of
             (Inl e, tr1) \<Rightarrow> Some (Inl e, tr1)
           | (Inr _, tr1) \<Rightarrow>
               (case discover_setup env cl packet tr1 of
                  (Inl e, tr2) \<Rightarrow> Some (io_finally (Inl e, tr2) (perform env SocketClose))
                | (Inr _, tr2) \<Rightarrow>
                    map_option (\<lambda>out. io_finally (case out of Inl e \<Rightarrow> Inl e | Inr results \<Rightarrow> Inr (map snd results), tr2)
                                        (perform env SocketClose))
                      (discover_loop clk recv find_service_id find_instance_id (clk 0 + timeout_s) 0 []))))"

section \<open>What a message announces\<close>

text \<open>The specification: the matching offers of a message, each with the first endpoint.\<close>

definition wanted :: "int \<Rightarrow> int \<Rightarrow> sd_entry \<Rightarrow> bool" where
  "wanted fs fi e \<longleftrightarrow> entry_type e = ENTRY_OFFER_SERVICE \<and>
     (fs = 0xFFFF \<or> service_id e = fs) \<and> (fi = 0xFFFF \<or> instance_id e = fi)"

definition announces :: "int \<Rightarrow> int \<Rightarrow> sd_info \<Rightarrow> results" where
  "announces fs fi info =
     (case first_endpoint (info_options info) of
        None \<Rightarrow> []
      | Some (address, port) \<Rightarrow>
          map (\<lambda>e. ((service_id e, instance_id e),
                    \<lparr>svc_service_id = service_id e, svc_instance_id = instance_id e,
                     svc_ip = address, svc_port = port\<rparr>))
            (filter (wanted fs fi) (info_entries info)))"

text \<open>What a datagram announces; an invalid one, nothing.\<close>

definition heard :: "int \<Rightarrow> int \<Rightarrow> bytes \<Rightarrow> results" where
  "heard fs fi data = (case parse_sd (take 4096 data) of Inl e \<Rightarrow> [] | Inr info \<Rightarrow> announces fs fi info)"

abbreviation assign :: "results \<Rightarrow> results \<Rightarrow> results" where
  "assign kvs \<equiv> fold (\<lambda>(k, v). AList.update k v) kvs"

lemma collect_entry_eq:
  "collect_entry fs fi opts e r =
     (case first_endpoint opts of
        Some (address, port) \<Rightarrow> if wanted fs fi e then AList.update (service_id e, instance_id e)
               \<lparr>svc_service_id = service_id e, svc_instance_id = instance_id e,
                svc_ip = address, svc_port = port\<rparr> r else r
      | None \<Rightarrow> r)"
  by (auto simp: collect_entry_def wanted_def split: option.split)

lemma collect_eq: "collect fs fi info r = assign (announces fs fi info) r"
proof -
  have "fold (collect_entry fs fi (info_options info)) es r =
      assign (case first_endpoint (info_options info) of None \<Rightarrow> []
        | Some (address, port) \<Rightarrow>
          map (\<lambda>e. ((service_id e, instance_id e),
                    \<lparr>svc_service_id = service_id e, svc_instance_id = instance_id e,
                     svc_ip = address, svc_port = port\<rparr>)) (filter (wanted fs fi) es)) r" for es
    by (induction es arbitrary: r) (auto simp: collect_entry_eq split: option.split)
  then show ?thesis by (simp add: collect_def announces_def)
qed

lemma assign_map_of: "map_of (assign kvs r) = map_of r ++ map_of (rev kvs)"
  by (induction kvs arbitrary: r)
    (auto simp: update_conv' map_add_def fun_eq_iff split: option.split)

lemma assign_distinct: "distinct (map fst r) \<Longrightarrow> distinct (map fst (assign kvs r))"
  by (induction kvs arbitrary: r) (auto intro: distinct_update)

lemma assign_keyed:
  assumes "\<forall>(k, v) \<in> set r. k = (svc_service_id v, svc_instance_id v)"
    and "\<forall>(k, v) \<in> set kvs. k = (svc_service_id v, svc_instance_id v)"
  shows "\<forall>(k, v) \<in> set (assign kvs r). k = (svc_service_id v, svc_instance_id v)"
using assms
proof (induction kvs arbitrary: r)
  case (Cons kv kvs)
  have "set (AList.update (fst kv) (snd kv) r) \<subseteq> insert (fst kv, snd kv) (set r)"
    by (induction r) auto
  with Cons.prems have "\<forall>(k, v) \<in> set (AList.update (fst kv) (snd kv) r). k = (svc_service_id v, svc_instance_id v)"
    by fastforce
  from Cons.IH [OF this] Cons.prems(2) show ?case by (simp add: split_beta)
qed simp

lemma announces_keyed: "\<forall>(k, v) \<in> set (announces fs fi info). k = (svc_service_id v, svc_instance_id v)"
  by (auto simp: announces_def split: option.splits)

section \<open>What the loop returns\<close>

text \<open>A run that ends normally has read some datagrams, none of which made the parser crash.\<close>

inductive hears :: "(nat \<Rightarrow> recv_outcome) \<Rightarrow> nat \<Rightarrow> bytes list \<Rightarrow> bool" for recv where
  hears_none: "hears recv n []"
| hears_more: "recv n = Datagram d \<Longrightarrow> hears recv (Suc n) ds \<Longrightarrow> hears recv n (d # ds)"

lemmas discover_loop_induct [consumes 1, case_names pass] = discover_loop.raw_induct [rotated]

text \<open>
  How a run can end that has read \<open>ds\<close>: with what they announce, or with an error of the socket
  or of the parser that is not a ValueError.
\<close>

definition ends_after :: "(nat \<Rightarrow> recv_outcome) \<Rightarrow> int \<Rightarrow> int \<Rightarrow> nat \<Rightarrow>
    results \<Rightarrow> results res \<Rightarrow> bytes list \<Rightarrow> bool" where
  "ends_after recv fs fi n r out ds \<longleftrightarrow> hears recv n ds \<and>
     (out = Inr (assign (concat (map (heard fs fi) ds)) r) \<or>
      (\<exists>e. out = Inl e \<and> (recv (n + length ds) = RecvError e \<or>
         (\<exists>d. recv (n + length ds) = Datagram d \<and> parse_sd (take 4096 d) = Inl e \<and> \<not> is_value_error e))))"

lemma ends_after_more:
  "recv n = Datagram d \<Longrightarrow> ends_after recv fs fi (Suc n) (assign (heard fs fi d) r) out ds \<Longrightarrow>
   ends_after recv fs fi n r out (d # ds)"
  by (auto simp: ends_after_def intro: hears_more)

lemma ends_after_error:
  "recv n = RecvError e \<or> (\<exists>d. recv n = Datagram d \<and> parse_sd (take 4096 d) = Inl e \<and> \<not> is_value_error e) \<Longrightarrow>
   ends_after recv fs fi n r (Inl e) []"
  by (auto simp: ends_after_def intro: hears_none)

lemma discover_loop_ends:
  assumes "discover_loop clk recv fs fi deadline n r = Some out"
  shows "\<exists>ds. ends_after recv fs fi n r out ds"
  using assms
proof (induction clk recv fs fi deadline n r out rule: discover_loop_induct)
  case (pass loop clk recv fs fi deadline n r out)
  note step = pass(2) and IH = pass(1)
  show ?case
  proof (cases "\<exists>d. 0 < deadline - clk (Suc n) \<and> recv n = Datagram d")
    case False
    then have "out = Inr r \<or> (\<exists>e. out = Inl e \<and> recv n = RecvError e)"
      using step by (cases "recv n") (auto split: if_splits)
    then show ?thesis
      by (intro exI [of _ "[]"]) (auto simp: ends_after_def intro: hears_none)
  next
    case True
    then obtain d where d: "0 < deadline - clk (Suc n)" "recv n = Datagram d" by blast
    consider (more) "loop clk recv fs fi deadline (Suc n) (assign (heard fs fi d) r) = Some out"
      | (crash) e where "out = Inl e" "parse_sd (take 4096 d) = Inl e" "\<not> is_value_error e"
      using step d by (cases "parse_sd (take 4096 d)") (auto simp: heard_def collect_eq split: if_splits)
    then show ?thesis
    proof cases
      case more
      from IH [OF more] ends_after_more [of recv, OF d(2)] show ?thesis by blast
    next
      case crash
      with d(2) ends_after_error show ?thesis by blast
    qed
  qed
qed

text \<open>A clock that reaches the deadline ends the loop, whatever is received.\<close>

lemma discover_loop_returns:
  assumes "deadline \<le> clk (Suc k)" "n \<le> k"
  shows "\<exists>out. discover_loop clk recv fs fi deadline n r = Some out"
  using assms(2)
proof (induction "k - n" arbitrary: n r)
  case 0
  then have "n = k" by simp
  with assms(1) show ?case by (subst discover_loop.simps) simp
next
  case (Suc m)
  then have "m = k - Suc n" "Suc n \<le> k" by simp_all
  note rest = Suc.hyps(1) [OF this]
  show ?case
    by (subst discover_loop.simps) (auto simp: rest split: recv_outcome.split sum.split)
qed

section \<open>What discover returns\<close>

abbreviation or_any :: "int option \<Rightarrow> int" where
  "or_any i \<equiv> (case i of Some v \<Rightarrow> v | None \<Rightarrow> 0xFFFF)"

definition deadline_of :: "sd_client \<Rightarrow> int option \<Rightarrow> (nat \<Rightarrow> int) \<Rightarrow> int" where
  "deadline_of cl timeout clk = clk 0 + (case timeout of None \<Rightarrow> cl_timeout cl | Some t \<Rightarrow> t)"

lemma build_find_total: "\<exists>pkt. build_find_service sid iid s t f = Inr pkt"
  by (simp add: build_find_service_def build_service_entry_eq build_sd_message_eq)

text \<open>The calls before the loop leave the balance of sockets alone.\<close>

lemma discover_setup_sockets:
  "discover_setup env cl pkt tr = (r, tr') \<Longrightarrow>
   sockets_opened tr' = sockets_opened tr \<and> sockets_closed tr' = sockets_closed tr"
  by (auto simp: discover_setup_def io_bind_def io_res_def sendto_def perform_def
      split: option.splits sum.splits if_splits)

lemma discover_body:
  obtains (unsent) e tr1 where "discover env clk recv cl sid iid timeout tr = Some (Inl e, tr1)"
      "sockets_opened tr1 = sockets_opened tr" "sockets_closed tr1 = sockets_closed tr"
  | (failed) e tr2 where "sockets_opened tr2 = Suc (sockets_opened tr)" "sockets_closed tr2 = sockets_closed tr"
      "discover env clk recv cl sid iid timeout tr = Some (io_finally (Inl e, tr2) (perform env SocketClose))"
  | (looped) tr2 where "sockets_opened tr2 = Suc (sockets_opened tr)" "sockets_closed tr2 = sockets_closed tr"
      "discover env clk recv cl sid iid timeout tr =
         map_option (\<lambda>out. io_finally (case out of Inl e \<Rightarrow> Inl e | Inr results \<Rightarrow> Inr (map snd results), tr2)
                             (perform env SocketClose))
           (discover_loop clk recv (or_any sid) (or_any iid) (deadline_of cl timeout clk) 0 [])"
proof -
  obtain pkt where pkt: "build_find_service (or_any sid) (or_any iid) 1 TTL_DEFAULT FLAG_UNICAST = Inr pkt"
    using build_find_total by blast
  show thesis
  proof (cases rule: perform_cases [of env SocketCreate tr])
    case (2 e)
    with unsent pkt show thesis by (simp add: discover_def Let_def)
  next
    case 1
    let ?tr1 = "tr @ [(SocketCreate, True)]"
    obtain r tr2 where set_up: "discover_setup env cl pkt ?tr1 = (r, tr2)" by fastforce
    note bal = discover_setup_sockets [OF set_up]
    show thesis
    proof (cases r)
      case (Inl e)
      have "discover env clk recv cl sid iid timeout tr = Some (io_finally (Inl e, tr2) (perform env SocketClose))"
        using Inl pkt 1 set_up by (simp add: discover_def Let_def)
      then show thesis using bal by (intro failed [of tr2 e]) auto
    next
      case (Inr u)
      have "discover env clk recv cl sid iid timeout tr =
         map_option (\<lambda>out. io_finally (case out of Inl e \<Rightarrow> Inl e | Inr results \<Rightarrow> Inr (map snd results), tr2)
                             (perform env SocketClose))
           (discover_loop clk recv (or_any sid) (or_any iid) (deadline_of cl timeout clk) 0 [])"
        using Inr pkt 1 set_up by (simp add: discover_def Let_def deadline_of_def)
      then show thesis using bal by (intro looped [of tr2]) auto
    qed
  qed
qed

lemma io_finally_Inr:
  "io_finally (r, tr) (perform env op) = (Inr x, tr') \<Longrightarrow> r = Inr x"
  by (auto simp: io_finally_def perform_def split: option.splits)

lemma io_finally_trace:
  "io_finally (r, tr) (perform env op) = (r', tr') \<Longrightarrow> \<exists>b. tr' = tr @ [(op, b)]"
  by (auto simp: io_finally_def perform_def split: option.splits)

text \<open>With nothing failing, the outcome is that of the loop.\<close>

definition reachable_group :: "sd_client \<Rightarrow> bool" where
  "reachable_group cl \<longleftrightarrow> (\<exists>a. inet_aton (cl_multicast cl) = Inr a) \<and> 0 \<le> cl_sd_port cl \<and> cl_sd_port cl \<le> 65535"

lemma any_address: "inet_aton ''0.0.0.0'' = Inr [0, 0, 0, 0]"
  by code_simp

lemma discover_quiet:
  assumes "reachable_group cl"
  shows "\<exists>tr'. discover (\<lambda>_. None) clk recv cl sid iid timeout tr =
    map_option (\<lambda>out. (case out of Inl e \<Rightarrow> Inl e | Inr results \<Rightarrow> Inr (map snd results), tr'))
      (discover_loop clk recv (or_any sid) (or_any iid) (deadline_of cl timeout clk) 0 [])"
proof -
  obtain pkt where pkt: "build_find_service (or_any sid) (or_any iid) 1 TTL_DEFAULT FLAG_UNICAST = Inr pkt"
    using build_find_total by blast
  have "\<exists>tr2. discover_setup (\<lambda>_. None) cl pkt tr1 = (Inr (), tr2)" for tr1
    using assms any_address by (auto simp: discover_setup_def io_defs reachable_group_def)
  then obtain tr2 where "discover_setup (\<lambda>_. None) cl pkt (tr @ [(SocketCreate, True)]) = (Inr (), tr2)" by blast
  with pkt show ?thesis
    by (intro exI [of _ "tr2 @ [(SocketClose, True)]"])
      (simp add: discover_def Let_def deadline_of_def perform_def io_finally_def)
qed

text \<open>Results in their final form: keys distinct, each the identifiers of its service.\<close>

lemma assigned_services:
  assumes "\<forall>kvs \<in> set anns. \<exists>info. kvs = announces fs fi info \<or> kvs = []"
  defines "res \<equiv> assign (concat anns) []"
  shows "distinct (map (\<lambda>v. (svc_service_id v, svc_instance_id v)) (map snd res)) \<and>
    set (map snd res) = ran (map_of (rev (concat anns)))"
proof -
  have "\<forall>(k, v) \<in> set (concat anns). k = (svc_service_id v, svc_instance_id v)"
    using assms(1) announces_keyed by fastforce
  then have keyed: "\<forall>(k, v) \<in> set res. k = (svc_service_id v, svc_instance_id v)"
    unfolding res_def by (intro assign_keyed) simp_all
  have keys: "map (\<lambda>v. (svc_service_id v, svc_instance_id v)) (map snd res) = map fst res"
    using keyed by auto
  have dist: "distinct (map fst res)" unfolding res_def by (rule assign_distinct) simp
  have "map_of res = map_of (rev (concat anns))" by (simp add: res_def assign_map_of)
  with ran_distinct [OF dist] have "set (map snd res) = ran (map_of (rev (concat anns)))" by simp
  with keys dist show ?thesis by (simp only: keys)
qed

lemma discover_result:
  assumes "discover env clk recv cl sid iid timeout tr = Some (Inr svcs, tr')"
  shows "\<exists>ds. hears recv 0 ds \<and> svcs = map snd (assign (concat (map (heard (or_any sid) (or_any iid)) ds)) [])"
proof (cases rule: discover_body [of env clk recv cl sid iid timeout tr])
  case (looped tr2)
  then obtain out where out:
    "discover_loop clk recv (or_any sid) (or_any iid) (deadline_of cl timeout clk) 0 [] = Some out"
    "io_finally (case out of Inl e \<Rightarrow> Inl e | Inr results \<Rightarrow> Inr (map snd results), tr2)
       (perform env SocketClose) = (Inr svcs, tr')"
    using assms by (cases "discover_loop clk recv (or_any sid) (or_any iid) (deadline_of cl timeout clk) 0 []") auto
  obtain results where "out = Inr results" "svcs = map snd results"
    using io_finally_Inr [OF out(2)] by (cases out) auto
  with out(1)
  have "discover_loop clk recv (or_any sid) (or_any iid) (deadline_of cl timeout clk) 0 [] = Some (Inr results)"
    "svcs = map snd results" by simp_all
  with discover_loop_ends [unfolded ends_after_def] show ?thesis by blast
next
  case (failed e tr2)
  with assms have "io_finally (Inl e :: service list res, tr2) (perform env SocketClose) = (Inr svcs, tr')" by simp
  from io_finally_Inr [OF this] show ?thesis by simp
qed (use assms in simp_all)

lemma heard_cases: "\<exists>info. heard fs fi d = announces fs fi info \<or> heard fs fi d = []"
  by (auto simp: heard_def split: sum.split)

text \<open>The receive loop on a given beginning of the datagrams.\<close>

lemma discover_loop_read:
  assumes "0 < deadline - clk (Suc n)" "recv n = Datagram d" "length d \<le> 4096"
  shows "discover_loop clk recv fs fi deadline n r =
    (case parse_sd d of
       Inl e \<Rightarrow> if is_value_error e then discover_loop clk recv fs fi deadline (Suc n) r else Some (Inl e)
     | Inr info \<Rightarrow> discover_loop clk recv fs fi deadline (Suc n) (assign (announces fs fi info) r))"
  using assms by (subst discover_loop.simps) (simp add: collect_eq split: sum.split)

lemma discover_loop_timeout:
  assumes "recv n = TimedOut"
  shows "discover_loop clk recv fs fi deadline n r = Some (Inr r)"
  using assms by (subst discover_loop.simps) simp

lemma offer_announces:
  assumes "build_offer_service sid iid ip port s t minor f = Inr pkt"
    and "sd = None \<or> sd = Some (sid mod 65536)" "inst = None \<or> inst = Some (iid mod 65536)"
  shows "\<exists>info ip'. length pkt = 56 \<and> parse_sd pkt = Inr info \<and> inet_aton ip' = inet_aton ip \<and>
    announces (or_any sd) (or_any inst) info =
      [((sid mod 65536, iid mod 65536), \<lparr>svc_service_id = sid mod 65536, svc_instance_id = iid mod 65536,
         svc_ip = ip', svc_port = port mod 65536\<rparr>)]"
proof -
  have "length pkt = 56" using offer_length [OF assms(1)] .
  moreover obtain ip' where "inet_aton ip' = inet_aton ip" and "parse_sd pkt =
       Inr \<lparr>info_session_id = s mod 65536, info_flags = f mod 256,
         info_entries = [\<lparr>entry_type = ENTRY_OFFER_SERVICE, service_id = sid mod 65536, instance_id = iid mod 65536,
            major_version = 1, ttl = t mod 16777216, minor_version = Some (minor mod 4294967296), eventgroup_id = None\<rparr>],
         info_options = [\<lparr>option_type = OPT_IP4_ENDPOINT, endpoint = Some (ip', L4_UDP, port mod 65536)\<rparr>]\<rparr>"
    using parse_sd_offer [where sid = sid and iid = iid and ip = ip and port = port and s = s and t = t
      and minor = minor and f = f] assms(1) by auto
  ultimately show ?thesis
    using assms(2,3) by (auto simp: announces_def wanted_def)
qed

lemma stop_announces:
  assumes "build_stop_offer_service sid iid s = Inr pkt"
  shows "\<exists>info. length pkt = 44 \<and> parse_sd pkt = Inr info \<and> announces fs fi info = []"
proof -
  let ?e = "entry_head 1 sid iid 1 0 0 0 0 @ be_bytes 3 0 @ be_bytes 4 0"
  have built: "build_sd_message ?e [] s FLAG_UNICAST = Inr pkt"
    using assms by (simp add: build_stop_offer_service_def build_service_entry_eq)
  have "length ?e = 16" by simp
  with parse_sd_built [OF built] length_build_sd_message [OF built] show ?thesis
    by (simp add: announces_def)
qed

lemma hears_datagram: "hears recv n ds \<Longrightarrow> d \<in> set ds \<Longrightarrow> \<exists>i. recv i = Datagram d"
  by (induction rule: hears.induct) auto

text \<open>An offer that is heard before the time is over is reported.\<close>

lemma discover_hears_offer:
  assumes "reachable_group cl" "clk 1 < deadline_of cl timeout clk"
    and "build_offer_service sid iid ip port s t minor f = Inr offer"
    and "sd = None \<or> sd = Some (sid mod 65536)" "inst = None \<or> inst = Some (iid mod 65536)"
    and "recv 0 = Datagram offer" "recv 1 = TimedOut"
  shows "\<exists>ip' tr'. inet_aton ip' = inet_aton ip \<and>
    discover (\<lambda>_. None) clk recv cl sd inst timeout tr =
      Some (Inr [\<lparr>svc_service_id = sid mod 65536, svc_instance_id = iid mod 65536, svc_ip = ip',
                 svc_port = port mod 65536\<rparr>], tr')"
proof -
  let ?d = "deadline_of cl timeout clk"
  obtain info ip' where offer: "length offer = 56" "parse_sd offer = Inr info" "inet_aton ip' = inet_aton ip"
    "announces (or_any sd) (or_any inst) info =
      [((sid mod 65536, iid mod 65536), \<lparr>svc_service_id = sid mod 65536, svc_instance_id = iid mod 65536,
         svc_ip = ip', svc_port = port mod 65536\<rparr>)]"
    using offer_announces [OF assms(3-5)] by auto
  have "discover_loop clk recv (or_any sd) (or_any inst) ?d 0 [] =
      Some (Inr (announces (or_any sd) (or_any inst) info))"
    using discover_loop_read [of ?d clk 0 recv offer] discover_loop_timeout [of recv 1, OF assms(7)]
      assms(2,6) offer by simp
  with discover_quiet [OF assms(1), of clk recv sd inst timeout tr] offer(3,4) show ?thesis by auto
qed

lemma default_client: "reachable_group \<lparr>cl_multicast = SD_MULTICAST, cl_sd_port = SD_PORT, cl_timeout = 2\<rparr>"
proof -
  have "inet_aton SD_MULTICAST = Inr [224, 224, 224, 245]" by code_simp
  then show ?thesis by (simp add: reachable_group_def)
qed

text \<open>A concrete search, for the witnesses below.\<close>

lemma sample_search:
  defines "cl \<equiv> \<lparr>cl_multicast = SD_MULTICAST, cl_sd_port = SD_PORT, cl_timeout = 2\<rparr>"
  shows "\<exists>offer ip' tr'. build_offer_service 0x0100 1 ''10.0.0.1'' 30490 1 TTL_DEFAULT 0 0x40 = Inr offer \<and>
    discover (\<lambda>_. None) (\<lambda>_. 0) (\<lambda>n. if n = 0 then Datagram offer else TimedOut) cl (Some 0x0100) None None [] =
      Some (Inr [\<lparr>svc_service_id = 0x0100, svc_instance_id = 1, svc_ip = ip', svc_port = 30490\<rparr>], tr')"
proof -
  have "inet_aton ''10.0.0.1'' = Inr [10, 0, 0, 1]" by code_simp
  then obtain offer where offer: "build_offer_service 0x0100 1 ''10.0.0.1'' 30490 1 TTL_DEFAULT 0 0x40 = Inr offer"
    by (simp add: build_offer_service_def build_service_entry_eq build_ipv4_endpoint_option_eq
        build_sd_message_eq endpoint_option_def)
  have group: "reachable_group cl" unfolding cl_def by (rule default_client)
  have time: "0 < deadline_of cl None (\<lambda>_. 0)" by (simp add: deadline_of_def cl_def)
  from discover_hears_offer [OF group _ offer, of "\<lambda>_. 0" None "Some 0x0100" None
      "\<lambda>n. if n = 0 then Datagram offer else TimedOut" "[]"] time offer
  show ?thesis by auto
qed

section \<open>Properties\<close>



text \<open>
  C30: soundness, datagram by datagram.  Every service returned was announced by an
  OfferService entry of a received, well-formed SD message, matches the identifiers asked
  for, and carries the address of that message's first IPv4 endpoint option.
\<close>

theorem discover_sound:
  assumes "discover env clk recv cl sid iid timeout tr = Some (Inr svcs, tr')" "v \<in> set svcs"
  shows "\<exists>n d info e. recv n = Datagram d \<and> parse_sd (take 4096 d) = Inr info \<and> e \<in> set (info_entries info) \<and>
    entry_type e = ENTRY_OFFER_SERVICE \<and> svc_service_id v = service_id e \<and> svc_instance_id v = instance_id e \<and>
    first_endpoint (info_options info) = Some (svc_ip v, svc_port v) \<and>
    sid \<in> {None, Some 0xFFFF, Some (svc_service_id v)} \<and> iid \<in> {None, Some 0xFFFF, Some (svc_instance_id v)}"
proof -
  obtain ds where ds: "hears recv 0 ds"
    "svcs = map snd (assign (concat (map (heard (or_any sid) (or_any iid)) ds)) [])"
    using discover_result [OF assms(1)] by blast
  let ?anns = "map (heard (or_any sid) (or_any iid)) ds"
  have "\<forall>kvs \<in> set ?anns. \<exists>info. kvs = announces (or_any sid) (or_any iid) info \<or> kvs = []"
    using heard_cases by auto
  from assigned_services [OF this] ds(2) assms(2) have "v \<in> ran (map_of (rev (concat ?anns)))" by simp
  then obtain k where "(k, v) \<in> set (concat ?anns)" by (auto simp: ran_def dest: map_of_SomeD)
  then obtain d where d: "d \<in> set ds" "(k, v) \<in> set (heard (or_any sid) (or_any iid) d)" by auto
  obtain n where n: "recv n = Datagram d" using hears_datagram [OF ds(1) d(1)] by blast
  obtain info where info: "parse_sd (take 4096 d) = Inr info"
    using d(2) by (cases "parse_sd (take 4096 d)") (auto simp: heard_def)
  with d(2) have "(k, v) \<in> set (announces (or_any sid) (or_any iid) info)" by (simp add: heard_def)
  then obtain e where e: "e \<in> set (info_entries info)" "wanted (or_any sid) (or_any iid) e"
      "svc_service_id v = service_id e" "svc_instance_id v = instance_id e"
      "first_endpoint (info_options info) = Some (svc_ip v, svc_port v)"
    by (auto simp: announces_def split: option.splits)
  then have "entry_type e = ENTRY_OFFER_SERVICE" "sid \<in> {None, Some 0xFFFF, Some (svc_service_id v)}"
      "iid \<in> {None, Some 0xFFFF, Some (svc_instance_id v)}"
    by (auto simp: wanted_def split: option.splits)
  with n info e show ?thesis by blast
qed

theorem discover_sound_witness:
  "\<exists>recv v tr' d n info. discover (\<lambda>_. None) (\<lambda>_. 0) recv \<lparr>cl_multicast = SD_MULTICAST, cl_sd_port = SD_PORT, cl_timeout = 2\<rparr>
     (Some 0x0100) None None [] = Some (Inr [v], tr') \<and> recv n = Datagram d \<and> parse_sd (take 4096 d) = Inr info \<and>
     first_endpoint (info_options info) = Some (svc_ip v, svc_port v)"
proof -
  obtain offer ip' tr' where run: "discover (\<lambda>_. None) (\<lambda>_. 0) (\<lambda>n. if n = 0 then Datagram offer else TimedOut)
     \<lparr>cl_multicast = SD_MULTICAST, cl_sd_port = SD_PORT, cl_timeout = 2\<rparr> (Some 0x0100) None None [] =
      Some (Inr [\<lparr>svc_service_id = 0x0100, svc_instance_id = 1, svc_ip = ip', svc_port = 30490\<rparr>], tr')"
    using sample_search by blast
  from discover_sound [OF run] run show ?thesis by fastforce
qed

text \<open>
  C31: discover ends.  If the clock ever reaches the deadline, the call returns a value or
  an exception, however many datagrams arrive and whatever they hold; and in every run that
  returns, the socket it opened has been closed.
\<close>

theorem discover_returns:
  assumes "deadline_of cl timeout clk \<le> clk (Suc k)"
  shows "\<exists>r tr'. discover env clk recv cl sid iid timeout tr = Some (r, tr') \<and>
    sockets_opened tr' + sockets_closed tr = sockets_opened tr + sockets_closed tr'"
proof (cases rule: discover_body [of env clk recv cl sid iid timeout tr])
  case (unsent e tr1)
  then show ?thesis by simp
next
  case (failed e tr2)
  obtain r' tr' where out: "io_finally (Inl e :: service list res, tr2) (perform env SocketClose) = (r', tr')"
    by fastforce
  with failed io_finally_trace [OF out] show ?thesis by auto
next
  case (looped tr2)
  obtain out where out: "discover_loop clk recv (or_any sid) (or_any iid) (deadline_of cl timeout clk) 0 [] = Some out"
    using discover_loop_returns [of "deadline_of cl timeout clk" clk k 0] assms by blast
  obtain r' tr' where fin: "io_finally (case out of Inl e \<Rightarrow> Inl e | Inr results \<Rightarrow> Inr (map snd results), tr2)
      (perform env SocketClose) = (r', tr')" by fastforce
  with looped out io_finally_trace [OF fin] show ?thesis by auto
qed

theorem discover_returns_witness:
  "\<exists>r tr'. discover (\<lambda>_. None) (\<lambda>n. int n) (\<lambda>_. Datagram [])
     \<lparr>cl_multicast = SD_MULTICAST, cl_sd_port = SD_PORT, cl_timeout = 2\<rparr> None None None [] = Some (r, tr')"
  using discover_returns [of "\<lparr>cl_multicast = SD_MULTICAST, cl_sd_port = SD_PORT, cl_timeout = 2\<rparr>" None "\<lambda>n. int n" 1
      "\<lambda>_. None" "\<lambda>_. Datagram []" None None "[]"]
  by (auto simp: deadline_of_def)

text \<open>
  One 16-byte datagram ends the search.  With every call working, if the first datagram
  is exactly a SOME/IP header with the SD identifiers, discover raises IndexError and every
  result is lost.
\<close>

theorem discover_crashes_on_bare_header:
  assumes "reachable_group cl" "clk 1 < deadline_of cl timeout clk"
    and "recv 0 = Datagram d" "length d = 16" "sd_header_ok d"
  shows "\<exists>tr'. discover (\<lambda>_. None) clk recv cl sid iid timeout tr = Some (Inl IndexError, tr')"
proof -
  have "parse_sd d = Inl IndexError" using assms(4,5) by (simp add: parse_sd_body py_index_def)
  then have "discover_loop clk recv (or_any sid) (or_any iid) (deadline_of cl timeout clk) 0 [] = Some (Inl IndexError)"
    using discover_loop_read [of "deadline_of cl timeout clk" clk 0 recv d] assms by simp
  with discover_quiet [OF assms(1), of clk recv sid iid timeout tr] show ?thesis by auto
qed

theorem discover_crashes_on_bare_header_witness:
  "\<exists>tr'. discover (\<lambda>_. None) (\<lambda>_. 0) (\<lambda>_. Datagram [255, 255, 129, 0, 0, 0, 0, 8, 0, 0, 0, 1, 1, 1, 2, 0])
     \<lparr>cl_multicast = SD_MULTICAST, cl_sd_port = SD_PORT, cl_timeout = 2\<rparr> None None None [] = Some (Inl IndexError, tr')"
proof -
  have "sd_header_ok [255, 255, 129, 0, 0, 0, 0, 8, 0, 0, 0, 1, 1, 1, 2, 0]" by code_simp
  then show ?thesis
    by (intro discover_crashes_on_bare_header [OF default_client]) (simp_all add: deadline_of_def)
qed

text \<open>
  A withdrawn service is still reported.  After an offer and then a StopOffer for the
  same service, discover returns the service with its endpoint; the offer's TTL does not
  matter either, 0 included.
\<close>

theorem discover_keeps_withdrawn_service:
  assumes "reachable_group cl" "\<forall>n \<le> 3. clk n < deadline_of cl timeout clk"
    and "build_offer_service sid iid ip port s t minor f = Inr offer"
    and "build_stop_offer_service sid iid s' = Inr stop"
    and "recv 0 = Datagram offer" "recv 1 = Datagram stop" "recv 2 = TimedOut"
  shows "\<exists>ip' tr'. inet_aton ip' = inet_aton ip \<and>
    discover (\<lambda>_. None) clk recv cl None None timeout tr =
      Some (Inr [\<lparr>svc_service_id = sid mod 65536, svc_instance_id = iid mod 65536, svc_ip = ip',
                 svc_port = port mod 65536\<rparr>], tr')"
proof -
  let ?d = "deadline_of cl timeout clk"
  have clk: "0 < ?d - clk (Suc 0)" "0 < ?d - clk (Suc 1)" using assms(2) by simp_all
  obtain info ip' where offer: "length offer = 56" "parse_sd offer = Inr info" "inet_aton ip' = inet_aton ip"
    "announces 0xFFFF 0xFFFF info =
      [((sid mod 65536, iid mod 65536), \<lparr>svc_service_id = sid mod 65536, svc_instance_id = iid mod 65536,
         svc_ip = ip', svc_port = port mod 65536\<rparr>)]"
    using offer_announces [OF assms(3), of None None] by auto
  obtain info' where stop: "length stop = 44" "parse_sd stop = Inr info'" "announces 0xFFFF 0xFFFF info' = []"
    using stop_announces [OF assms(4)] by blast
  have "discover_loop clk recv 0xFFFF 0xFFFF ?d 0 [] =
      Some (Inr (announces 0xFFFF 0xFFFF info))"
    using discover_loop_read [of ?d clk 0 recv offer] discover_loop_read [of ?d clk 1 recv stop]
      discover_loop_timeout [of recv 2, OF assms(7)] clk assms(5,6) offer stop
    by (simp add: numeral_2_eq_2)
  with discover_quiet [OF assms(1), of clk recv None None timeout tr] offer(3,4) show ?thesis by auto
qed

theorem discover_keeps_withdrawn_service_witness:
  "\<exists>recv svc tr'. discover (\<lambda>_. None) (\<lambda>_. 0) recv \<lparr>cl_multicast = SD_MULTICAST, cl_sd_port = SD_PORT, cl_timeout = 2\<rparr>
     None None None [] = Some (Inr [svc], tr') \<and> svc_service_id svc = 0x0100"
proof -
  obtain offer where offer: "build_offer_service 0x0100 1 ''10.0.0.1'' 30490 1 TTL_DEFAULT 0 0x40 = Inr offer"
    using sample_search by blast
  obtain stop where stop: "build_stop_offer_service 0x0100 1 2 = Inr stop"
    by (simp add: build_stop_offer_service_def build_service_entry_eq build_sd_message_eq)
  let ?recv = "\<lambda>n :: nat. if n = 0 then Datagram offer else if n = 1 then Datagram stop else TimedOut"
  have "\<forall>n \<le> 3. (0 :: int) < deadline_of \<lparr>cl_multicast = SD_MULTICAST, cl_sd_port = SD_PORT, cl_timeout = 2\<rparr> None (\<lambda>_. 0)"
    by (simp add: deadline_of_def)
  from discover_keeps_withdrawn_service [OF default_client this offer stop, of ?recv "[]"] show ?thesis by force
qed

end
