(* ===== verification/Drowsiness.thy ===== *)
theory Drowsiness
  imports Transport "HOL-Library.Sublist"
begin

text \<open>
  The drowsiness detector \<open>mpu/ai/drowsiness.py\<close>: the heartbeat thread, the camera loop and
  the simulation loop, and \<open>main\<close> which composes them.  OpenCV is a parameter: what the
  cascades detect is given, frame by frame, as the number of eyes found in each face.  The
  loops without an end are run for a number of passes, or over a finite beginning of their
  input, and the properties hold for every such number.
\<close>

definition EAR_CONSEC_FRAMES :: int where [simp]: "EAR_CONSEC_FRAMES = 15"
definition HEARTBEAT_PERIOD_MS :: nat where [simp]: "HEARTBEAT_PERIOD_MS = 50"

section \<open>The eye aspect ratio\<close>

text \<open>
  numpy is a parameter: the difference of two points, the norm, and the sum, the doubling
  and the quotient of its floating point numbers.  The points are read in the order of the code; each
  may be missing.  No other code calls the function: the camera loop counts eyes instead.
\<close>

definition item :: "'a list \<Rightarrow> nat \<Rightarrow> 'a res" where
  "item xs i = (if i < length xs then Inr (xs ! i) else Inl IndexError)"

definition eye_aspect_ratio ::
  "('p \<Rightarrow> 'p \<Rightarrow> 'v) \<Rightarrow> ('v \<Rightarrow> 'r) \<Rightarrow> ('r \<Rightarrow> 'r \<Rightarrow> 'r) \<Rightarrow> ('r \<Rightarrow> 'r) \<Rightarrow> ('r \<Rightarrow> 'r \<Rightarrow> 'r) \<Rightarrow> 'p list \<Rightarrow> 'r res" where
  "eye_aspect_ratio sub norm add double quot eye =
     res_bind (item eye 1) (\<lambda>p1. res_bind (item eye 5) (\<lambda>p5.
     let A = norm (sub p1 p5) in
     res_bind (item eye 2) (\<lambda>p2. res_bind (item eye 4) (\<lambda>p4.
     let B = norm (sub p2 p4) in
     res_bind (item eye 0) (\<lambda>p0. res_bind (item eye 3) (\<lambda>p3.
     let C = norm (sub p0 p3) in
       Inr (quot (add A B) (double C))))))))"

section \<open>The heartbeat thread\<close>

text \<open>\<open>except Exception\<close> drops every failure of the send, and the counter advances anyway.\<close>

definition heartbeat_pass ::
  "(bytes \<Rightarrow> trace \<Rightarrow> unit res \<times> trace) \<Rightarrow> int \<Rightarrow> trace \<Rightarrow> unit res \<times> int \<times> trace" where
  "heartbeat_pass send counter tr =
     (case send_heartbeat send counter 1 tr of
        (Inl e, tr1) \<Rightarrow>
          if is_exception e
          then (Inr (), (counter + 1) AND 0xFF, tr1 @ [(Sleep HEARTBEAT_PERIOD_MS, True)])
          else (Inl e, counter, tr1)
      | (Inr _, tr1) \<Rightarrow> (Inr (), (counter + 1) AND 0xFF, tr1 @ [(Sleep HEARTBEAT_PERIOD_MS, True)]))"

fun heartbeat_run ::
  "(bytes \<Rightarrow> trace \<Rightarrow> unit res \<times> trace) \<Rightarrow> nat \<Rightarrow> int \<Rightarrow> trace \<Rightarrow> unit res \<times> int \<times> trace" where
  "heartbeat_run send 0 counter tr = (Inr (), counter, tr)"
| "heartbeat_run send (Suc n) counter tr =
     (case heartbeat_pass send counter tr of
        (Inl e, counter1, tr1) \<Rightarrow> (Inl e, counter1, tr1)
      | (Inr _, counter1, tr1) \<Rightarrow> heartbeat_run send n counter1 tr1)"

text \<open>\<open>start_heartbeat_thread\<close>: the thread starts with counter 0.\<close>

definition start_heartbeat_thread :: "env \<Rightarrow> trace \<Rightarrow> int res \<times> trace" where
  "start_heartbeat_thread env tr =
     (let counter = 0 in
      io_bind (perform env (ThreadStart ''someip-heartbeat'') tr) (\<lambda>_ tr1. (Inr counter, tr1)))"

section \<open>The camera loop\<close>

text \<open>One face: \<open>eyes\<close> is \<open>len(eyes)\<close>.  A failed notify is not caught.\<close>

definition face_pass ::
  "env \<Rightarrow> (int \<Rightarrow> trace \<Rightarrow> unit res \<times> trace) \<Rightarrow> nat \<Rightarrow> int \<Rightarrow> trace \<Rightarrow> int res \<times> trace" where
  "face_pass env notify eyes counter tr =
     (if eyes < 2 then
        let counter1 = counter + 1 in
        if EAR_CONSEC_FRAMES \<le> counter1 then
          let level = min (50 + counter1 * 2) 100 in
          io_bind (notify level tr) (\<lambda>_ tr1.
          io_bind (perform env (OtherCall ''cv2.imwrite'') tr1) (\<lambda>_ tr2. (Inr counter1, tr2)))
        else (Inr counter1, tr)
      else (Inr (max 0 (counter - 2)), tr))"

fun faces_pass ::
  "env \<Rightarrow> (int \<Rightarrow> trace \<Rightarrow> unit res \<times> trace) \<Rightarrow> nat list \<Rightarrow> int \<Rightarrow> trace \<Rightarrow> int res \<times> trace" where
  "faces_pass env notify [] counter tr = (Inr counter, tr)"
| "faces_pass env notify (eyes # faces) counter tr =
     io_bind (face_pass env notify eyes counter tr) (\<lambda>counter1 tr1. faces_pass env notify faces counter1 tr1)"

text \<open>
  A frame is the list of its faces and whether the key read after it is \<open>q\<close>; the end of the
  list of frames is a \<open>cap.read()\<close> that fails.
\<close>

fun camera_loop ::
  "env \<Rightarrow> (int \<Rightarrow> trace \<Rightarrow> unit res \<times> trace) \<Rightarrow> (nat list \<times> bool) list \<Rightarrow> int \<Rightarrow> trace \<Rightarrow> int res \<times> trace" where
  "camera_loop env notify [] counter tr = (Inr counter, tr)"
| "camera_loop env notify ((faces, quit) # frames) counter tr =
     io_bind (faces_pass env notify faces counter tr) (\<lambda>counter1 tr1.
     io_bind (perform env (Sleep 100) tr1) (\<lambda>_ tr2.
       if quit then (Inr counter1, tr2) else camera_loop env notify frames counter1 tr2))"

text \<open>The simulation mode, over the values \<open>random.choice\<close> returns.\<close>

fun simulation_loop :: "env \<Rightarrow> (int \<Rightarrow> trace \<Rightarrow> unit res \<times> trace) \<Rightarrow> int list \<Rightarrow> trace \<Rightarrow> unit res \<times> trace" where
  "simulation_loop env notify [] tr = (Inr (), tr)"
| "simulation_loop env notify (level # levels) tr =
     io_bind (if 0 < level then notify level tr else (Inr (), tr)) (\<lambda>_ tr1.
     io_bind (perform env (Sleep 2000) tr1) (\<lambda>_ tr2. simulation_loop env notify levels tr2))"

text \<open>
  \<open>main\<close> after the command line.  The threads it starts run on their own (\<open>heartbeat_run\<close>
  above, the offer server of the service discovery); \<open>camera\<close> is None when the camera
  does not open.
\<close>

definition drowsiness_main ::
  "env \<Rightarrow> bool \<Rightarrow> string \<Rightarrow> string \<Rightarrow> string \<Rightarrow> bool \<Rightarrow> (nat list \<times> bool) list option \<Rightarrow> int list \<Rightarrow>
   trace \<Rightarrow> unit res \<times> trace" where
  "drowsiness_main env have_pyserial transport_name dest uart_port sd camera choices tr =
     io_bind (create_transport env have_pyserial transport_name dest SOMEIP_PORT (Some uart_port) tr) (\<lambda>t tr1.
     io_bind (if sd then perform env (ThreadStart ''someip-sd'') tr1 else (Inr (), tr1)) (\<lambda>_ tr2.
     io_bind (start_heartbeat_thread env tr2) (\<lambda>_ tr3.
     io_bind (perform env (OtherCall ''cv2.VideoCapture'') tr3) (\<lambda>_ tr4.
       let notify = (\<lambda>level. send_notify (transport_send env t) level 1) in
       case camera of
         None \<Rightarrow> simulation_loop env notify choices tr4
       | Some frames \<Rightarrow>
           io_bind (camera_loop env notify frames 0 tr4) (\<lambda>_ tr5.
             perform env (OtherCall ''cap.release'') tr5)))))"

lemma eye_aspect_ratio_eq:
  "eye_aspect_ratio sub norm add double quot eye =
     (if length eye < 6 then Inl IndexError
      else Inr (quot (add (norm (sub (eye ! 1) (eye ! 5))) (norm (sub (eye ! 2) (eye ! 4))))
                       (double (norm (sub (eye ! 0) (eye ! 3))))))"
  by (auto simp: eye_aspect_ratio_def item_def Let_def)

section \<open>The heartbeats of a link\<close>

definition heartbeat_packet :: "int \<Rightarrow> bytes" where
  "heartbeat_packet c = event_header EVENT_HEARTBEAT 9 1 @ [word_of_int c] @ replicate 7 0"

lemma build_heartbeat_packet: "build_heartbeat c 1 = Inr (heartbeat_packet c)"
  by (simp add: build_heartbeat_eq build_packet_eq packable_def heartbeat_packet_def pad_len_def)

definition notify_packet :: "int \<Rightarrow> bytes" where
  "notify_packet level = event_header EVENT_NOTIFY 9 1 @ [word_of_int level] @ replicate 7 0"

lemma build_notify_packet: "build_notify level 1 = Inr (notify_packet level)"
  by (simp add: build_notify_eq build_packet_eq packable_def notify_packet_def pad_len_def)

lemma parse_notify_packet: "parse_event (notify_packet level) = Inr (EVENT_NOTIFY, [word_of_int level])"
  using build_notify_packet [of level] unfolding build_notify_eq by (rule parse_event_built)

lemma parse_heartbeat_packet: "parse_event (heartbeat_packet c) = Inr (EVENT_HEARTBEAT, [word_of_int c])"
  using build_heartbeat_packet [of c] unfolding build_heartbeat_eq by (rule parse_event_built)

lemma heartbeat_packet_mod: "heartbeat_packet (c mod 256) = heartbeat_packet c"
proof -
  have "(word_of_int (c mod 256) :: byte) = word_of_int c" by (rule word_uint_eqI) (simp add: uint_byte)
  then show ?thesis by (simp add: heartbeat_packet_def)
qed

lemma heartbeat_packet_shift: "heartbeat_packet ((c + 1) mod 256 + int i) = heartbeat_packet (c + int (Suc i))"
proof -
  have "((c + 1) mod 256 + int i) mod 256 = (c + int (Suc i)) mod 256"
    by (simp add: mod_simps algebra_simps)
  then show ?thesis using heartbeat_packet_mod by metis
qed

lemma heartbeat_packets_Suc:
  "map (\<lambda>i. heartbeat_packet (c + int i)) [0..<Suc n] =
   heartbeat_packet c # map (\<lambda>i. heartbeat_packet ((c + 1) mod 256 + int i)) [0..<n]"
  unfolding heartbeat_packet_shift by (simp add: map_upt_Suc del: upt_Suc)

lemma counter_Suc:
  "(if n = 0 then (c + 1) mod 256 else ((c + 1) mod 256 + int n) mod 256) = (c + int (Suc n)) mod 256"
  by (simp add: mod_simps algebra_simps)

text \<open>A link whose failures are ordinary exceptions, as in a thread of its own.\<close>

locale quiet_link = link +
  assumes only_exceptions: "send p tr = (Inl e, tr') \<Longrightarrow> is_exception e"
begin

lemma heartbeat_pass_outcome:
  "\<exists>tr'. heartbeat_pass send c tr = (Inr (), (c + 1) mod 256, tr') \<and>
     (delivered tr' = delivered tr \<or> delivered tr' = delivered tr @ [heartbeat_packet c])"
proof -
  obtain r tr1 where run: "send_heartbeat send c 1 tr = (r, tr1)" by fastforce
  then have sent: "send (heartbeat_packet c) tr = (r, tr1)"
    by (simp add: send_heartbeat_def build_heartbeat_packet io_bind_def io_res_def)
  have ok: "r = Inr () \<or> (\<exists>e. r = Inl e \<and> is_exception e)"
    using only_exceptions [of "heartbeat_packet c" tr _ tr1] sent by (cases r) auto
  from send_heartbeat_cases [OF run build_heartbeat_packet]
  have del: "delivered tr1 = delivered tr \<or> delivered tr1 = delivered tr @ [heartbeat_packet c]" by blast
  show ?thesis using ok del run by (auto simp: heartbeat_pass_def and_255_mod)
qed

lemma heartbeat_run_outcome:
  "\<exists>pkts tr'. heartbeat_run send n c tr = (Inr (), if n = 0 then c else (c + int n) mod 256, tr') \<and>
     delivered tr' = delivered tr @ pkts \<and>
     subseq pkts (map (\<lambda>i. heartbeat_packet (c + int i)) [0..<n])"
proof (induction n arbitrary: c tr)
  case 0
  then show ?case by simp
next
  case (Suc n)
  obtain tr1 where one: "heartbeat_pass send c tr = (Inr (), (c + 1) mod 256, tr1)"
    "delivered tr1 = delivered tr \<or> delivered tr1 = delivered tr @ [heartbeat_packet c]"
    using heartbeat_pass_outcome by blast
  obtain pkts tr' where rest:
    "heartbeat_run send n ((c + 1) mod 256) tr1 =
       (Inr (), if n = 0 then (c + 1) mod 256 else ((c + 1) mod 256 + int n) mod 256, tr')"
    "delivered tr' = delivered tr1 @ pkts"
    "subseq pkts (map (\<lambda>i. heartbeat_packet ((c + 1) mod 256 + int i)) [0..<n])"
    using Suc.IH [of "(c + 1) mod 256" tr1] by blast
  from one rest show ?case
    unfolding heartbeat_packets_Suc counter_Suc
    by (elim disjE) (auto intro: subseq_Cons' simp del: upt_Suc)
qed

end

context link
begin

text \<open>When every send works, no heartbeat is missing.\<close>

lemma heartbeat_run_all:
  assumes "\<And>p tr. fst (send p tr) = Inr ()"
  shows "\<exists>tr'. heartbeat_run send n c tr = (Inr (), if n = 0 then c else (c + int n) mod 256, tr') \<and>
    delivered tr' = delivered tr @ map (\<lambda>i. heartbeat_packet (c + int i)) [0..<n]"
proof (induction n arbitrary: c tr)
  case (Suc n)
  obtain tr1 where send: "send (heartbeat_packet c) tr = (Inr (), tr1)"
    using assms [of "heartbeat_packet c" tr] by (metis prod.collapse)
  let ?tr2 = "tr1 @ [(Sleep HEARTBEAT_PERIOD_MS, True)]"
  have one: "heartbeat_pass send c tr = (Inr (), (c + 1) mod 256, ?tr2)"
    using send by (simp add: heartbeat_pass_def send_heartbeat_def build_heartbeat_packet io_bind_def
        io_res_def and_255_mod)
  have wire: "delivered ?tr2 = delivered tr @ [heartbeat_packet c]" using send_returns [OF send] by simp
  obtain tr' where rest: "heartbeat_run send n ((c + 1) mod 256) ?tr2 =
       (Inr (), if n = 0 then (c + 1) mod 256 else ((c + 1) mod 256 + int n) mod 256, tr')"
    "delivered tr' = delivered ?tr2 @ map (\<lambda>i. heartbeat_packet ((c + 1) mod 256 + int i)) [0..<n]"
    using Suc.IH [of "(c + 1) mod 256" ?tr2] by blast
  with one wire show ?case unfolding heartbeat_packets_Suc counter_Suc by (simp del: upt_Suc)
qed simp

end

section \<open>The alarms of a sequence of faces\<close>

text \<open>
  The specification of the camera loop: the closed-eye counter as a fold over the faces
  seen, and the levels announced on the way.  Frames, exceptions and the wire are gone.
\<close>

definition next_counter :: "nat \<Rightarrow> int \<Rightarrow> int" where
  "next_counter eyes c = (if eyes < 2 then c + 1 else max 0 (c - 2))"

fun alarms :: "int \<Rightarrow> nat list \<Rightarrow> int list" where
  "alarms c [] = []"
| "alarms c (eyes # faces) =
     (if eyes < 2 \<and> 15 \<le> c + 1 then [min (50 + (c + 1) * 2) 100] else []) @
     alarms (next_counter eyes c) faces"

fun faces_seen :: "(nat list \<times> bool) list \<Rightarrow> nat list" where
  "faces_seen [] = []"
| "faces_seen ((faces, quit) # frames) = faces @ (if quit then [] else faces_seen frames)"

lemma alarms_append: "alarms c (xs @ ys) = alarms c xs @ alarms (fold next_counter xs c) ys"
  by (induction xs arbitrary: c) simp_all

text \<open>
  A link's notifications: \<open>sent_prefix\<close> says how far along a list of levels the wire got,
  all the way when the call returned.
\<close>

definition sent_prefix :: "int list \<Rightarrow> int \<Rightarrow> int res \<Rightarrow> trace \<Rightarrow> trace \<Rightarrow> bool" where
  "sent_prefix levels c r tr tr' \<longleftrightarrow>
     (\<exists>xs. prefix xs levels \<and> delivered tr' = delivered tr @ map notify_packet xs \<and>
       (\<forall>c'. r = Inr c' \<longrightarrow> xs = levels \<and> c' = c))"

lemma sent_prefix_seq:
  assumes "sent_prefix xs c r tr tr1" "r = Inr c1"
    and "sent_prefix ys c' r' tr1 tr'"
  shows "sent_prefix (xs @ ys) c' r' tr tr'"
proof -
  from assms(1,2) have first: "delivered tr1 = delivered tr @ map notify_packet xs"
    by (auto simp: sent_prefix_def)
  from assms(3) obtain zs where "prefix zs ys" "delivered tr' = delivered tr1 @ map notify_packet zs"
    "\<forall>c1. r' = Inr c1 \<longrightarrow> zs = ys \<and> c1 = c'" by (auto simp: sent_prefix_def)
  with first show ?thesis unfolding sent_prefix_def by (intro exI [of _ "xs @ zs"]) simp
qed

lemma sent_prefix_stop: "sent_prefix xs c (Inl e) tr tr1 \<Longrightarrow> sent_prefix (xs @ ys) c' (Inl e) tr tr1"
  unfolding sent_prefix_def using prefix_prefix by blast

lemma delivered_other [simp]:
  "delivered [(OtherCall n, b)] = []" "delivered [(Sleep k, b)] = []" "delivered [(ThreadStart n, b)] = []"
  by simp_all

context link
begin

lemma notify_outcome:
  assumes "send_notify send level 1 tr = (r, tr')"
  shows "delivered tr' = delivered tr @ [notify_packet level] \<or> (\<exists>e. r = Inl e) \<and> delivered tr' = delivered tr"
proof -
  from assms have "send (notify_packet level) tr = (r, tr')"
    by (simp add: send_notify_def build_notify_packet io_bind_def io_res_def)
  then show ?thesis by (rule delivered_at_most_once) auto
qed

lemma face_pass_alarms:
  assumes "face_pass env (\<lambda>l. send_notify send l 1) eyes c tr = (r, tr')"
  shows "sent_prefix (alarms c [eyes]) (next_counter eyes c) r tr tr'"
proof (cases "eyes < 2 \<and> 15 \<le> c + 1")
  case False
  then show ?thesis using assms
    by (auto simp: face_pass_def next_counter_def sent_prefix_def split: if_splits)
next
  case True
  let ?l = "min (50 + (c + 1) * 2) 100"
  obtain r1 tr1 where n: "send_notify send ?l 1 tr = (r1, tr1)" by fastforce
  have alarm: "alarms c [eyes] = [?l]" "next_counter eyes c = c + 1" using True by (simp_all add: next_counter_def)
  have pass: "face_pass env (\<lambda>l. send_notify send l 1) eyes c tr =
      io_bind (r1, tr1) (\<lambda>_ tr1. io_bind (perform env (OtherCall ''cv2.imwrite'') tr1) (\<lambda>_ tr2. (Inr (c + 1), tr2)))"
    using True n by (simp add: face_pass_def Let_def)
  show ?thesis
  proof (cases r1)
    case (Inl e)
    with pass assms notify_outcome [OF n] show ?thesis
      unfolding sent_prefix_def alarm
      by (auto simp: io_bind_def intro: exI [of _ "[?l]"] exI [of _ "[]"])
  next
    case (Inr u)
    with notify_outcome [OF n] have "delivered tr1 = delivered tr @ [notify_packet ?l]" by simp
    with Inr pass assms show ?thesis
      unfolding sent_prefix_def alarm
      by (intro exI [of _ "[?l]"]) (auto simp: io_bind_def perform_def split: option.splits)
  qed
qed

lemma faces_pass_alarms:
  "faces_pass env (\<lambda>l. send_notify send l 1) faces c tr = (r, tr') \<Longrightarrow>
   sent_prefix (alarms c faces) (fold next_counter faces c) r tr tr'"
proof (induction faces arbitrary: c tr)
  case Nil
  then show ?case by (auto simp: sent_prefix_def)
next
  case (Cons eyes faces)
  obtain r1 tr1 where one: "face_pass env (\<lambda>l. send_notify send l 1) eyes c tr = (r1, tr1)" by fastforce
  note first = face_pass_alarms [OF one]
  have split: "alarms c (eyes # faces) = alarms c [eyes] @ alarms (next_counter eyes c) faces" by simp
  show ?case
  proof (cases r1)
    case (Inl e)
    with Cons.prems one have "r = Inl e" "tr' = tr1" by (simp_all add: io_bind_def)
    with first Inl show ?thesis unfolding split by (simp only: sent_prefix_stop)
  next
    case (Inr c1)
    with first have "c1 = next_counter eyes c" by (simp add: sent_prefix_def)
    with Cons.prems one Inr have "faces_pass env (\<lambda>l. send_notify send l 1) faces (next_counter eyes c) tr1 = (r, tr')"
      by (simp add: io_bind_def)
    from sent_prefix_seq [OF first Inr Cons.IH [OF this]] show ?thesis unfolding split by simp
  qed
qed

lemma camera_loop_alarms:
  "camera_loop env (\<lambda>l. send_notify send l 1) frames c tr = (r, tr') \<Longrightarrow>
   sent_prefix (alarms c (faces_seen frames)) (fold next_counter (faces_seen frames) c) r tr tr'"
proof (induction frames arbitrary: c tr)
  case Nil
  then show ?case by (auto simp: sent_prefix_def)
next
  case (Cons frame frames)
  obtain faces quit where frame: "frame = (faces, quit)" by fastforce
  let ?rest = "if quit then [] else faces_seen frames" and ?c1 = "fold next_counter faces c"
  have seen: "faces_seen (frame # frames) = faces @ ?rest" by (simp add: frame)
  obtain r1 tr1 where one: "faces_pass env (\<lambda>l. send_notify send l 1) faces c tr = (r1, tr1)" by fastforce
  note first = faces_pass_alarms [OF one]
  show ?case
  proof (cases r1)
    case (Inl e)
    with Cons.prems one have "r = Inl e" "tr' = tr1" by (simp_all add: io_bind_def frame)
    with first Inl show ?thesis unfolding seen alarms_append by (simp only: sent_prefix_stop)
  next
    case (Inr c1)
    with first have c1: "c1 = ?c1" by (simp add: sent_prefix_def)
    have tail: "sent_prefix (alarms ?c1 ?rest) (fold next_counter ?rest ?c1) r tr1 tr'"
    proof (cases rule: perform_cases [of env "Sleep 100" tr1])
      case (2 e)
      with Cons.prems one Inr have "r = Inl e" "tr' = tr1 @ [(Sleep 100, False)]"
        by (simp_all add: io_bind_def frame)
      then show ?thesis by (auto simp: sent_prefix_def)
    next
      case 1
      show ?thesis
      proof (cases quit)
        case True
        with Cons.prems one Inr 1 c1 show ?thesis by (auto simp: io_bind_def frame sent_prefix_def)
      next
        case False
        with Cons.prems one Inr 1 c1
        have "camera_loop env (\<lambda>l. send_notify send l 1) frames ?c1 (tr1 @ [(Sleep 100, True)]) = (r, tr')"
          by (simp add: io_bind_def frame)
        from Cons.IH [OF this] False show ?thesis by (simp add: sent_prefix_def)
      qed
    qed
    from sent_prefix_seq [OF first Inr tail] show ?thesis unfolding seen alarms_append by simp
  qed
qed

end

section \<open>Facts about the alarms\<close>

definition closed_faces :: "nat list \<Rightarrow> nat" where
  "closed_faces xs = length (filter (\<lambda>eyes. eyes < 2) xs)"

lemma fold_counter_bounds: "0 \<le> c \<Longrightarrow> 0 \<le> fold next_counter xs c \<and> fold next_counter xs c \<le> c + int (closed_faces xs)"
proof (induction xs arbitrary: c)
  case (Cons x xs)
  have "0 \<le> next_counter x c" using Cons.prems by (simp add: next_counter_def)
  from Cons.IH [OF this] Cons.prems show ?case by (auto simp: next_counter_def closed_faces_def)
qed (simp add: closed_faces_def)

lemma alarms_range: "0 \<le> c \<Longrightarrow> \<forall>l \<in> set (alarms c xs). 80 \<le> l \<and> l \<le> 100"
proof (induction xs arbitrary: c)
  case (Cons x xs)
  have "0 \<le> next_counter x c" using Cons.prems by (simp add: next_counter_def)
  from Cons.IH [OF this] show ?case by auto
qed simp

lemma alarms_need_closed: "0 \<le> c \<Longrightarrow> alarms c xs \<noteq> [] \<Longrightarrow> 15 \<le> c + int (closed_faces xs)"
proof (induction xs arbitrary: c)
  case (Cons x xs)
  have nn: "0 \<le> next_counter x c" using Cons.prems by (simp add: next_counter_def)
  show ?case
  proof (cases "alarms (next_counter x c) xs = []")
    case True
    with Cons.prems have "x < 2 \<and> 15 \<le> c + 1" by (auto split: if_splits)
    then show ?thesis by (simp add: closed_faces_def)
  next
    case False
    from Cons.IH [OF nn this] Cons.prems show ?thesis
      by (auto simp: next_counter_def closed_faces_def split: if_splits)
  qed
qed simp

lemma alarms_closed_run:
  assumes "0 \<le> c" "\<forall>eyes \<in> set xs. eyes < 2" "15 \<le> int (length xs)"
  shows "alarms c xs \<noteq> [] \<and> last (alarms c xs) = min (50 + (c + int (length xs)) * 2) 100"
  using assms
proof (induction xs rule: rev_induct)
  case (snoc x xs)
  have fold: "fold next_counter xs c = c + int (length xs)" if "\<forall>eyes \<in> set xs. eyes < 2" for xs
    using that by (induction xs arbitrary: c) (simp_all add: next_counter_def)
  have "alarms c (xs @ [x]) = alarms c xs @ [min (50 + (c + int (length xs) + 1) * 2) 100]"
    using snoc.prems fold [of xs] by (simp add: alarms_append)
  then show ?case by (simp add: algebra_simps)
qed simp

text \<open>With nothing failing, the loop returns.\<close>

lemma faces_pass_total:
  assumes notify: "\<And>l tr. \<exists>tr'. notify l tr = (Inr (), tr')"
  shows "\<exists>c' tr'. faces_pass (\<lambda>_. None) notify faces c tr = (Inr c', tr')"
proof (induction faces arbitrary: c tr)
  case (Cons e faces)
  obtain tr1 where "notify (min (50 + (c + 1) * 2) 100) tr = (Inr (), tr1)" using notify by blast
  then have "\<exists>c1 tr1. face_pass (\<lambda>_. None) notify e c tr = (Inr c1, tr1)"
    by (simp add: face_pass_def Let_def io_bind_def perform_def)
  with Cons show ?case by (auto simp: io_bind_def)
qed simp

lemma camera_loop_total:
  assumes notify: "\<And>l tr. \<exists>tr'. notify l tr = (Inr (), tr')"
  shows "\<exists>c' tr'. camera_loop (\<lambda>_. None) notify frames c tr = (Inr c', tr')"
proof (induction frames arbitrary: c tr)
  case (Cons frame frames)
  obtain faces quit where frame: "frame = (faces, quit)" by fastforce
  obtain c1 tr1 where "faces_pass (\<lambda>_. None) notify faces c tr = (Inr c1, tr1)"
    using faces_pass_total [of notify, OF notify] by blast
  with Cons show ?case by (simp add: frame io_bind_def perform_def)
qed simp

section \<open>The links of the program\<close>

text \<open>KeyboardInterrupt is raised in the main thread only.\<close>

definition in_thread :: "env \<Rightarrow> env" where
  "in_thread env n = (case env n of Some e \<Rightarrow> if is_exception e then Some e else None | None \<Rightarrow> None)"

lemma in_thread_id: "\<forall>n. env n \<noteq> Some KeyboardInterrupt \<Longrightarrow> in_thread env = env"
  by (auto simp: in_thread_def is_exception_def fun_eq_iff split: option.split)

lemma in_thread_exception: "in_thread env n = Some e \<Longrightarrow> is_exception e"
  by (auto simp: in_thread_def split: option.splits if_splits)

interpretation thread_link: quiet_link "transport_send (in_thread env) t" for env t
proof
  fix p tr e tr'
  assume "transport_send (in_thread env) t p tr = (Inl e, tr')"
  then show "is_exception e"
    by (cases t) (auto simp: udp_send_cases uart_send_def sendto_def perform_def io_bind_def is_exception_def
        dest!: in_thread_exception split: option.splits if_splits)
qed

section \<open>Properties\<close>

text \<open>
  C35: the heartbeat thread survives every failure of the transport.  Whatever the calls
  raise, \<open>n\<close> passes run to the end with counter \<open>n mod 256\<close>, and what reached the wire is a
  selection, in order, of the heartbeats 0, 1, ..., n - 1 (modulo 256).
\<close>

theorem heartbeat_survives_failures:
  assumes "\<forall>i. env i \<noteq> Some KeyboardInterrupt"
  shows "\<exists>pkts tr'. heartbeat_run (transport_send env t) n 0 tr = (Inr (), int n mod 256, tr') \<and>
    delivered tr' = delivered tr @ pkts \<and>
    subseq (map parse_event pkts) (map (\<lambda>i. Inr (EVENT_HEARTBEAT, [word_of_int (int i)])) [0..<n])"
proof -
  obtain pkts tr' where run:
    "heartbeat_run (transport_send (in_thread env) t) n 0 tr = (Inr (), if n = 0 then 0 else (0 + int n) mod 256, tr')"
    "delivered tr' = delivered tr @ pkts" "subseq pkts (map (\<lambda>i. heartbeat_packet (0 + int i)) [0..<n])"
    using thread_link.heartbeat_run_outcome by blast
  from subseq_map [OF run(3), of parse_event]
  have "subseq (map parse_event pkts) (map (\<lambda>i. Inr (EVENT_HEARTBEAT, [word_of_int (int i)])) [0..<n])"
    by (simp add: o_def parse_heartbeat_packet del: EVENT_HEARTBEAT_def)
  with run in_thread_id [OF assms] show ?thesis by (auto split: if_splits)
qed

theorem heartbeat_survives_failures_witness:
  "\<exists>pkts tr'. heartbeat_run (transport_send (\<lambda>i. if i mod 2 = 0 then Some OSError else None)
      (Udp \<lparr>udp_host = ''127.0.0.1'', udp_port = 30490\<rparr>)) 300 0 [] = (Inr (), 44, tr') \<and> delivered tr' = pkts"
proof -
  have "\<forall>i. (\<lambda>i :: nat. if i mod 2 = 0 then Some OSError else None) i \<noteq> Some KeyboardInterrupt" by simp
  from heartbeat_survives_failures [OF this, of "Udp \<lparr>udp_host = ''127.0.0.1'', udp_port = 30490\<rparr>" 300 "[]"]
  show ?thesis by auto
qed

text \<open>
  And loses none when none fails.  Over UDP with a valid port and quiet calls, \<open>n\<close>
  passes put exactly the heartbeats 0, ..., n - 1 (modulo 256) on the wire, in order.
\<close>

theorem heartbeat_complete:
  assumes "0 \<le> udp_port u" "udp_port u \<le> 65535"
  shows "\<exists>tr'. heartbeat_run (transport_send (\<lambda>_. None) (Udp u)) n 0 tr = (Inr (), int n mod 256, tr') \<and>
    map parse_event (delivered tr') = map parse_event (delivered tr) @
      map (\<lambda>i. Inr (EVENT_HEARTBEAT, [word_of_int (int i)])) [0..<n]"
proof -
  have send: "fst (transport_send (\<lambda>_. None) (Udp u) p tr) = Inr ()" for p tr
    using assms by (simp add: udp_send_cases sendto_def perform_def)
  from any_link.heartbeat_run_all [OF send, of n 0 tr] obtain tr' where run:
    "heartbeat_run (transport_send (\<lambda>_. None) (Udp u)) n 0 tr = (Inr (), if n = 0 then 0 else int n mod 256, tr')"
    "delivered tr' = delivered tr @ map (\<lambda>i. heartbeat_packet (int i)) [0..<n]" by auto
  then show ?thesis by (auto simp: o_def parse_heartbeat_packet split: if_splits simp del: EVENT_HEARTBEAT_def)
qed

theorem heartbeat_complete_witness:
  "\<exists>tr'. heartbeat_run (transport_send (\<lambda>_. None) (Udp \<lparr>udp_host = ''127.0.0.1'', udp_port = 30490\<rparr>)) 3 0 [] = (Inr (), 3, tr') \<and>
     map parse_event (delivered tr') = [Inr (EVENT_HEARTBEAT, [0]), Inr (EVENT_HEARTBEAT, [1]), Inr (EVENT_HEARTBEAT, [2])]"
  using heartbeat_complete [of "\<lparr>udp_host = ''127.0.0.1'', udp_port = 30490\<rparr>" 3 "[]"]
  by (auto simp: numeral_3_eq_3)

text \<open>
  C36: the camera loop refines its specification.  Over either transport, a run that returns
  has sent exactly the alarms of the faces seen, in order, one packet each, and returns the
  specified counter; a run that raises has sent a beginning of them.
\<close>

theorem camera_loop_refines_alarms:
  assumes "camera_loop env (\<lambda>level. send_notify (transport_send env t) level 1) frames 0 tr = (r, tr')"
  shows "\<exists>pkts. delivered tr' = delivered tr @ pkts \<and>
    prefix (map parse_event pkts)
      (map (\<lambda>level. Inr (EVENT_NOTIFY, [word_of_int level])) (alarms 0 (faces_seen frames))) \<and>
    (\<forall>c. r = Inr c \<longrightarrow> c = fold next_counter (faces_seen frames) 0 \<and>
       length pkts = length (alarms 0 (faces_seen frames)))"
proof -
  obtain xs where xs: "prefix xs (alarms 0 (faces_seen frames))" "delivered tr' = delivered tr @ map notify_packet xs"
    "\<forall>c. r = Inr c \<longrightarrow> xs = alarms 0 (faces_seen frames) \<and> c = fold next_counter (faces_seen frames) 0"
    using any_link.camera_loop_alarms [OF assms] by (auto simp: sent_prefix_def)
  have "map parse_event (map notify_packet xs) = map (\<lambda>level. Inr (EVENT_NOTIFY, [word_of_int level])) xs"
    by (simp add: parse_notify_packet del: EVENT_NOTIFY_def)
  with map_mono_prefix [OF xs(1)]
  have "prefix (map parse_event (map notify_packet xs))
      (map (\<lambda>level. Inr (EVENT_NOTIFY, [word_of_int level])) (alarms 0 (faces_seen frames)))" by (simp only:)
  with xs(2,3) show ?thesis by (intro exI [of _ "map notify_packet xs"]) simp
qed

theorem camera_loop_refines_alarms_witness:
  "\<exists>r tr' pkts. camera_loop (\<lambda>_. None)
      (\<lambda>level. send_notify (transport_send (\<lambda>_. None) (Udp \<lparr>udp_host = ''127.0.0.1'', udp_port = 30490\<rparr>)) level 1)
      [(replicate 14 0, False), ([0], True)] 0 [] = (r, tr') \<and> delivered tr' = pkts \<and> length pkts \<le> 1"
proof -
  let ?t = "Udp \<lparr>udp_host = ''127.0.0.1'', udp_port = 30490\<rparr>" and ?frames = "[(replicate 14 0, False), ([0], True)]"
  obtain r tr' where run: "camera_loop (\<lambda>_. None) (\<lambda>level. send_notify (transport_send (\<lambda>_. None) ?t) level 1)
      ?frames 0 [] = (r, tr')" by fastforce
  have "length (alarms 0 (faces_seen ?frames)) = 1" by code_simp
  with camera_loop_refines_alarms [OF run] run show ?thesis
    by (fastforce dest: prefix_length_le)
qed

text \<open>
  Alarms are warranted and in range.  Every packet the camera loop adds to the wire is a
  notification with a level from 80 to 100, and none is sent before fifteen faces with fewer
  than two eyes have been seen.
\<close>

theorem camera_alarms_warranted:
  assumes "camera_loop env (\<lambda>level. send_notify (transport_send env t) level 1) frames 0 tr = (r, tr')"
  shows "\<exists>pkts. delivered tr' = delivered tr @ pkts \<and>
    (\<forall>pkt \<in> set pkts. \<exists>b. parse_event pkt = Inr (EVENT_NOTIFY, [b]) \<and> 80 \<le> uint b \<and> uint b \<le> 100) \<and>
    (pkts \<noteq> [] \<longrightarrow> 15 \<le> closed_faces (faces_seen frames))"
proof -
  let ?xs = "faces_seen frames"
  obtain xs where xs: "prefix xs (alarms 0 ?xs)" "delivered tr' = delivered tr @ map notify_packet xs"
    using any_link.camera_loop_alarms [OF assms] by (auto simp: sent_prefix_def)
  have "\<exists>b. parse_event (notify_packet l) = Inr (EVENT_NOTIFY, [b]) \<and> 80 \<le> uint b \<and> uint b \<le> 100"
    if "l \<in> set xs" for l
  proof -
    have "80 \<le> l \<and> l \<le> 100"
      using alarms_range [of 0 ?xs] set_mono_prefix [OF xs(1)] that by auto
    then show ?thesis by (auto simp: parse_notify_packet uint_byte)
  qed
  moreover have "15 \<le> closed_faces ?xs" if "xs \<noteq> []"
  proof -
    from xs(1) that have "alarms 0 ?xs \<noteq> []" by (auto simp: prefix_def)
    with alarms_need_closed [of 0 ?xs] show ?thesis by simp
  qed
  ultimately show ?thesis using xs(2) by (intro exI [of _ "map notify_packet xs"]) auto
qed

theorem camera_alarms_warranted_witness:
  "\<exists>r tr' pkts. camera_loop (\<lambda>_. None)
      (\<lambda>level. send_notify (transport_send (\<lambda>_. None) (Udp \<lparr>udp_host = ''127.0.0.1'', udp_port = 30490\<rparr>)) level 1)
      [(replicate 20 2, False)] 0 [] = (r, tr') \<and> delivered tr' = pkts \<and> pkts = []"
proof -
  let ?t = "Udp \<lparr>udp_host = ''127.0.0.1'', udp_port = 30490\<rparr>" and ?frames = "[(replicate 20 2, False)]"
  obtain r tr' where run: "camera_loop (\<lambda>_. None) (\<lambda>level. send_notify (transport_send (\<lambda>_. None) ?t) level 1)
      ?frames 0 [] = (r, tr')" by fastforce
  have "closed_faces (faces_seen ?frames) = 0" by (simp add: closed_faces_def)
  with camera_alarms_warranted [OF run] run show ?thesis by fastforce
qed

text \<open>
  Drowsiness is reported.  When the last fifteen or more faces seen all have fewer than
  two eyes and the loop returns, a notification has been sent for the last of them, with
  level \<open>min (50 + 2 * counter) 100\<close>; how many frames those faces span does not matter.
\<close>

theorem camera_loop_alarms_when_closed:
  assumes "camera_loop env (\<lambda>level. send_notify (transport_send env t) level 1) frames 0 tr = (Inr c, tr')"
    and "faces_seen frames = before @ closed" "\<forall>eyes \<in> set closed. eyes < 2" "15 \<le> length closed"
  shows "\<exists>pkts pkt. delivered tr' = delivered tr @ pkts @ [pkt] \<and> 15 \<le> c \<and>
    parse_event pkt = Inr (EVENT_NOTIFY, [word_of_int (min (50 + c * 2) 100)])"
proof -
  let ?b = "fold next_counter before 0"
  have nn: "0 \<le> ?b" using fold_counter_bounds [of 0 before] by simp
  have wire: "delivered tr' = delivered tr @ map notify_packet (alarms 0 (before @ closed))"
    and c: "c = fold next_counter closed ?b"
    using any_link.camera_loop_alarms [OF assms(1)] assms(2) by (auto simp: sent_prefix_def)
  have run: "alarms ?b closed \<noteq> [] \<and> last (alarms ?b closed) = min (50 + (?b + int (length closed)) * 2) 100"
    using alarms_closed_run [OF nn assms(3)] assms(4) by simp
  have "fold next_counter closed x = x + int (length closed)" for x
    using assms(3) by (induction closed arbitrary: x) (simp_all add: next_counter_def)
  then have c': "c = ?b + int (length closed)" by (simp add: c)
  have "alarms 0 (before @ closed) \<noteq> []" "last (alarms 0 (before @ closed)) = min (50 + c * 2) 100"
    using run c' by (simp_all add: alarms_append)
  then have "delivered tr' = delivered tr @ map notify_packet (butlast (alarms 0 (before @ closed))) @
      [notify_packet (min (50 + c * 2) 100)]"
    unfolding wire by (metis append_butlast_last_id list.simps(8,9) map_append)
  with c' nn assms(4) parse_notify_packet show ?thesis by fastforce
qed

theorem camera_loop_alarms_when_closed_witness:
  "\<exists>c tr' pkts pkt. camera_loop (\<lambda>_. None)
      (\<lambda>level. send_notify (transport_send (\<lambda>_. None) (Udp \<lparr>udp_host = ''127.0.0.1'', udp_port = 30490\<rparr>)) level 1)
      [(replicate 15 0, False)] 0 [] = (Inr c, tr') \<and> delivered tr' = pkts @ [pkt] \<and> 15 \<le> c"
proof -
  let ?t = "Udp \<lparr>udp_host = ''127.0.0.1'', udp_port = 30490\<rparr>" and ?frames = "[(replicate 15 0, False)]"
  let ?notify = "\<lambda>level. send_notify (transport_send (\<lambda>_. None) ?t) level 1"
  have notify: "\<exists>tr'. ?notify l tr = (Inr (), tr')" for l tr
    by (simp add: send_notify_def build_notify_packet io_bind_def io_res_def udp_send_cases sendto_def perform_def)
  obtain c tr' where run: "camera_loop (\<lambda>_. None) ?notify ?frames 0 [] = (Inr c, tr')"
    using camera_loop_total [of ?notify, OF notify] by blast
  have "faces_seen ?frames = [] @ replicate 15 0" "\<forall>eyes \<in> set (replicate 15 0). eyes < (2 :: nat)" by simp_all
  from camera_loop_alarms_when_closed [OF run this] run show ?thesis by fastforce
qed

text \<open>
  An alarm that cannot be sent ends the program.  In \<open>main\<close> over UDP, if sending the
  first alarm fails with OSError, the exception leaves the loop whatever the later frames
  are: nothing has been delivered and the camera is not released.
\<close>

theorem failed_alarm_ends_main:
  assumes "name \<noteq> ''uart''"
  shows "\<exists>tr'. drowsiness_main (\<lambda>i. if i = 3 then Some OSError else None) have_pyserial name dest uart_port False
      (Some ((replicate 15 0, quit) # frames)) choices [] = (Inl OSError, tr') \<and>
    delivered tr' = [] \<and> (OtherCall ''cap.release'', True) \<notin> set tr'"
proof -
  let ?env = "\<lambda>i :: nat. if i = 3 then Some OSError else None"
  let ?t = "Udp \<lparr>udp_host = dest, udp_port = SOMEIP_PORT\<rparr>"
  let ?notify = "\<lambda>level. send_notify (transport_send ?env ?t) level 1"
  let ?tr = "[(ThreadStart ''someip-heartbeat'', True), (OtherCall ''cv2.VideoCapture'', True)]"
  have early: "faces_pass ?env ?notify (replicate n 0 @ es) c tr = faces_pass ?env ?notify es (c + int n) tr"
    if "c + int n \<le> 14" for n es c tr
    using that by (induction n arbitrary: c) (simp_all add: face_pass_def Let_def io_bind_def algebra_simps)
  have "faces_pass ?env ?notify (replicate 15 0) 0 ?tr = faces_pass ?env ?notify [0] 14 ?tr"
    using early [of 0 14 "[0]" ?tr] by (simp add: eval_nat_numeral)
  also have "\<dots> = (Inl OSError, ?tr @ [(SocketCreate, True), (SendTo (notify_packet 80) dest SOMEIP_PORT, False), (SocketClose, True)])"
    by (simp add: face_pass_def Let_def send_notify_def build_notify_packet io_bind_def io_res_def
        udp_send_cases sendto_def perform_def)
  finally show ?thesis
    using assms by (simp add: drowsiness_main_def start_heartbeat_thread_def create_transport_def io_bind_def perform_def)
qed

theorem failed_alarm_ends_main_witness:
  "\<exists>tr'. drowsiness_main (\<lambda>i. if i = 3 then Some OSError else None) True ''udp'' ''127.0.0.1'' ''/dev/ttyS0'' False
      (Some [(replicate 15 0, False)]) [] [] = (Inl OSError, tr') \<and> delivered tr' = []"
  using failed_alarm_ends_main [of "''udp''" True "''127.0.0.1''" "''/dev/ttyS0''" False "[]" "[]"] by auto

text \<open>
  The eye aspect ratio needs the six landmarks: with fewer the function raises IndexError,
  further points do not matter.  It does not depend on which lid is listed first: reversing
  points 1 to 5, with a norm for which \<open>p - q\<close> and \<open>q - p\<close> are equally long, changes
  nothing.
\<close>

theorem eye_aspect_ratio_landmarks:
  assumes "\<And>p q. norm (sub p q) = norm (sub q p)"
  shows "(length eye < 6 \<longrightarrow> eye_aspect_ratio sub norm add double quot eye = Inl IndexError) \<and>
    eye_aspect_ratio sub norm add double quot ([p0, p1, p2, p3, p4, p5] @ others) =
    eye_aspect_ratio sub norm add double quot [p0, p5, p4, p3, p2, p1]"
  using assms [of p1 p5] assms [of p2 p4] by (simp add: eye_aspect_ratio_eq)

theorem eye_aspect_ratio_landmarks_witness:
  "eye_aspect_ratio (-) abs (+) (\<lambda>x. 2 * x) (div) [0, 3, 4, 9, 1, 0 :: int] =
   eye_aspect_ratio (-) abs (+) (\<lambda>x. 2 * x) (div) [0, 0, 1, 9, 4, 3 :: int]"
  using eye_aspect_ratio_landmarks [of abs "(-)" "[]" "(+)" "\<lambda>x. 2 * x" "(div)" 0 3 4 9 1 "0 :: int" "[]"]
  by simp

end
