(* ===== verification/Test_Tools.thy ===== *)
theory Test_Tools
  imports Drowsiness Sd_Server
begin

text \<open>
  The two test programs that drive the protocol: \<open>mpu/ai/trigger_test.py\<close> (single notify,
  notify loop, heartbeat loop) and the event sender of \<open>scripts/pc_sim_test.py\<close>.  A loop that
  only an exception ends takes fuel: \<open>None\<close> is a run longer than the fuel.
\<close>

section \<open>trigger_test.py\<close>

definition hex_digit :: "int \<Rightarrow> char" where
  "hex_digit d = char_of (nat (if d < 10 then 48 + d else 55 + d))"

definition hex_byte :: "byte \<Rightarrow> string" where
  "hex_byte b = [hex_digit (uint b div 16), hex_digit (uint b mod 16)]"

fun dump_hex :: "bytes \<Rightarrow> string" where
  "dump_hex [] = []"
| "dump_hex [b] = hex_byte b"
| "dump_hex (b # bs) = hex_byte b @ '' '' @ dump_hex bs"

definition trigger_send :: "(bytes \<Rightarrow> trace \<Rightarrow> unit res \<times> trace) \<Rightarrow> int \<Rightarrow> trace \<Rightarrow> unit res \<times> trace" where
  "trigger_send send level tr =
     io_bind (io_res (res_bind (py_bytes [level AND 0xFF]) (\<lambda>payload. build_packet EVENT_NOTIFY payload 1)) tr)
       (\<lambda>packet tr1. send packet tr1)"

fun trigger_heartbeats ::
  "env \<Rightarrow> (bytes \<Rightarrow> trace \<Rightarrow> unit res \<times> trace) \<Rightarrow> nat \<Rightarrow> int \<Rightarrow> trace \<Rightarrow> (unit res \<times> trace) option" where
  "trigger_heartbeats env send 0 counter tr = None"
| "trigger_heartbeats env send (Suc fuel) counter tr =
     (case io_bind (io_res (build_heartbeat counter 1) tr) (\<lambda>packet tr1.
             io_bind (send packet tr1) (\<lambda>_ tr2. perform env (Sleep 50) tr2)) of
        (Inl e, tr3) \<Rightarrow> Some (Inl e, tr3)
      | (Inr _, tr3) \<Rightarrow> trigger_heartbeats env send fuel ((counter + 1) AND 0xFF) tr3)"

fun trigger_loop ::
  "env \<Rightarrow> (bytes \<Rightarrow> trace \<Rightarrow> unit res \<times> trace) \<Rightarrow> nat \<Rightarrow> int \<Rightarrow> trace \<Rightarrow> (unit res \<times> trace) option" where
  "trigger_loop env send 0 level tr = None"
| "trigger_loop env send (Suc fuel) level tr =
     (case io_bind (trigger_send send level tr) (\<lambda>_ tr1. perform env (Sleep 5000) tr1) of
        (Inl e, tr2) \<Rightarrow> Some (Inl e, tr2)
      | (Inr _, tr2) \<Rightarrow> trigger_loop env send fuel level tr2)"

datatype trigger_mode = Heartbeats | NotifyLoop | NotifyOnce

text \<open>
  The command line's two flags give the mode (\<open>--heartbeat\<close> wins); the heartbeat loop treats
  KeyboardInterrupt as its normal end, the other modes let it through; \<open>finally\<close> closes the
  transport in all three.
\<close>

definition trigger_main ::
  "env \<Rightarrow> bool \<Rightarrow> nat \<Rightarrow> trigger_mode \<Rightarrow> int \<Rightarrow> string \<Rightarrow> string \<Rightarrow> string \<Rightarrow> trace \<Rightarrow> (unit res \<times> trace) option" where
  "trigger_main env have_pyserial fuel mode level transport_name dest uart_port tr =
     (case create_transport env have_pyserial transport_name dest SOMEIP_PORT (Some uart_port) tr of
        (Inl e, tr1) \<Rightarrow> Some (Inl e, tr1)
      | (Inr t, tr1) \<Rightarrow>
          map_option (\<lambda>out. io_finally out (transport_close env t))
            (case mode of
               Heartbeats \<Rightarrow>
                 map_option (\<lambda>(r, tr2). (if r = Inl KeyboardInterrupt then Inr () else r, tr2))
                   (trigger_heartbeats env (transport_send env t) fuel 0 tr1)
             | NotifyLoop \<Rightarrow> trigger_loop env (transport_send env t) fuel level tr1
             | NotifyOnce \<Rightarrow> Some (trigger_send (transport_send env t) level tr1)))"

section \<open>pc_sim_test.py\<close>

text \<open>One pass of \<open>event_sender\<close> (the wait on the stop event is not an operation of the trace).\<close>

definition event_sender_pass ::
  "(bytes \<Rightarrow> trace \<Rightarrow> unit res \<times> trace) \<Rightarrow> int \<Rightarrow> trace \<Rightarrow> int res \<times> trace" where
  "event_sender_pass send session tr =
     (let level = 30 + session mod 70 in
      io_bind (send_notify send level session tr) (\<lambda>_ tr1.
      io_bind (send_heartbeat send session session tr1) (\<lambda>_ tr2.
        (Inr (session mod 0xFFFF + 1), tr2))))"

fun event_sender :: "(bytes \<Rightarrow> trace \<Rightarrow> unit res \<times> trace) \<Rightarrow> nat \<Rightarrow> int \<Rightarrow> trace \<Rightarrow> int res \<times> trace" where
  "event_sender send 0 session tr = (Inr session, tr)"
| "event_sender send (Suc n) session tr =
     io_bind (event_sender_pass send session tr) (\<lambda>session1 tr1. event_sender send n session1 tr1)"

text \<open>
  \<open>main\<close>, on what running the simulator gives: both threads are started before it and
  told to stop after it, on every path; the exit code is 0 only for a simulator that exits
  with 0.
\<close>

datatype sim_outcome = Exited int | TimeoutExpired | RunFailed py_error

definition pc_sim_main :: "env \<Rightarrow> bool \<Rightarrow> sim_outcome \<Rightarrow> trace \<Rightarrow> int res \<times> trace" where
  "pc_sim_main env sim_exists outcome tr =
     (if \<not> sim_exists then (Inr 1, tr)
      else
        io_bind (perform env (ThreadStart ''someip-sd'') tr) (\<lambda>_ tr1.
        io_bind (perform env (ThreadStart ''mpu-event-sender'') tr1) (\<lambda>_ tr2.
        io_bind (io_finally
            (case outcome of
               Exited returncode \<Rightarrow> (Inr (if returncode \<noteq> 0 then 1 else 0), tr2)
             | TimeoutExpired \<Rightarrow> (Inr 1, tr2)
             | RunFailed e \<Rightarrow> (Inl e, tr2))
            (\<lambda>tr3. io_bind (perform env (OtherCall ''stop_events.set'') tr3) (\<lambda>_ tr4.
              perform env (OtherCall ''sd_server.stop'') tr4))) (\<lambda>failures tr5.
          (Inr (if failures = (0 :: int) then 0 else 1), tr5)))))"

section \<open>Lemmas\<close>

text \<open>Hexadecimal text determines the bytes.\<close>

lemma hex_digit_code:
  assumes "0 \<le> d" "d < 16"
  shows "(of_char (hex_digit d) :: nat) = nat (if d < 10 then 48 + d else 55 + d)"
proof -
  have "nat (if d < 10 then 48 + d else 55 + d) < 256" using assms by (simp add: nat_less_iff)
  then show ?thesis by (simp only: hex_digit_def of_char_of mod_less)
qed

lemma hex_digit_inj:
  assumes "0 \<le> x" "x < 16" "0 \<le> y" "y < 16" "hex_digit x = hex_digit y"
  shows "x = y"
proof -
  have "nat (if x < 10 then 48 + x else 55 + x) = nat (if y < 10 then 48 + y else 55 + y)"
    using hex_digit_code [OF assms(1,2)] hex_digit_code [OF assms(3,4)] assms(5) by simp
  with assms(1-4) show ?thesis by (simp add: eq_nat_nat_iff split: if_splits)
qed

lemma nibbles:
  fixes b :: byte
  shows "0 \<le> uint b div 16" "uint b div 16 < 16" "0 \<le> uint b mod 16" "uint b mod 16 < 16"
proof -
  have bounds: "0 \<le> uint b" "uint b < 256" by (rule byte_bounds)+
  then show "0 \<le> uint b div 16" "uint b div 16 < 16" by linarith+
  show "0 \<le> uint b mod 16" "uint b mod 16 < 16" by (rule pos_mod_sign pos_mod_bound, simp)+
qed

lemma hex_byte_inj:
  assumes "hex_byte a = hex_byte b"
  shows "a = b"
proof -
  from assms have d: "hex_digit (uint a div 16) = hex_digit (uint b div 16)"
    and m: "hex_digit (uint a mod 16) = hex_digit (uint b mod 16)" unfolding hex_byte_def by blast+
  have "uint a div 16 = uint b div 16" "uint a mod 16 = uint b mod 16"
    using hex_digit_inj [OF nibbles(1,2) nibbles(1,2) d] hex_digit_inj [OF nibbles(3,4) nibbles(3,4) m] .
  then have "uint a = uint b" by (metis div_mult_mod_eq)
  then show "a = b" by (rule word_uint_eqI)
qed

lemma length_dump_hex: "length (dump_hex bs) = 3 * length bs - 1"
  by (induction bs rule: dump_hex.induct) (simp_all add: hex_byte_def)

lemma dump_hex_inj: "dump_hex as = dump_hex bs \<Longrightarrow> as = bs"
proof (induction as arbitrary: bs rule: dump_hex.induct)
  case 1
  then have "3 * length bs - 1 = 0" using length_dump_hex [of bs] by simp
  then show ?case by (cases bs) simp_all
next
  case (2 a)
  then have "3 * length bs - 1 = 2" using length_dump_hex [of bs] length_dump_hex [of "[a]"] by simp
  then obtain b where "bs = [b]" by (cases bs; cases "tl bs") auto
  with 2 show ?case by (simp add: hex_byte_inj)
next
  case (3 a a' as)
  then have "3 * length bs - 1 = 3 * length (a # a' # as) - 1"
    using length_dump_hex [of bs] length_dump_hex [of "a # a' # as"] by simp
  then have "length bs = Suc (Suc (length as))" by simp
  then obtain b b' bs' where bs: "bs = b # b' # bs'" by (metis length_Suc_conv)
  with "3.prems" have "hex_byte a = hex_byte b" "dump_hex (a' # as) = dump_hex (b' # bs')"
    by (simp_all add: hex_byte_def)
  with "3.IH" bs show ?case by (simp add: hex_byte_inj)
qed

text \<open>The trace of a UART link, and what closing it adds.\<close>

definition port_closed :: "trace \<Rightarrow> bool" where
  "port_closed tr \<longleftrightarrow> (\<exists>ops b. tr = ops @ [(SerialClose, b)])"

lemma uart_close_last:
  assumes "serial t = Some p"
  shows "\<exists>r b. uart_close env t tr = (r, tr @ [(SerialClose, b)])"
  using assms by (auto simp: uart_close_def perform_def split: option.split)

lemma trigger_closes:
  assumes "serial u = Some p" "io_finally out (transport_close env (Uart u)) = (r, tr')"
  shows "port_closed tr'"
proof -
  obtain r0 tr0 where out: "out = (r0, tr0)" by fastforce
  obtain r1 b where "uart_close env u tr0 = (r1, tr0 @ [(SerialClose, b)])"
    using uart_close_last [OF assms(1)] by blast
  with assms(2) out show ?thesis
    by (auto simp: io_finally_def port_closed_def split: sum.splits)
qed

lemma event_sender_pass_runs:
  assumes "\<And>p tr. fst (transport_send env t p tr) = Inr ()" "1 \<le> s" "s \<le> 65535"
  shows "\<exists>tr' n h. event_sender_pass (transport_send env t) s tr = (Inr (s mod 65535 + 1), tr') \<and>
    build_notify (30 + s mod 70) s = Inr n \<and> build_heartbeat s s = Inr h \<and>
    delivered tr' = delivered tr @ [n, h]"
proof -
  obtain n where n: "build_notify (30 + s mod 70) s = Inr n"
    using assms(2,3) by (simp add: build_notify_eq build_packet_eq packable_def)
  obtain h where h: "build_heartbeat s s = Inr h"
    using assms(2,3) by (simp add: build_heartbeat_eq build_packet_eq packable_def)
  obtain tr1 where one: "transport_send env t n tr = (Inr (), tr1)"
    using assms(1) [of n tr] by (metis prod.collapse)
  obtain tr2 where two: "transport_send env t h tr1 = (Inr (), tr2)"
    using assms(1) [of h tr1] by (metis prod.collapse)
  have "delivered tr2 = delivered tr @ [n, h]"
    using any_link.send_returns [OF one] any_link.send_returns [OF two] by simp
  with n h one two show ?thesis
    by (simp add: event_sender_pass_def Let_def send_notify_def send_heartbeat_def io_bind_def io_res_def)
qed

definition nth_session :: "nat \<Rightarrow> int" where
  "nth_session i = int (i mod 65535) + 1"

lemma nth_session_bounds: "1 \<le> nth_session i \<and> nth_session i \<le> 65535"
  using mod_less_divisor [of 65535 i] by (simp add: nth_session_def)

lemma nth_session_Suc: "nth_session i mod 65535 + 1 = nth_session (Suc i)"
proof -
  have "Suc i mod 65535 = (if Suc (i mod 65535) = 65535 then 0 else Suc (i mod 65535))" by (simp only: mod_Suc)
  moreover have "i mod 65535 < 65534 \<or> i mod 65535 = 65534"
    using mod_less_divisor [of 65535 i] by linarith
  ultimately show ?thesis by (auto simp: nth_session_def)
qed

lemma event_sender_runs:
  assumes "\<And>p tr. fst (transport_send env t p tr) = Inr ()"
  shows "\<exists>tr' pkts. event_sender (transport_send env t) n (nth_session k) tr = (Inr (nth_session (k + n)), tr') \<and>
    delivered tr' = delivered tr @ concat pkts \<and> length pkts = n \<and>
    (\<forall>i < n. \<exists>a b. pkts ! i = [a, b] \<and> build_notify (30 + nth_session (k + i) mod 70) (nth_session (k + i)) = Inr a \<and>
       build_heartbeat (nth_session (k + i)) (nth_session (k + i)) = Inr b)"
proof (induction n arbitrary: k tr)
  case (Suc n)
  obtain tr1 a b where one: "event_sender_pass (transport_send env t) (nth_session k) tr = (Inr (nth_session (Suc k)), tr1)"
    "build_notify (30 + nth_session k mod 70) (nth_session k) = Inr a"
    "build_heartbeat (nth_session k) (nth_session k) = Inr b" "delivered tr1 = delivered tr @ [a, b]"
    using event_sender_pass_runs [OF assms, of "nth_session k" tr] nth_session_bounds [of k]
    unfolding nth_session_Suc by blast
  obtain tr' pkts where rest:
    "event_sender (transport_send env t) n (nth_session (Suc k)) tr1 = (Inr (nth_session (Suc k + n)), tr')"
    "delivered tr' = delivered tr1 @ concat pkts" "length pkts = n"
    "\<forall>i < n. \<exists>a b. pkts ! i = [a, b] \<and>
       build_notify (30 + nth_session (Suc k + i) mod 70) (nth_session (Suc k + i)) = Inr a \<and>
       build_heartbeat (nth_session (Suc k + i)) (nth_session (Suc k + i)) = Inr b"
    using Suc.IH [of "Suc k" tr1] by blast
  have "\<forall>i < Suc n. \<exists>a' b'. ([a, b] # pkts) ! i = [a', b'] \<and>
       build_notify (30 + nth_session (k + i) mod 70) (nth_session (k + i)) = Inr a' \<and>
       build_heartbeat (nth_session (k + i)) (nth_session (k + i)) = Inr b'"
    using rest(4) one(2,3) by (auto simp: less_Suc_eq_0_disj)
  with one rest show ?case
    by (intro exI [of _ tr'] exI [of _ "[a, b] # pkts"]) (simp add: io_bind_def)
qed simp

section \<open>Properties\<close>

text \<open>
  The trigger program always closes its port.  Over UART, in every mode, whenever
  the program ends (by its loop's end, an error or an interrupt) and the port had opened, the
  last call made is the one that closes it.
\<close>

theorem trigger_main_closes_port:
  assumes "trigger_main env True fuel mode level ''uart'' dest dev tr = Some (r, tr')"
    and "dev \<noteq> []" "env (length tr) = None"
  shows "port_closed tr'"
proof -
  let ?u = "\<lparr>serial = Some (dev, 115200)\<rparr>"
  have "create_transport env True ''uart'' dest SOMEIP_PORT (Some dev) tr =
      (Inr (Uart ?u), tr @ [(SerialOpen dev 115200, True)])"
    using assms(2,3) by (simp add: create_transport_def uart_init_def io_bind_def perform_def)
  with assms(1) obtain out where "io_finally out (transport_close env (Uart ?u)) = (r, tr')"
    by (auto simp: trigger_main_def map_option_eq_Some)
  then show ?thesis by (rule trigger_closes [rotated]) simp
qed

theorem trigger_main_closes_port_witness:
  "\<exists>r tr'. trigger_main (\<lambda>i. if i = 2 then Some KeyboardInterrupt else None) True 1 Heartbeats 0 ''uart'' [] ''/dev/ttyS0'' [] =
     Some (r, tr') \<and> port_closed tr'"
proof -
  let ?env = "\<lambda>i :: nat. if i = 2 then Some KeyboardInterrupt else None"
  have "\<exists>r tr'. trigger_main ?env True 1 Heartbeats 0 ''uart'' [] ''/dev/ttyS0'' [] = Some (r, tr')"
    by (simp add: trigger_main_def create_transport_def uart_init_def uart_send_def build_heartbeat_packet
        io_bind_def io_res_def perform_def)
  then obtain r tr' where run: "trigger_main ?env True 1 Heartbeats 0 ''uart'' [] ''/dev/ttyS0'' [] = Some (r, tr')"
    by blast
  from trigger_main_closes_port [OF run] run show ?thesis by simp
qed

text \<open>
  The event sender of the PC simulation.  Over UDP with nothing failing, pass \<open>i\<close>
  sends a notification and a heartbeat with session \<open>i mod 65535 + 1\<close>; they are read back
  with a level from 30 to 99 and with the session modulo 256 as the counter.
\<close>

theorem event_sender_sequence:
  assumes "0 \<le> udp_port u" "udp_port u \<le> 65535"
    and "event_sender (transport_send (\<lambda>_. None) (Udp u)) n 1 tr = (r, tr')"
  shows "r = Inr (int (n mod 65535) + 1) \<and>
    (\<exists>pkts. delivered tr' = delivered tr @ concat pkts \<and> length pkts = n \<and>
      (\<forall>i < n. \<exists>a b level counter. pkts ! i = [a, b] \<and> parse_event a = Inr (EVENT_NOTIFY, [level]) \<and>
         30 \<le> uint level \<and> uint level \<le> 99 \<and> from_be (py_slice a 10 12) = int (i mod 65535) + 1 \<and>
         parse_event b = Inr (EVENT_HEARTBEAT, [counter]) \<and> uint counter = (int (i mod 65535) + 1) mod 256))"
proof -
  have send: "fst (transport_send (\<lambda>_. None) (Udp u) p tr) = Inr ()" for p tr
    using assms(1,2) by (simp add: udp_send_cases sendto_def perform_def)
  from event_sender_runs [OF send, of n 0 tr] obtain tr1 pkts where run:
    "event_sender (transport_send (\<lambda>_. None) (Udp u)) n (nth_session 0) tr = (Inr (nth_session n), tr1)"
    "delivered tr1 = delivered tr @ concat pkts" "length pkts = n"
    "\<forall>i < n. \<exists>a b. pkts ! i = [a, b] \<and> build_notify (30 + nth_session i mod 70) (nth_session i) = Inr a \<and>
       build_heartbeat (nth_session i) (nth_session i) = Inr b" by auto
  have zero: "nth_session 0 = 1" by (simp add: nth_session_def)
  with run(1) assms(3) have end_state: "r = Inr (nth_session n)" "tr' = tr1" by simp_all
  have "\<exists>a b level counter. pkts ! i = [a, b] \<and> parse_event a = Inr (EVENT_NOTIFY, [level]) \<and>
         30 \<le> uint level \<and> uint level \<le> 99 \<and> from_be (py_slice a 10 12) = nth_session i \<and>
         parse_event b = Inr (EVENT_HEARTBEAT, [counter]) \<and> uint counter = nth_session i mod 256" if "i < n" for i
  proof -
    from run(4) that obtain a b where ab: "pkts ! i = [a, b]"
      "build_notify (30 + nth_session i mod 70) (nth_session i) = Inr a"
      "build_heartbeat (nth_session i) (nth_session i) = Inr b" by blast
    let ?level = "word_of_int (30 + nth_session i mod 70) :: byte" and ?counter = "word_of_int (nth_session i) :: byte"
    have "0 \<le> nth_session i mod 70" "nth_session i mod 70 < 70" by simp_all
    then have small: "0 \<le> 30 + nth_session i mod 70" "30 + nth_session i mod 70 < 256" by linarith+
    have "uint ?level = 30 + nth_session i mod 70"
      using uint_byte [of "30 + nth_session i mod 70"] mod_pos_pos_trivial [OF small] by (simp only:)
    then have level: "30 \<le> uint ?level" "uint ?level \<le> 99"
      using pos_mod_bound [of 70 "nth_session i"] pos_mod_sign [of 70 "nth_session i"] by linarith+
    have p: "parse_event a = Inr (EVENT_NOTIFY, [?level])" "parse_event b = Inr (EVENT_HEARTBEAT, [?counter])"
      using parse_event_built [OF ab(2) [unfolded build_notify_eq]]
        parse_event_built [OF ab(3) [unfolded build_heartbeat_eq]] by simp_all
    have "packable EVENT_NOTIFY 1 (nth_session i)" using nth_session_bounds [of i] by (simp add: packable_def)
    then have "from_be (py_slice a 10 12) = nth_session i"
      using ab(2) nth_session_bounds [of i]
      by (auto simp: build_notify_eq build_packet_eq event_header_session)
    with ab(1) level p show ?thesis by (auto simp: uint_byte)
  qed
  then show ?thesis using end_state run(2,3) unfolding nth_session_def by blast
qed

theorem event_sender_sequence_witness:
  "\<exists>r tr'. event_sender (transport_send (\<lambda>_. None) (Udp \<lparr>udp_host = ''127.0.0.1'', udp_port = 30490\<rparr>)) 2 1 [] = (r, tr') \<and>
     r = Inr 3"
proof -
  let ?t = "Udp \<lparr>udp_host = ''127.0.0.1'', udp_port = 30490\<rparr>"
  obtain r tr' where run: "event_sender (transport_send (\<lambda>_. None) ?t) 2 1 [] = (r, tr')" by fastforce
  from event_sender_sequence [OF _ _ run] run show ?thesis by simp
qed

end
