(* ===== verification/Demo_Files.thy ===== *)
theory Demo_Files
  imports Crc8 Test_Tools Inet
begin

text \<open>
  The generator of demonstration files \<open>scripts/generate_demos.py\<close>: a packet capture of
  SOME/IP packets in synthetic Ethernet, IPv4 and UDP headers, and a log of the CAN frames
  the MCU would send, beside \<open>can_send_frame\<close> of \<open>MCU/src/can_gateway.cpp\<close>, which the script
  mirrors.  Time stamps come from the clock: they are parameters, as seconds and microseconds
  for the capture and as text for the log.
\<close>

section \<open>Packet capture\<close>

text \<open>\<open>bytes(int(x) for x in ip.split('.'))\<close>: each number is checked as it is produced.\<close>

fun address_of_parts :: "string list \<Rightarrow> bytes res" where
  "address_of_parts [] = Inr []"
| "address_of_parts (x # xs) =
     res_bind (py_int x) (\<lambda>i.
     res_bind (py_bytes [i]) (\<lambda>b.
     res_bind (address_of_parts xs) (\<lambda>bs. Inr (b @ bs))))"

definition make_udp_payload :: "bytes \<Rightarrow> string \<Rightarrow> string \<Rightarrow> int \<Rightarrow> int \<Rightarrow> bytes res" where
  "make_udp_payload packet src_ip dst_ip src_port dst_port =
     res_bind (struct_pack Big [UInt 2 0x0800]) (\<lambda>ethertype.
       let eth = replicate 6 0 @ replicate 6 0 @ ethertype;
           ip_total = 20 + 8 + int (length packet) in
       res_bind (address_of_parts (split_dots src_ip)) (\<lambda>src.
       res_bind (address_of_parts (split_dots dst_ip)) (\<lambda>dst.
       res_bind (struct_pack Big
         [UInt 1 0x45, UInt 1 0, UInt 2 ip_total, UInt 2 0, UInt 2 0, UInt 1 64, UInt 1 17, UInt 2 0,
          Chars 4 src, Chars 4 dst]) (\<lambda>ip.
       let udp_len = 8 + int (length packet) in
       res_bind (struct_pack Big [UInt 2 src_port, UInt 2 dst_port, UInt 2 udp_len, UInt 2 0]) (\<lambda>udp.
         Inr (eth @ ip @ udp @ packet))))))"

fun pcap_records :: "(nat \<Rightarrow> int \<times> int) \<Rightarrow> nat \<Rightarrow> bytes list \<Rightarrow> bytes res" where
  "pcap_records stamp i [] = Inr []"
| "pcap_records stamp i (frame # frames) =
     (case stamp i of (sec, usec) \<Rightarrow>
        res_bind (struct_pack Little
          [UInt 4 sec, UInt 4 usec, UInt 4 (int (length frame)), UInt 4 (int (length frame))]) (\<lambda>head.
        res_bind (pcap_records stamp (Suc i) frames) (\<lambda>rest. Inr (head @ frame @ rest))))"

definition write_pcap :: "(nat \<Rightarrow> int \<times> int) \<Rightarrow> bytes list \<Rightarrow> bytes res" where
  "write_pcap stamp frames =
     res_bind (struct_pack Little
       [UInt 4 0xa1b2c3d4, UInt 2 2, UInt 2 4, SInt 4 0, UInt 4 0, UInt 4 65535, UInt 4 101]) (\<lambda>head.
     res_bind (pcap_records stamp 0 frames) (\<lambda>rest. Inr (head @ rest)))"

text \<open>The frames of \<open>main\<close>: pass \<open>i\<close> with its running counter.\<close>

fun demo_frames :: "nat list \<Rightarrow> int \<Rightarrow> bytes list res" where
  "demo_frames [] counter = Inr []"
| "demo_frames (i # is) counter =
     res_bind (if i < 25 then build_heartbeat counter 1
               else build_notify (min (50 + (int i - 25) * 10) 100) 1) (\<lambda>pkt.
     res_bind (make_udp_payload pkt ''192.168.7.1'' ''192.168.7.2'' 30490 30490) (\<lambda>frame.
     res_bind (demo_frames is ((counter + 1) AND 0xFF)) (\<lambda>frames. Inr (frame # frames))))"

definition demo_pcap :: "(nat \<Rightarrow> int \<times> int) \<Rightarrow> bytes res" where
  "demo_pcap stamp = res_bind (demo_frames [0..<40] 0) (write_pcap stamp)"

section \<open>CAN log\<close>

definition sim_can_frame :: "int \<Rightarrow> int \<Rightarrow> bytes" where
  "sim_can_frame level counter =
     (let data = map word_of_int [0x55, 0xAA, 0x01, level AND 0xFF, 0x00, 0x00, 0x00, counter AND 0xFF]
      in data[6 := word_of_int (crc8 (take 6 data))])"

text \<open>The log's frames, in order, and its text (\<open>stamp i\<close> is the formatted time of line \<open>i\<close>).\<close>

definition candump_level :: "nat \<Rightarrow> int" where
  "candump_level i = (if i < 20 then 0x00 else min (50 + (int i - 20) * 5) 100)"

definition candump_frames :: "nat \<Rightarrow> bytes list" where
  "candump_frames count = map (\<lambda>i. sim_can_frame (candump_level i) (int i)) [0..<count]"

fun join_lines :: "string list \<Rightarrow> string" where
  "join_lines [] = []"
| "join_lines [l] = l"
| "join_lines (l # ls) = l @ [CHR 0x0A] @ join_lines ls"

definition candump_log :: "(nat \<Rightarrow> string) \<Rightarrow> nat \<Rightarrow> string" where
  "candump_log stamp count =
     join_lines (map (\<lambda>(i, frame). ''('' @ stamp i @ '')  can0  18FF01F4   ['' @ dec_byte (length frame) @ ''] '' @ dump_hex frame)
       (enumerate 0 (candump_frames count))) @ [CHR 0x0A]"

section \<open>The MCU's frame\<close>

text \<open>
  \<open>can_send_frame\<close>: the data bytes of the frame and the static \<open>alive_counter\<close> afterwards,
  which wraps at 256 and advances whether or not \<open>can_send\<close> succeeds.
\<close>

definition can_send_frame :: "byte \<Rightarrow> byte \<Rightarrow> bytes \<times> byte" where
  "can_send_frame alive_counter level =
     (let d0 = replicate 8 0;
          d1 = d0[0 := 0x55, 1 := 0xAA, 2 := 0x01, 3 := level, 4 := 0x00, 5 := 0x00];
          d2 = d1[6 := e2e_crc8 (take 6 d1)]
      in (d2[7 := alive_counter], alive_counter + 1))"

fun can_send_frames :: "byte \<Rightarrow> byte list \<Rightarrow> bytes list" where
  "can_send_frames alive_counter [] = []"
| "can_send_frames alive_counter (level # levels) =
     (case can_send_frame alive_counter level of
        (data, alive_counter1) \<Rightarrow> data # can_send_frames alive_counter1 levels)"

section \<open>Reading a capture back\<close>

text \<open>A reader of the classic capture format, as its documentation describes it.\<close>

definition from_le :: "bytes \<Rightarrow> int" where
  "from_le bs = from_be (rev bs)"

function read_records :: "bytes \<Rightarrow> ((int \<times> int) \<times> bytes) list option" where
  "read_records bs =
     (if bs = [] then Some []
      else if length bs < 16 then None
      else
        let n = nat (from_le (py_slice bs 8 12)) in
        if length bs < 16 + n then None
        else map_option (\<lambda>rest. ((from_le (take 4 bs), from_le (py_slice bs 4 8)), py_slice bs 16 (16 + n)) # rest)
               (read_records (drop (16 + n) bs)))"
  by pat_completeness auto
termination by (relation "measure length") auto

declare read_records.simps [simp del]

definition read_pcap :: "bytes \<Rightarrow> (int \<times> ((int \<times> int) \<times> bytes) list) option" where
  "read_pcap bs =
     (if length bs < 24 \<or> from_le (take 4 bs) \<noteq> 0xa1b2c3d4 then None
      else map_option (\<lambda>records. (from_le (py_slice bs 20 24), records)) (read_records (drop 24 bs)))"

section \<open>Lemmas\<close>

lemma from_le_pack: "0 \<le> v \<Longrightarrow> v < 256 ^ n \<Longrightarrow> from_le (rev (be_bytes n v)) = v"
  by (simp add: from_le_def)

definition stamp_ok :: "int \<times> int \<Rightarrow> bool" where
  "stamp_ok s \<longleftrightarrow> 0 \<le> fst s \<and> fst s < 4294967296 \<and> 0 \<le> snd s \<and> snd s < 4294967296"

definition record_head :: "int \<times> int \<Rightarrow> nat \<Rightarrow> bytes" where
  "record_head s n = rev (be_bytes 4 (fst s)) @ rev (be_bytes 4 (snd s)) @
     rev (be_bytes 4 (int n)) @ rev (be_bytes 4 (int n))"

lemma length_record_head [simp]: "length (record_head s n) = 16"
  by (simp add: record_head_def)

lemma pcap_records_Cons:
  assumes "stamp_ok (stamp i)" "int (length frame) < 4294967296"
  shows "pcap_records stamp i (frame # frames) =
    res_bind (pcap_records stamp (Suc i) frames) (\<lambda>rest. Inr (record_head (stamp i) (length frame) @ frame @ rest))"
  using assms
  by (auto simp: record_head_def stamp_ok_def order_bytes_def split: prod.split)

lemma read_records_Cons:
  assumes "stamp_ok s" "int (length frame) < 4294967296"
  shows "read_records (record_head s (length frame) @ frame @ rest) =
    map_option (\<lambda>rs. (s, frame) # rs) (read_records rest)"
proof -
  let ?bs = "record_head s (length frame) @ frame @ rest"
  have fields: "take 4 ?bs = rev (be_bytes 4 (fst s))" "py_slice ?bs 4 8 = rev (be_bytes 4 (snd s))"
    "py_slice ?bs 8 12 = rev (be_bytes 4 (int (length frame)))"
    by (simp_all add: record_head_def py_slice_def)
  have n: "nat (from_le (py_slice ?bs 8 12)) = length frame"
    using assms(2) by (simp add: fields from_le_pack)
  have "from_le (take 4 ?bs) = fst s" "from_le (py_slice ?bs 4 8) = snd s"
    unfolding fields using assms(1) by (simp_all add: stamp_ok_def from_le_pack)
  moreover have "py_slice ?bs 16 (16 + length frame) = frame" "drop (16 + length frame) ?bs = rest"
    by (simp_all add: py_slice_def)
  moreover have "\<not> length ?bs < 16" "\<not> length ?bs < 16 + length frame" by simp_all
  moreover have "?bs \<noteq> []" using length_record_head [of s "length frame"] by (metis append_is_Nil_conv list.size(3) zero_neq_numeral)
  ultimately show ?thesis
    unfolding read_records.simps [of ?bs] Let_def n by (simp only: if_False prod.collapse)
qed

lemma pcap_records_read:
  assumes "\<And>i. stamp_ok (stamp i)" "\<forall>f \<in> set frames. int (length f) < 4294967296"
  shows "\<exists>bs. pcap_records stamp k frames = Inr bs \<and>
    read_records bs = Some (zip (map stamp [k..<k + length frames]) frames)"
  using assms(2)
proof (induction frames arbitrary: k)
  case Nil
  then show ?case by (simp add: read_records.simps)
next
  case (Cons frame frames)
  then obtain bs where bs: "pcap_records stamp (Suc k) frames = Inr bs"
    "read_records bs = Some (zip (map stamp [Suc k..<Suc k + length frames]) frames)"
    using Cons.IH [of "Suc k"] by (auto simp del: upt_Suc)
  have len: "int (length frame) < 4294967296" using Cons.prems by simp
  have "[k..<k + length (frame # frames)] = k # [Suc k..<Suc k + length frames]"
    by (simp add: upt_conv_Cons del: upt_Suc)
  then show ?case
    using bs by (simp add: pcap_records_Cons [OF assms(1) len] read_records_Cons [OF assms(1) len]
        del: upt_Suc pcap_records.simps)
qed

lemma write_pcap_reads:
  assumes "\<And>i. stamp_ok (stamp i)" "\<forall>f \<in> set frames. int (length f) < 4294967296"
  shows "\<exists>bs. write_pcap stamp frames = Inr bs \<and>
    read_pcap bs = Some (101, zip (map stamp [0..<length frames]) frames)"
proof -
  obtain rs where rs: "pcap_records stamp 0 frames = Inr rs"
    "read_records rs = Some (zip (map stamp [0..<length frames]) frames)"
    using pcap_records_read [of stamp frames 0, OF assms] by auto
  let ?head = "rev (be_bytes 4 0xa1b2c3d4) @ rev (be_bytes 2 2) @ rev (be_bytes 2 4) @ rev (be_bytes 4 0) @
    rev (be_bytes 4 0) @ rev (be_bytes 4 65535) @ rev (be_bytes 4 101)"
  have "write_pcap stamp frames = Inr (?head @ rs)"
    using rs(1) by (simp add: write_pcap_def order_bytes_def)
  moreover have "take 4 (?head @ rs) = rev (be_bytes 4 0xa1b2c3d4)" "py_slice (?head @ rs) 20 24 = rev (be_bytes 4 101)"
    "drop 24 (?head @ rs) = rs" "\<not> length (?head @ rs) < 24"
    by (simp_all add: py_slice_def)
  then have "read_pcap (?head @ rs) = Some (101, zip (map stamp [0..<length frames]) frames)"
    using rs(2) by (simp only: read_pcap_def) (simp add: from_le_pack)
  ultimately show ?thesis by blast
qed

text \<open>The headers of a frame.\<close>

definition four_bytes :: "bytes \<Rightarrow> bytes" where
  "four_bytes bs = take 4 bs @ replicate (4 - length bs) 0"

lemma length_four_bytes [simp]: "length (four_bytes bs) = 4"
  by (simp add: four_bytes_def)

definition udp_frame :: "bytes \<Rightarrow> bytes \<Rightarrow> bytes \<Rightarrow> int \<Rightarrow> int \<Rightarrow> bytes" where
  "udp_frame packet src dst src_port dst_port =
     replicate 12 0 @ [8, 0] @
     [0x45, 0] @ be_bytes 2 (28 + int (length packet)) @ [0, 0, 0, 0, 64, 17, 0, 0] @
     four_bytes src @ four_bytes dst @
     be_bytes 2 src_port @ be_bytes 2 dst_port @ be_bytes 2 (8 + int (length packet)) @ [0, 0] @ packet"

lemma make_udp_payload_eq:
  "make_udp_payload packet src_ip dst_ip sp dp =
     res_bind (address_of_parts (split_dots src_ip)) (\<lambda>src.
     res_bind (address_of_parts (split_dots dst_ip)) (\<lambda>dst.
       if length packet \<le> 65507 \<and> 0 \<le> sp \<and> sp < 65536 \<and> 0 \<le> dp \<and> dp < 65536
       then Inr (udp_frame packet src dst sp dp) else Inl StructError))"
proof -
  have const: "pack_field Big (UInt 2 2048) = Inr [8, 0]" "pack_field Big (UInt (Suc 0) 69) = Inr [0x45]"
    "pack_field Big (UInt (Suc 0) 0) = Inr [0]" "pack_field Big (UInt 2 0) = Inr [0, 0]"
    "pack_field Big (UInt (Suc 0) 64) = Inr [64]" "pack_field Big (UInt (Suc 0) 17) = Inr [17]"
    "pack_field Big (Chars 4 bs) = Inr (four_bytes bs)" for bs
    by (simp_all add: order_bytes_def be_bytes_2 four_bytes_def)
  have short: "pack_field Big (UInt 2 v) = (if 0 \<le> v \<and> v < 65536 then Inr (be_bytes 2 v) else Inl StructError)" for v
    by (simp add: order_bytes_def)
  have zeros: "replicate 6 (0 :: byte) @ replicate 6 0 = replicate 12 0" by (simp flip: replicate_add)
  have fixed: "be_bytes 2 2048 = [8, 0]" "be_bytes 2 0 = [0, 0]" by (simp_all add: be_bytes_2)
  show ?thesis
    by (cases "address_of_parts (split_dots src_ip)"; cases "address_of_parts (split_dots dst_ip)")
      (auto simp: make_udp_payload_def udp_frame_def const short fixed Let_def zeros [symmetric] simp del: pack_field.simps)
qed

lemma sample_addresses:
  "address_of_parts (split_dots ''192.168.7.1'') = Inr [192, 168, 7, 1]"
  "address_of_parts (split_dots ''192.168.7.2'') = Inr [192, 168, 7, 2]"
  by code_simp+

text \<open>The frames of \<open>main\<close>: 24-byte packets, hence 66-byte frames.\<close>

definition demo_packet :: "nat \<Rightarrow> int \<Rightarrow> bytes" where
  "demo_packet i c = (if i < 25 then heartbeat_packet c else notify_packet (min (50 + (int i - 25) * 10) 100))"

lemma length_demo_packet: "length (demo_packet i c) = 24"
  by (simp add: demo_packet_def heartbeat_packet_def notify_packet_def)

definition demo_frame :: "bytes \<Rightarrow> bytes" where
  "demo_frame pkt = udp_frame pkt [192, 168, 7, 1] [192, 168, 7, 2] 30490 30490"

lemma demo_frames_upt:
  "k + n \<le> 256 \<Longrightarrow> demo_frames [k..<k + n] (int k) = Inr (map (\<lambda>i. demo_frame (demo_packet i (int i))) [k..<k + n])"
proof (induction n arbitrary: k)
  case (Suc n)
  have upt: "[k..<k + Suc n] = k # [Suc k..<Suc k + n]" by (simp add: upt_conv_Cons del: upt_Suc)
  have frame: "make_udp_payload (demo_packet i c) ''192.168.7.1'' ''192.168.7.2'' 30490 30490 =
      Inr (demo_frame (demo_packet i c))" for i c
    unfolding make_udp_payload_eq sample_addresses by (simp add: demo_frame_def length_demo_packet)
  have pkt: "(if k < 25 then build_heartbeat (int k) 1 else build_notify (min (50 + (int k - 25) * 10) 100) 1) =
      Inr (demo_packet k (int k))"
    by (simp add: demo_packet_def build_heartbeat_packet build_notify_packet)
  show ?case
  proof (cases n)
    case 0
    then show ?thesis using pkt frame [of k "int k"] by simp
  next
    case (Suc m)
    with Suc.prems have "(int k + 1) AND 255 = int (Suc k)" by (simp add: and_255_mod)
    with Suc.IH [of "Suc k"] Suc.prems pkt frame show ?thesis unfolding upt by (simp del: upt_Suc)
  qed
qed simp

text \<open>The two frame builders, byte by byte.\<close>

lemma can_send_frame_eq:
  "can_send_frame c l = ([0x55, 0xAA, 0x01, l, 0, 0, e2e_crc8 [0x55, 0xAA, 0x01, l, 0, 0], c], c + 1)"
  by (simp add: can_send_frame_def Let_def eval_nat_numeral)

lemma sim_can_frame_eq: "sim_can_frame level counter = fst (can_send_frame (word_of_int counter) (word_of_int level))"
  by (simp add: sim_can_frame_def can_send_frame_eq Let_def crc8_uint eval_nat_numeral)

lemma can_send_frames_upt:
  "can_send_frames (word_of_int (int k)) (map f [k..<k + n]) =
     map (\<lambda>i. fst (can_send_frame (word_of_int (int i)) (f i))) [k..<k + n]"
proof (induction n arbitrary: k)
  case (Suc n)
  have upt: "[k..<k + Suc n] = k # [Suc k..<Suc k + n]" by (simp add: upt_conv_Cons del: upt_Suc)
  have "(word_of_int (int k) :: byte) + 1 = word_of_int (int (Suc k))"
    using wi_hom_add [of "int k" 1, where ?'a = 8] by (simp add: add.commute)
  with Suc.IH [of "Suc k"] show ?case unfolding upt by (simp add: can_send_frame_eq add.commute del: upt_Suc)
qed simp

text \<open>The receiver's check of a frame: byte 6 is the checksum of bytes 0 to 5.\<close>

definition can_frame_valid :: "bytes \<Rightarrow> bool" where
  "can_frame_valid frame \<longleftrightarrow> length frame = 8 \<and> frame ! 6 = e2e_crc8 (take 6 frame)"

lemma take_update_split:
  assumes "k < n" "n \<le> length xs"
  shows "take n (xs[k := x]) = take k xs @ [x] @ py_slice xs (Suc k) n"
proof -
  from assms obtain m where m: "n - k = Suc m" "n - Suc k = m" by (metis Suc_diff_Suc)
  show ?thesis using assms m by (simp add: upd_conv_take_nth_drop py_slice_def min_def)
qed

text \<open>Building the capture does not fail while the time fits its fields.\<close>

lemma demo_pcap_built:
  assumes "\<And>i. stamp_ok (stamp i)"
  shows "\<exists>bs. demo_pcap stamp = Inr bs"
proof -
  let ?frames = "map (\<lambda>i. demo_frame (demo_packet i (int i))) [0..<40]"
  have frames: "demo_frames [0..<40] 0 = Inr ?frames" using demo_frames_upt [of 0 40] by (simp del: upt_Suc)
  have "\<forall>f \<in> set ?frames. int (length f) < 4294967296"
    by (simp add: demo_frame_def udp_frame_def length_demo_packet del: upt_Suc)
  from write_pcap_reads [of stamp, OF assms this] show ?thesis
    by (auto simp: demo_pcap_def frames simp del: upt_Suc)
qed

section \<open>Properties\<close>

text \<open>
  The synthetic frames.  When make_udp_payload returns, the frame is the packet behind
  42 bytes of headers: the IPv4 total length and the UDP length agree with the sizes, the
  ports are those given, and the packet is unchanged; with acceptable addresses it returns
  exactly when the packet has at most 65507 bytes and both ports fit 16 bits.
\<close>

theorem make_udp_payload_headers:
  assumes "address_of_parts (split_dots src_ip) = Inr src" "address_of_parts (split_dots dst_ip) = Inr dst"
  shows "case make_udp_payload packet src_ip dst_ip src_port dst_port of
      Inr frame \<Rightarrow> length frame = 42 + length packet \<and> drop 42 frame = packet \<and>
        from_be (py_slice frame 12 14) = 0x0800 \<and>
        from_be (py_slice frame 16 18) = int (length frame) - 14 \<and>
        from_be (py_slice frame 34 36) = src_port \<and> from_be (py_slice frame 36 38) = dst_port \<and>
        from_be (py_slice frame 38 40) = int (length frame) - 34
    | Inl e \<Rightarrow> e = StructError \<and>
        (65507 < length packet \<or> src_port < 0 \<or> 65535 < src_port \<or> dst_port < 0 \<or> 65535 < dst_port)"
proof (cases "length packet \<le> 65507 \<and> 0 \<le> src_port \<and> src_port < 65536 \<and> 0 \<le> dst_port \<and> dst_port < 65536")
  case True
  let ?f = "udp_frame packet src dst src_port dst_port"
  have slices: "py_slice ?f 12 14 = [8, 0]" "py_slice ?f 16 18 = be_bytes 2 (28 + int (length packet))"
    "py_slice ?f 34 36 = be_bytes 2 src_port" "py_slice ?f 36 38 = be_bytes 2 dst_port"
    "py_slice ?f 38 40 = be_bytes 2 (8 + int (length packet))" "drop 42 ?f = packet" "length ?f = 42 + length packet"
    by (simp_all add: udp_frame_def py_slice_def)
  have "from_be [8, 0 :: byte] = 2048" by (simp add: from_be_def)
  with True show ?thesis by (simp add: make_udp_payload_eq assms slices)
next
  case False
  then show ?thesis by (auto simp: make_udp_payload_eq assms)
qed

theorem make_udp_payload_headers_witness:
  "\<exists>frame. make_udp_payload [1, 2, 3] ''192.168.7.1'' ''192.168.7.2'' 30490 30490 = Inr frame \<and>
     length frame = 45 \<and> from_be (py_slice frame 16 18) = 31"
proof -
  obtain frame where frame: "make_udp_payload [1, 2, 3] ''192.168.7.1'' ''192.168.7.2'' 30490 30490 = Inr frame"
    unfolding make_udp_payload_eq sample_addresses by simp
  from make_udp_payload_headers [OF sample_addresses, of "[1, 2, 3]" 30490 30490] frame show ?thesis by simp
qed

text \<open>
  The capture file round trips.  For any time stamps that fit 32 bits and frames that
  fit 32-bit lengths, a reader of the capture format finds link type 101 and every frame with
  its stamp, in order.
\<close>

theorem read_write_pcap:
  assumes "\<And>i. stamp_ok (stamp i)" "\<forall>f \<in> set frames. int (length f) < 4294967296"
  shows "\<exists>bs. write_pcap stamp frames = Inr bs \<and>
    read_pcap bs = Some (101, zip (map stamp [0..<length frames]) frames)"
  by (rule write_pcap_reads [of stamp, OF assms])

theorem read_write_pcap_witness:
  "\<exists>bs. write_pcap (\<lambda>i. (1786104075, 50000 * int (i mod 20))) [[1, 2], [3]] = Inr bs \<and>
     read_pcap bs = Some (101, [((1786104075, 0), [1, 2]), ((1786104075, 50000), [3])])"
proof -
  have "stamp_ok (1786104075, 50000 * int (i mod 20))" for i
    using mod_less_divisor [of 20 i] by (auto simp: stamp_ok_def)
  from read_write_pcap [of "\<lambda>i. (1786104075, 50000 * int (i mod 20))", OF this, of "[[1, 2], [3]]"]
  show ?thesis by simp
qed

text \<open>
  The demonstration capture is not what its link type says.  The file holds forty
  frames; behind 42 bytes of headers each is the heartbeat or notification of its pass, but
  the frames begin with an Ethernet header of zeros, while link type 101 announces raw IP
  packets: no frame starts with the version nibble 4 or 6.
\<close>

theorem demo_pcap_contents:
  assumes "\<And>i. stamp_ok (stamp i)"
  shows "\<exists>bs frames. demo_pcap stamp = Inr bs \<and> read_pcap bs = Some (101, zip (map stamp [0..<40]) frames) \<and>
    length frames = 40 \<and>
    (\<forall>i < 40. parse_event (drop 42 (frames ! i)) =
       Inr (if i < 25 then (EVENT_HEARTBEAT, [word_of_int (int i)])
            else (EVENT_NOTIFY, [word_of_int (min (50 + (int i - 25) * 10) 100)]))) \<and>
    (\<forall>frame \<in> set frames. uint (frame ! 0) div 16 \<noteq> 4 \<and> uint (frame ! 0) div 16 \<noteq> 6)"
proof -
  let ?frames = "map (\<lambda>i. demo_frame (demo_packet i (int i))) [0..<40]"
  have frames: "demo_frames [0..<40] 0 = Inr ?frames" using demo_frames_upt [of 0 40] by (simp del: upt_Suc)
  have drop: "drop 42 (demo_frame p) = p" and zero: "demo_frame p ! 0 = 0"
    and len: "length (demo_frame (demo_packet i c)) = 66" for p i c
    by (simp_all add: demo_frame_def udp_frame_def nth_append length_demo_packet)
  have parse: "parse_event (drop 42 (?frames ! i)) =
       Inr (if i < 25 then (EVENT_HEARTBEAT, [word_of_int (int i)])
            else (EVENT_NOTIFY, [word_of_int (min (50 + (int i - 25) * 10) 100)]))" if "i < 40" for i
    using that by (simp add: drop demo_packet_def parse_heartbeat_packet parse_notify_packet
        del: upt_Suc EVENT_HEARTBEAT_def EVENT_NOTIFY_def)
  have "\<forall>f \<in> set ?frames. int (length f) < 4294967296" by (simp add: len del: upt_Suc)
  from write_pcap_reads [of stamp, OF assms this] obtain bs where bs: "write_pcap stamp ?frames = Inr bs"
    "read_pcap bs = Some (101, zip (map stamp [0..<40]) ?frames)" by (auto simp del: upt_Suc)
  then have "demo_pcap stamp = Inr bs" by (simp add: demo_pcap_def frames del: upt_Suc)
  moreover note bs(2)
  moreover have "length ?frames = 40" by (simp del: upt_Suc)
  moreover have "\<forall>frame \<in> set ?frames. uint (frame ! 0) div 16 \<noteq> 4 \<and> uint (frame ! 0) div 16 \<noteq> 6"
    by (simp add: zero del: upt_Suc)
  ultimately show ?thesis using parse by blast
qed

theorem demo_pcap_contents_witness:
  "\<exists>bs frames. demo_pcap (\<lambda>i. (1786104075, 0)) = Inr bs \<and> length frames = 40 \<and>
     read_pcap bs = Some (101, zip (map (\<lambda>i. (1786104075, 0)) [0..<40]) frames)"
proof -
  have "stamp_ok (1786104075, 0)" by (simp add: stamp_ok_def)
  from demo_pcap_contents [of "\<lambda>i. (1786104075, 0)", OF this] show ?thesis by blast
qed

text \<open>
  The log is what the MCU would send.  For every length, the frames of the log are those
  of \<open>can_send_frame\<close> called with the scenario's levels from a fresh alive counter: same
  bytes, same checksums, the counter wrapping at 256.
\<close>

theorem candump_matches_mcu:
  "candump_frames count = can_send_frames 0 (map (\<lambda>i. word_of_int (candump_level i)) [0..<count])"
proof -
  have "map (\<lambda>i. fst (can_send_frame (word_of_int (int i)) (word_of_int (candump_level i)))) [0..<count] =
      can_send_frames (word_of_int (int 0)) (map (\<lambda>i. word_of_int (candump_level i)) [0..<0 + count])"
    by (subst can_send_frames_upt) simp
  then show ?thesis by (simp add: candump_frames_def sim_can_frame_eq)
qed

text \<open>
  What the checksum of a CAN frame protects.  A frame passes the check, with any one of
  its first six bytes changed it does not, and with its alive counter changed to anything it
  still does: the counter is outside the checksum.
\<close>

theorem can_frame_protection:
  "can_frame_valid (fst (can_send_frame c l)) \<and>
   (\<forall>k x. k < 6 \<longrightarrow> x \<noteq> fst (can_send_frame c l) ! k \<longrightarrow> \<not> can_frame_valid ((fst (can_send_frame c l))[k := x])) \<and>
   (\<forall>x. can_frame_valid ((fst (can_send_frame c l))[7 := x]))"
proof -
  define d where "d = fst (can_send_frame c l)"
  have d: "length d = 8" "d ! 6 = e2e_crc8 (take 6 d)"
    by (simp_all add: d_def can_send_frame_eq eval_nat_numeral)
  have "\<not> can_frame_valid (d[k := x])" if "k < 6" "x \<noteq> d ! k" for k x
  proof
    assume "can_frame_valid (d[k := x])"
    then have "d ! 6 = e2e_crc8 (take 6 (d[k := x]))" using that(1) by (simp add: can_frame_valid_def)
    moreover have "take 6 d = take k d @ [d ! k] @ py_slice d (Suc k) 6"
      using take_update_split [of k 6 d "d ! k"] that(1) d(1) by simp
    ultimately have "e2e_crc8 (take k d @ [x] @ py_slice d (Suc k) 6) = e2e_crc8 (take k d @ [d ! k] @ py_slice d (Suc k) 6)"
      using d take_update_split [of k 6 d x] that(1) by simp
    then show False using that(2) by (simp only: e2e_crc8_one_byte)
  qed
  moreover have "can_frame_valid d" "can_frame_valid (d[7 := x])" for x
    using d by (simp_all add: can_frame_valid_def)
  ultimately show ?thesis unfolding d_def [symmetric] by blast
qed

theorem can_frame_protection_witness:
  "\<not> can_frame_valid ((fst (can_send_frame 0 0x55))[3 := 0x54]) \<and> can_frame_valid ((fst (can_send_frame 0 0x55))[7 := 9])"
proof -
  have "(0x54 :: byte) \<noteq> fst (can_send_frame 0 0x55) ! 3" by (simp add: can_send_frame_eq)
  moreover have "(3 :: nat) < 6" by simp
  ultimately show ?thesis using can_frame_protection [of 0 "0x55"] by blast
qed

end
