(* ===== verification/Demo_Main.thy ===== *)
theory Demo_Main
  imports Demo_Files
begin

text \<open>
  \<open>scripts/generate_demos.py\<close> as a whole: the files \<open>main\<close> and its two writers leave behind.
  The file system is a map from paths to contents; creating a directory, opening a file and
  reading its size are calls into the environment, which may fail.  \<open>open(path, 'w')\<close> and
  \<open>'wb'\<close> empty the file; what \<open>write_pcap\<close> has written when a field does not fit
  its header is in the file when the block is left.  Writing to an open file does not fail
  here.
\<close>

section \<open>Files\<close>

type_synonym files = "string \<Rightarrow> bytes option"

text \<open>The records written before \<open>struct.pack\<close> raises, if it does.\<close>

fun pcap_written :: "(nat \<Rightarrow> int \<times> int) \<Rightarrow> nat \<Rightarrow> bytes list \<Rightarrow> bytes \<times> unit res" where
  "pcap_written stamp i [] = ([], Inr ())"
| "pcap_written stamp i (frame # frames) =
     (case stamp i of (sec, usec) \<Rightarrow>
        (case struct_pack Little
            [UInt 4 sec, UInt 4 usec, UInt 4 (int (length frame)), UInt 4 (int (length frame))] of
           Inl e \<Rightarrow> ([], Inl e)
         | Inr head \<Rightarrow>
             (case pcap_written stamp (Suc i) frames of (rest, r) \<Rightarrow> (head @ frame @ rest, r))))"

definition write_pcap_file ::
  "env \<Rightarrow> (nat \<Rightarrow> int \<times> int) \<Rightarrow> bytes list \<Rightarrow> string \<Rightarrow> files \<Rightarrow> trace \<Rightarrow> unit res \<times> files \<times> trace" where
  "write_pcap_file env stamp frames path files tr =
     (case perform env (OtherCall ''open'') tr of
        (Inl e, tr1) \<Rightarrow> (Inl e, files, tr1)
      | (Inr _, tr1) \<Rightarrow>
          (case struct_pack Little
              [UInt 4 0xa1b2c3d4, UInt 2 2, UInt 2 4, SInt 4 0, UInt 4 0, UInt 4 65535, UInt 4 101] of
             Inl e \<Rightarrow> (Inl e, files(path \<mapsto> []), tr1)
           | Inr head \<Rightarrow>
               (case pcap_written stamp 0 frames of
                  (rest, r) \<Rightarrow> (r, files(path \<mapsto> head @ rest), tr1))))"

text \<open>The log's lines are formatted before the file is opened.\<close>

definition text_bytes :: "string \<Rightarrow> bytes" where
  "text_bytes s = map (\<lambda>c. of_nat (char_code c)) s"

definition generate_candump_log ::
  "env \<Rightarrow> (nat \<Rightarrow> string) \<Rightarrow> string \<Rightarrow> nat \<Rightarrow> files \<Rightarrow> trace \<Rightarrow> unit res \<times> files \<times> trace" where
  "generate_candump_log env stamp path count files tr =
     (let log = candump_log stamp count in
      case perform env (OtherCall ''open'') tr of
        (Inl e, tr1) \<Rightarrow> (Inl e, files, tr1)
      | (Inr _, tr1) \<Rightarrow> (Inr (), files(path \<mapsto> text_bytes log), tr1))"

text \<open>Sequencing over files and trace.\<close>

definition file_bind ::
  "unit res \<times> files \<times> trace \<Rightarrow> (files \<Rightarrow> trace \<Rightarrow> unit res \<times> files \<times> trace) \<Rightarrow> unit res \<times> files \<times> trace" where
  "file_bind m f = (case m of (Inl e, files, tr) \<Rightarrow> (Inl e, files, tr) | (Inr _, files, tr) \<Rightarrow> f files tr)"

definition file_call :: "env \<Rightarrow> string \<Rightarrow> files \<Rightarrow> trace \<Rightarrow> unit res \<times> files \<times> trace" where
  "file_call env name files tr = (case perform env (OtherCall name) tr of (r, tr1) \<Rightarrow> (r, files, tr1))"

definition pcap_path :: "string \<Rightarrow> string" where
  "pcap_path base = base @ ''/wireshark/someip_drowsiness.pcap''"

definition candump_path :: "string \<Rightarrow> string" where
  "candump_path base = base @ ''/docs/candump_sim.log''"

definition generate_demos_main ::
  "env \<Rightarrow> string \<Rightarrow> (nat \<Rightarrow> int \<times> int) \<Rightarrow> (nat \<Rightarrow> string) \<Rightarrow> files \<Rightarrow> trace \<Rightarrow> unit res \<times> files \<times> trace" where
  "generate_demos_main env base pcap_stamp log_stamp files tr =
     (case demo_frames [0..<40] 0 of
        Inl e \<Rightarrow> (Inl e, files, tr)
      | Inr frames \<Rightarrow>
          file_bind (file_call env ''mkdir'' files tr) (\<lambda>files1 tr1.
          file_bind (write_pcap_file env pcap_stamp frames (pcap_path base) files1 tr1) (\<lambda>files2 tr2.
          file_bind (file_call env ''stat'' files2 tr2) (\<lambda>files3 tr3.
          file_bind (file_call env ''mkdir'' files3 tr3) (\<lambda>files4 tr4.
            generate_candump_log env log_stamp (candump_path base) 30 files4 tr4)))))"

section \<open>Lemmas\<close>

lemma pcap_written_all: "pcap_records stamp i frames = Inr bs \<Longrightarrow> pcap_written stamp i frames = (bs, Inr ())"
proof (induction frames arbitrary: i bs)
  case (Cons frame frames)
  then show ?case by (auto simp: res_bind_Inr_iff simp del: struct_pack.simps split: prod.splits)
qed simp

lemma write_pcap_file_eq:
  assumes "write_pcap stamp frames = Inr bs"
  shows "write_pcap_file env stamp frames path files tr =
    (case perform env (OtherCall ''open'') tr of
       (Inl e, tr1) \<Rightarrow> (Inl e, files, tr1)
     | (Inr _, tr1) \<Rightarrow> (Inr (), files(path \<mapsto> bs), tr1))"
proof -
  obtain head rest where "struct_pack Little
      [UInt 4 0xa1b2c3d4, UInt 2 2, UInt 2 4, SInt 4 0, UInt 4 0, UInt 4 65535, UInt 4 101] = Inr head"
    "pcap_records stamp 0 frames = Inr rest" "bs = head @ rest"
    using assms unfolding write_pcap_def by (auto simp: res_bind_Inr_iff)
  then show ?thesis
    by (simp add: write_pcap_file_def pcap_written_all split: sum.split prod.split)
qed

lemma paths_differ: "pcap_path base \<noteq> candump_path base"
  by (simp add: pcap_path_def candump_path_def)

section \<open>Properties\<close>

text \<open>
  The generator changes its two files and nothing else.  Whatever calls fail, when the
  time fits the capture format: a run that returns leaves the capture of \<open>demo_pcap\<close> and the
  thirty lines of \<open>candump_log\<close>; a run that raises leaves either both files as they were
  or the complete new capture and the old log.  No other file is touched.
\<close>

theorem generate_demos_files:
  assumes "demo_pcap pcap_stamp = Inr capture"
    and "generate_demos_main env base pcap_stamp log_stamp files tr = (r, files', tr')"
  shows "case r of
      Inr _ \<Rightarrow> files' = files(pcap_path base \<mapsto> capture, candump_path base \<mapsto> text_bytes (candump_log log_stamp 30))
    | Inl _ \<Rightarrow> files' = files \<or> files' = files(pcap_path base \<mapsto> capture)"
proof -
  obtain frames where frames: "demo_frames [0..<40] 0 = Inr frames" "write_pcap pcap_stamp frames = Inr capture"
    using assms(1) unfolding demo_pcap_def by (auto simp: res_bind_Inr_iff simp del: upt_Suc)
  show ?thesis
    using assms(2)
    by (auto simp: generate_demos_main_def frames(1) write_pcap_file_eq [OF frames(2)] file_bind_def
        file_call_def generate_candump_log_def Let_def perform_def simp del: upt_Suc
        split: option.splits sum.splits prod.splits)
qed

theorem generate_demos_files_witness:
  "\<exists>capture r files' tr'. demo_pcap (\<lambda>i. (1786104075, 0)) = Inr capture \<and>
     generate_demos_main (\<lambda>n. if n = 3 then Some OSError else None) ''/sdv'' (\<lambda>i. (1786104075, 0)) (\<lambda>i. ''0'')
       Map.empty [] = (r, files', tr') \<and>
     (case r of
        Inr _ \<Rightarrow> files' = [pcap_path ''/sdv'' \<mapsto> capture, candump_path ''/sdv'' \<mapsto> text_bytes (candump_log (\<lambda>i. ''0'') 30)]
      | Inl _ \<Rightarrow> files' = Map.empty \<or> files' = [pcap_path ''/sdv'' \<mapsto> capture])"
proof -
  let ?env = "\<lambda>n :: nat. if n = 3 then Some OSError else None" and ?stamp = "\<lambda>i :: nat. (1786104075, 0)"
  obtain capture where capture: "demo_pcap ?stamp = Inr capture"
    using demo_pcap_built [of ?stamp] by (auto simp: stamp_ok_def)
  obtain r files' tr' where
    run: "generate_demos_main ?env ''/sdv'' ?stamp (\<lambda>i. ''0'') Map.empty [] = (r, files', tr')"
    by (metis prod.exhaust)
  from generate_demos_files [OF capture run] capture run show ?thesis by blast
qed

end
