(* ===== verification/Yocto_Legacy.thy ===== *)
theory Yocto_Legacy
  imports Drowsiness
begin

text \<open>
  The copies of the detector and of the trigger that the Yocto recipe installs
  (\<open>yocto/meta-sdv/recipes-app/sdv-mpu/files\<close>).  They predate \<open>mpu/someip\<close>: each packs its
  own header, with a length field of 17 for a 24-byte packet, and sends over UDP to a fixed
  address.  The camera loop is the one of \<open>Drowsiness\<close>, with this notify.
\<close>

definition YOCTO_MCU_IP :: string where "YOCTO_MCU_IP = ''192.168.7.2''"
definition YOCTO_LOOPBACK :: string where "YOCTO_LOOPBACK = ''127.0.0.1''"
definition YOCTO_SOMEIP_PORT :: int where [simp]: "YOCTO_SOMEIP_PORT = 30490"
definition YOCTO_SERVICE_ID :: int where [simp]: "YOCTO_SERVICE_ID = 0x1234"
definition YOCTO_EVENT_ID :: int where [simp]: "YOCTO_EVENT_ID = 0x8001"

section \<open>Definitions\<close>

text \<open>The copy of \<open>eye_aspect_ratio\<close> is word for word the one of \<open>Drowsiness\<close>.\<close>

definition yocto_eye_aspect_ratio ::
  "('p \<Rightarrow> 'p \<Rightarrow> 'v) \<Rightarrow> ('v \<Rightarrow> 'r) \<Rightarrow> ('r \<Rightarrow> 'r \<Rightarrow> 'r) \<Rightarrow> ('r \<Rightarrow> 'r) \<Rightarrow> ('r \<Rightarrow> 'r \<Rightarrow> 'r) \<Rightarrow> 'p list \<Rightarrow> 'r res" where
  "yocto_eye_aspect_ratio = eye_aspect_ratio"

definition yocto_packet :: "int \<Rightarrow> bytes res" where
  "yocto_packet level =
     res_bind (struct_pack Big
       [UInt 2 YOCTO_SERVICE_ID, UInt 2 YOCTO_EVENT_ID, UInt 4 (8 + 1 + 8), UInt 2 0x0001, UInt 2 0x0001,
        UInt 1 0x01, UInt 1 0x01, UInt 1 0x02, UInt 1 0x00]) (\<lambda>header.
     res_bind (struct_pack Big [UInt 1 level]) (\<lambda>payload.
       Inr (header @ payload @ replicate 7 0)))"

text \<open>drowsiness.py: \<open>except Exception\<close> logs a failed \<open>sendto\<close>, \<open>finally\<close> closes.\<close>

definition yocto_notify :: "env \<Rightarrow> int \<Rightarrow> trace \<Rightarrow> unit res \<times> trace" where
  "yocto_notify env level tr =
     io_bind (io_res (yocto_packet level) tr) (\<lambda>packet tr1.
     io_bind (perform env SocketCreate tr1) (\<lambda>_ tr2.
       io_finally
         (case sendto env packet YOCTO_MCU_IP YOCTO_SOMEIP_PORT tr2 of
            (Inl e, tr3) \<Rightarrow> (if is_exception e then Inr () else Inl e, tr3)
          | (Inr _, tr3) \<Rightarrow> (Inr (), tr3))
         (perform env SocketClose)))"

text \<open>\<open>main\<close>: \<open>camera\<close> is None when no camera opens, and then the simulation loop runs.\<close>

definition yocto_main :: "env \<Rightarrow> (nat list \<times> bool) list option \<Rightarrow> int list \<Rightarrow> trace \<Rightarrow> unit res \<times> trace" where
  "yocto_main env camera choices tr =
     io_bind (perform env (OtherCall ''cv2.VideoCapture'') tr) (\<lambda>_ tr1.
       case camera of
         None \<Rightarrow> simulation_loop env (yocto_notify env) choices tr1
       | Some frames \<Rightarrow>
           io_bind (camera_loop env (yocto_notify env) frames 0 tr1) (\<lambda>_ tr2.
             perform env (OtherCall ''cap.release'') tr2))"

text \<open>trigger_test.py: no \<open>try\<close> around the socket.\<close>

definition yocto_trigger_send :: "env \<Rightarrow> int \<Rightarrow> trace \<Rightarrow> unit res \<times> trace" where
  "yocto_trigger_send env level tr =
     io_bind (io_res (yocto_packet level) tr) (\<lambda>packet tr1.
     io_bind (perform env SocketCreate tr1) (\<lambda>_ tr2.
     io_bind (sendto env packet YOCTO_LOOPBACK YOCTO_SOMEIP_PORT tr2) (\<lambda>_ tr3.
       perform env SocketClose tr3)))"

section \<open>Lemmas\<close>

definition legacy_packet :: "int \<Rightarrow> bytes" where
  "legacy_packet level = event_header EVENT_NOTIFY 17 1 @ [word_of_int level] @ replicate 7 0"

lemma yocto_packet_eq:
  "yocto_packet level = (if 0 \<le> level \<and> level < 256 then Inr (legacy_packet level) else Inl StructError)"
proof -
  have one: "be_bytes (Suc 0) v = [word_of_int v]" for v by simp
  show ?thesis
    by (simp add: yocto_packet_def legacy_packet_def event_header_def order_bytes_def one)
qed

lemma length_legacy_packet [simp]: "length (legacy_packet level) = 24"
  by (simp add: legacy_packet_def)

lemma legacy_rejected: "parse_event (legacy_packet level) = Inl (ValueError (LengthInconsistent 17))"
  by (simp add: legacy_packet_def parse_event_frame)

section \<open>Properties\<close>

text \<open>
  The installed programs do not speak the protocol of the others.  For every level of
  one byte they send 24 bytes that \<open>parse_event\<close> rejects, for the length field 17 would need
  25; any other level raises \<open>struct.error\<close> (where \<open>build_notify\<close> reduces it modulo 256).
\<close>

theorem yocto_packet_rejected:
  "case yocto_packet level of
     Inr pkt \<Rightarrow> length pkt = 24 \<and> parse_event pkt = Inl (ValueError (LengthInconsistent 17))
   | Inl e \<Rightarrow> e = StructError \<and> (level < 0 \<or> 255 < level)"
  by (auto simp: yocto_packet_eq legacy_rejected)

text \<open>
  A failed send, in the two programs.  With a valid level and only the \<open>sendto\<close> call
  failing, the detector's notify returns normally and has closed its socket; the trigger
  raises and leaves its socket open.
\<close>

theorem yocto_failed_send:
  assumes "0 \<le> level" "level < 256" "is_exception e"
  shows "(\<exists>tr'. yocto_notify (\<lambda>i. if i = 1 then Some e else None) level [] = (Inr (), tr') \<and>
      sockets_opened tr' = 1 \<and> sockets_closed tr' = 1 \<and> delivered tr' = []) \<and>
    (\<exists>tr'. yocto_trigger_send (\<lambda>i. if i = 1 then Some e else None) level [] = (Inl e, tr') \<and>
      sockets_opened tr' = 1 \<and> sockets_closed tr' = 0 \<and> delivered tr' = [])"
  using assms
  by (simp add: yocto_notify_def yocto_trigger_send_def yocto_packet_eq io_defs)

theorem yocto_failed_send_witness:
  "\<exists>tr'. yocto_trigger_send (\<lambda>i. if i = 1 then Some OSError else None) 90 [] = (Inl OSError, tr') \<and>
     sockets_opened tr' = 1 \<and> sockets_closed tr' = 0"
  using yocto_failed_send [of 90 OSError] by (auto simp: is_exception_def)

end
