(* ===== verification/Argument_Parser.thy ===== *)
theory Argument_Parser
  imports Inet "HOL-Library.Sublist"
begin

text \<open>
  The part of the standard library's \<open>argparse\<close> that the programs use, as CPython 3.11
  implements it: long options with one argument (text, \<open>type=int\<close>, \<open>choices\<close>), flags
  (\<open>action="store_true"\<close>) and the help options every parser has.  No program declares a
  positional argument that is modelled, so an argument that is left over is an error.

  The parse has two phases.  \<open>scan\<close> tells options from arguments: an exact option, an option
  with \<open>=value\<close>, an unambiguous prefix of an option, a cluster of one-letter options; a
  negative number and a string with a space in it are arguments.  \<open>consume\<close> then takes the
  options from left to right and stores their values.  Usage errors leave the process with
  status 2, the help options with status 0.  Attributes of the namespace are named by the
  option string they come from.
\<close>

section \<open>Options and values\<close>

datatype opt_kind = Text_Opt | Int_Opt | Choice_Opt "string list" | Flag_Opt | Help_Opt

datatype arg_value = Str string | Num int | Bool bool

type_synonym opt_table = "(string \<times> opt_kind) list"
type_synonym attributes = "string \<Rightarrow> arg_value option"

text \<open>How an option comes with an argument: not at all, after \<open>=\<close>, or as the rest of a cluster.\<close>

datatype explicit_arg = Bare | Equals string | Cluster string

datatype token = Arg string | Dashes | Opt string opt_kind explicit_arg | Unknown string

datatype 'a cli = Exit int | Continue 'a

section \<open>Telling options from arguments\<close>

definition split_eq :: "string \<Rightarrow> string \<times> string option" where
  "split_eq s =
     (takeWhile (\<lambda>c. c \<noteq> CHR ''='') s,
      case dropWhile (\<lambda>c. c \<noteq> CHR ''='') s of [] \<Rightarrow> None | _ # v \<Rightarrow> Some v)"

definition is_digit :: "char \<Rightarrow> bool" where
  "is_digit c \<longleftrightarrow> 48 \<le> char_code c \<and> char_code c \<le> 57"

text \<open>The pattern \<open>^-\d+$|^-\d*\.\d+$\<close>, in which \<open>$\<close> also matches before a final newline.\<close>

definition negative_number :: "string \<Rightarrow> bool" where
  "negative_number s =
     (case (if s \<noteq> [] \<and> char_code (last s) = 10 then butlast s else s) of
        [] \<Rightarrow> False
      | c # cs \<Rightarrow>
          c = CHR ''-'' \<and>
          (cs \<noteq> [] \<and> list_all is_digit cs \<or>
           (case dropWhile is_digit cs of
              [] \<Rightarrow> False
            | d # ds \<Rightarrow> d = CHR ''.'' \<and> ds \<noteq> [] \<and> list_all is_digit ds)))"

text \<open>\<open>_get_option_tuples\<close>, for a string of at least two characters that starts with a dash.\<close>

definition option_tuples :: "opt_table \<Rightarrow> string \<Rightarrow> token list" where
  "option_tuples opts s =
     (if s ! 1 = CHR ''-'' then
        (case split_eq s of (p, v) \<Rightarrow>
           map (\<lambda>(n, k). Opt n k (case v of None \<Rightarrow> Bare | Some a \<Rightarrow> Equals a))
             (filter (\<lambda>(n, k). prefix p n) opts))
      else
        concat (map (\<lambda>(n, k).
            if n = take 2 s then [Opt n k (Cluster (drop 2 s))]
            else if prefix s n then [Opt n k Bare] else []) opts))"

text \<open>\<open>_parse_optional\<close>; None is the error for an ambiguous prefix.\<close>

definition classify :: "opt_table \<Rightarrow> string \<Rightarrow> token option" where
  "classify opts s =
     (if s = [] \<or> hd s \<noteq> CHR ''-'' then Some (Arg s)
      else case map_of opts s of
        Some k \<Rightarrow> Some (Opt s k Bare)
      | None \<Rightarrow>
          if length s = 1 then Some (Arg s)
          else
            (let by_prefix =
               (case option_tuples opts s of
                  [t] \<Rightarrow> Some t
                | _ # _ # _ \<Rightarrow> None
                | [] \<Rightarrow> if negative_number s \<or> CHR '' '' \<in> set s then Some (Arg s) else Some (Unknown s))
             in case split_eq s of
                  (n, Some v) \<Rightarrow>
                    (case map_of opts n of Some k \<Rightarrow> Some (Opt n k (Equals v)) | None \<Rightarrow> by_prefix)
                | (n, None) \<Rightarrow> by_prefix))"

fun scan :: "opt_table \<Rightarrow> string list \<Rightarrow> token list option" where
  "scan opts [] = Some []"
| "scan opts (s # ss) =
     (if s = ''--'' then Some (Dashes # map Arg ss)
      else case classify opts s of
        None \<Rightarrow> None
      | Some t \<Rightarrow> map_option (\<lambda>ts. t # ts) (scan opts ss))"

section \<open>Taking the options\<close>

text \<open>\<open>_get_values\<close> for one argument: the conversion, then the choices.\<close>

fun opt_value :: "opt_kind \<Rightarrow> string \<Rightarrow> arg_value option" where
  "opt_value Text_Opt s = Some (Str s)"
| "opt_value Int_Opt s = (case py_int s of Inl _ \<Rightarrow> None | Inr i \<Rightarrow> Some (Num i))"
| "opt_value (Choice_Opt cs) s = (if s \<in> set cs then Some (Str s) else None)"
| "opt_value _ s = None"

text \<open>
  A help option in a cluster (\<open>-hxy\<close>): the letters after it are options as long as the
  parser has them; the one-letter options are help options here.
\<close>

fun help_cluster :: "opt_table \<Rightarrow> string \<Rightarrow> int" where
  "help_cluster opts [] = 2"
| "help_cluster opts (c # cs) =
     (if c = CHR ''-'' then 2
      else if map_of opts [CHR ''-'', c] = None \<or> cs = [] then 0
      else if hd cs = CHR ''='' then 2
      else help_cluster opts cs)"

text \<open>
  \<open>consume_optional\<close> for one option, with the tokens after it: the value to store and the
  tokens that are left, or the end of the process.
\<close>

fun take_option ::
  "opt_table \<Rightarrow> opt_kind \<Rightarrow> explicit_arg \<Rightarrow> token list \<Rightarrow> (arg_value \<times> token list) cli" where
  "take_option opts Help_Opt Bare ts = Exit 0"
| "take_option opts Help_Opt (Equals v) ts = Exit 2"
| "take_option opts Help_Opt (Cluster cs) ts = Exit (help_cluster opts cs)"
| "take_option opts Flag_Opt Bare ts = Continue (Bool True, ts)"
| "take_option opts Flag_Opt _ ts = Exit 2"
| "take_option opts k (Cluster cs) ts = Exit 2"
| "take_option opts k (Equals v) ts =
     (case opt_value k v of None \<Rightarrow> Exit 2 | Some x \<Rightarrow> Continue (x, ts))"
| "take_option opts k Bare (Arg v # ts) =
     (case opt_value k v of None \<Rightarrow> Exit 2 | Some x \<Rightarrow> Continue (x, ts))"
| "take_option opts k Bare ts = Exit 2"

lemma take_option_rest:
  "take_option opts k e ts = Continue (x, ts') \<Longrightarrow> ts' = ts \<or> (\<exists>v. ts = Arg v # ts')"
  by (cases "(opts, k, e, ts)" rule: take_option.cases) (auto split: option.splits)

text \<open>\<open>left_over\<close> is whether an argument was neither an option nor the value of one.\<close>

function consume :: "opt_table \<Rightarrow> attributes \<Rightarrow> bool \<Rightarrow> token list \<Rightarrow> attributes cli" where
  "consume opts ns left_over [] = (if left_over then Exit 2 else Continue ns)"
| "consume opts ns left_over (t # ts) =
     (case t of
        Opt n k e \<Rightarrow>
          (case take_option opts k e ts of
             Exit status \<Rightarrow> Exit status
           | Continue r \<Rightarrow> consume opts (ns(n \<mapsto> fst r)) left_over (snd r))
      | _ \<Rightarrow> consume opts ns True ts)"
  by pat_completeness auto
termination
  by (relation "measure (\<lambda>(_, _, _, ts). length ts)") (auto dest: take_option_rest)

definition parse_args :: "opt_table \<Rightarrow> attributes \<Rightarrow> string list \<Rightarrow> attributes cli" where
  "parse_args opts defaults argv =
     (case scan opts argv of None \<Rightarrow> Exit 2 | Some ts \<Rightarrow> consume opts defaults False ts)"

text \<open>The attributes a program reads, at the type its parser gives them.\<close>

fun str_value :: "arg_value option \<Rightarrow> string" where
  "str_value (Some (Str s)) = s"
| "str_value _ = []"

fun num_value :: "arg_value option \<Rightarrow> int" where
  "num_value (Some (Num i)) = i"
| "num_value _ = 0"

fun flag_value :: "arg_value option \<Rightarrow> bool" where
  "flag_value (Some (Bool b)) = b"
| "flag_value _ = False"

section \<open>Lemmas\<close>

text \<open>Options as the programs declare them: a dash first, no equality sign, not \<open>--\<close> alone.\<close>

definition plain_option :: "string \<Rightarrow> bool" where
  "plain_option n \<longleftrightarrow> n \<noteq> [] \<and> hd n = CHR ''-'' \<and> n \<noteq> ''--'' \<and> CHR ''='' \<notin> set n"

definition plain_table :: "opt_table \<Rightarrow> bool" where
  "plain_table opts \<longleftrightarrow> list_all (\<lambda>(n, k). plain_option n) opts"

text \<open>An argument that cannot be mistaken for an option.\<close>

definition plain_arg :: "string \<Rightarrow> bool" where
  "plain_arg s \<longleftrightarrow> s = [] \<or> hd s \<noteq> CHR ''-''"

lemma split_eq_equals: "CHR ''='' \<notin> set n \<Longrightarrow> split_eq (n @ CHR ''='' # v) = (n, Some v)"
  by (induction n) (auto simp: split_eq_def)

lemma map_of_plain: "plain_table opts \<Longrightarrow> map_of opts n = Some k \<Longrightarrow> plain_option n"
  by (auto simp: plain_table_def list_all_iff dest!: map_of_SomeD)

lemma map_of_with_equals: "plain_table opts \<Longrightarrow> CHR ''='' \<in> set n \<Longrightarrow> map_of opts n = None"
  by (cases "map_of opts n") (auto simp: plain_option_def dest: map_of_plain)

lemma scan_plain_arg: "plain_arg s \<Longrightarrow> scan opts (s # ss) = map_option (\<lambda>ts. Arg s # ts) (scan opts ss)"
  by (auto simp: plain_arg_def classify_def)

lemma scan_option:
  "plain_table opts \<Longrightarrow> map_of opts n = Some k \<Longrightarrow>
   scan opts (n # ss) = map_option (\<lambda>ts. Opt n k Bare # ts) (scan opts ss)"
  using map_of_plain [of opts n k] by (simp add: classify_def plain_option_def)

lemma scan_equals:
  assumes "plain_table opts" "map_of opts n = Some k"
  shows "scan opts ((n @ CHR ''='' # v) # ss) = map_option (\<lambda>ts. Opt n k (Equals v) # ts) (scan opts ss)"
proof -
  have n: "plain_option n" using map_of_plain [OF assms] .
  then have "map_of opts (n @ CHR ''='' # v) = None" "split_eq (n @ CHR ''='' # v) = (n, Some v)"
    using map_of_with_equals [OF assms(1)] by (simp_all add: plain_option_def split_eq_equals)
  moreover have "n @ CHR ''='' # v \<noteq> ''--''" "length (n @ CHR ''='' # v) \<noteq> 1"
    using n by (auto simp: plain_option_def Cons_eq_append_conv append_eq_Cons_conv)
  ultimately show ?thesis using n assms(2)
    by (simp add: classify_def plain_option_def del: length_append)
qed

declare scan.simps(2) [simp del]

text \<open>What \<open>scan\<close> recognises is in the table.\<close>

lemma option_tuples_in_table: "Opt n k e \<in> set (option_tuples opts s) \<Longrightarrow> (n, k) \<in> set opts"
  by (auto simp: option_tuples_def split: if_splits prod.splits)

lemma one_option_tuple: "option_tuples opts s = [Opt n k e] \<Longrightarrow> (n, k) \<in> set opts"
  by (rule option_tuples_in_table [of n k e opts s]) simp

lemma classify_in_table: "classify opts s = Some (Opt n k e) \<Longrightarrow> (n, k) \<in> set opts"
  by (auto simp: classify_def Let_def dest: map_of_SomeD one_option_tuple
      split: if_splits option.splits list.splits prod.splits)

lemma no_arg_tuple: "option_tuples opts s \<noteq> [Arg a]"
proof
  assume "option_tuples opts s = [Arg a]"
  then have "Arg a \<in> set (option_tuples opts s)" by simp
  then show False by (auto simp: option_tuples_def split: if_splits prod.splits)
qed

lemma classify_arg: "classify opts s = Some (Arg a) \<Longrightarrow> a = s"
  by (auto simp: classify_def Let_def no_arg_tuple
      split: if_splits option.splits list.splits prod.splits)

lemma scan_in_table: "scan opts ss = Some ts \<Longrightarrow> Opt n k e \<in> set ts \<Longrightarrow> (n, k) \<in> set opts"
  by (induction ss arbitrary: ts)
    (auto simp: scan.simps(2) split: if_splits option.splits dest: classify_in_table)

text \<open>Where the value of an attribute comes from: its default, or an option given.\<close>

definition given_value :: "opt_table \<Rightarrow> string \<Rightarrow> arg_value \<Rightarrow> bool" where
  "given_value opts n x \<longleftrightarrow>
     (\<exists>k. (n, k) \<in> set opts \<and> (k = Flag_Opt \<and> x = Bool True \<or> (\<exists>v. opt_value k v = Some x)))"

lemma take_option_given:
  "take_option opts k e ts = Continue (x, ts') \<Longrightarrow> (n, k) \<in> set opts \<Longrightarrow> given_value opts n x"
  by (cases "(opts, k, e, ts)" rule: take_option.cases) (auto simp: given_value_def split: option.splits)

lemma consume_sound:
  assumes "consume opts ns left_over ts = Continue ns'" "\<And>n k e. Opt n k e \<in> set ts \<Longrightarrow> (n, k) \<in> set opts"
  shows "ns' a = ns a \<or> (\<exists>x. ns' a = Some x \<and> given_value opts a x)"
  using assms
proof (induction opts ns left_over ts rule: consume.induct)
  case (2 opts ns left_over t ts)
  show ?case
  proof (cases t)
    case (Opt n k e)
    with "2.prems"(1) obtain x ts1 where take: "take_option opts k e ts = Continue (x, ts1)"
      and rest: "consume opts (ns(n \<mapsto> x)) left_over ts1 = Continue ns'"
      by (auto split: cli.splits)
    have sub: "set ts1 \<subseteq> set ts" using take_option_rest [OF take] by auto
    have "given_value opts n x" using take_option_given [OF take] Opt "2.prems"(2) by auto
    moreover have "ns' a = (ns(n \<mapsto> x)) a \<or> (\<exists>x. ns' a = Some x \<and> given_value opts a x)"
      using "2.IH"(3) [OF Opt take] rest "2.prems"(2) sub Opt unfolding fst_conv snd_conv by (meson list.set_intros(2) subsetD)
    ultimately show ?thesis by (auto split: if_splits)
  qed (use 2 in auto)
qed (auto split: if_splits)

lemma parse_args_sound:
  assumes "parse_args opts defaults argv = Continue ns"
  shows "ns a = defaults a \<or> (\<exists>x. ns a = Some x \<and> given_value opts a x)"
proof -
  from assms obtain ts where ts: "scan opts argv = Some ts" "consume opts defaults False ts = Continue ns"
    by (auto simp: parse_args_def split: option.splits)
  show ?thesis using consume_sound [OF ts(2)] scan_in_table [OF ts(1)] by blast
qed

lemma help_cluster_status: "help_cluster opts cs \<in> {0, 2}"
  by (induction opts cs rule: help_cluster.induct) auto

lemma take_option_status: "take_option opts k e ts = Exit n \<Longrightarrow> n \<in> {0, 2}"
  using help_cluster_status
  by (cases "(opts, k, e, ts)" rule: take_option.cases) (auto split: option.splits)

lemma consume_status: "consume opts ns left_over ts = Exit n \<Longrightarrow> n \<in> {0, 2}"
proof (induction opts ns left_over ts rule: consume.induct)
  case (2 opts ns left_over t ts)
  show ?case
  proof (cases t)
    case (Opt a k e)
    show ?thesis
    proof (cases "take_option opts k e ts")
      case (Exit status)
      then show ?thesis using "2.prems" Opt take_option_status by simp
    next
      case (Continue r)
      then have "consume opts (ns(a \<mapsto> fst r)) left_over (snd r) = Exit n" using "2.prems" Opt by simp
      then show ?thesis by (rule "2.IH"(3) [OF Opt Continue])
    qed
  qed (use 2 in auto)
qed (auto split: if_splits)

lemma parse_args_status: "parse_args opts defaults argv = Exit n \<Longrightarrow> n = 0 \<or> n = 2"
  using consume_status by (fastforce simp: parse_args_def split: option.splits)

end
