(* ===== verification/Command_Line.thy ===== *)
theory Command_Line
  imports Argument_Parser Test_Tools Yocto_Legacy
begin

text \<open>
  The command lines of the programs: the options each \<open>main\<close> declares, the environment
  variables their defaults come from, and the whole programs, from \<open>sys.argv\<close> and
  \<open>os.environ\<close> to the calls into the outside world.  The environment of the process is a
  map from names to values.  \<open>scripts/entrypoint.sh\<close>, which starts the detector in its
  container, is modelled by the arguments it passes.
\<close>

section \<open>The process environment\<close>

type_synonym environ = "string \<Rightarrow> string option"

text \<open>\<open>os.environ.get(name, default)\<close>\<close>

definition environ_get :: "environ \<Rightarrow> string \<Rightarrow> string \<Rightarrow> string" where
  "environ_get environ name fallback = (case environ name of None \<Rightarrow> fallback | Some v \<Rightarrow> v)"

abbreviation "help_options \<equiv> [(''-h'', Help_Opt), (''--help'', Help_Opt)]"

text \<open>A run that got past the command line.\<close>

definition run_main :: "'a res \<times> trace \<Rightarrow> 'a res cli \<times> trace" where
  "run_main out = (case out of (r, tr) \<Rightarrow> (Continue r, tr))"

section \<open>drowsiness.py\<close>

definition drowsiness_options :: opt_table where
  "drowsiness_options = help_options @
     [(''--dest'', Text_Opt),
      (''--transport'', Choice_Opt [''udp'', ''uart'']),
      (''--uart-port'', Text_Opt),
      (''--sd'', Flag_Opt)]"

definition drowsiness_defaults :: "environ \<Rightarrow> attributes" where
  "drowsiness_defaults environ =
     [''--dest'' \<mapsto> Str (environ_get environ ''SOMEIP_MCU_IP'' ''127.0.0.1''),
      ''--transport'' \<mapsto> Str (environ_get environ ''SOMEIP_TRANSPORT'' ''uart''),
      ''--uart-port'' \<mapsto> Str (environ_get environ ''SOMEIP_UART_PORT'' ''/dev/ttyS0''),
      ''--sd'' \<mapsto> Bool False]"

text \<open>The server that \<open>--sd\<close> starts: the argument \<open>ip\<close> is the destination of the events.\<close>

definition detector_sd_server :: "string \<Rightarrow> sd_server" where
  "detector_sd_server dest = new_sd_server SERVICE_ID INSTANCE_ID dest SOMEIP_PORT SD_MULTICAST SD_PORT 2000"

definition drowsiness_program ::
  "env \<Rightarrow> bool \<Rightarrow> environ \<Rightarrow> string list \<Rightarrow> (nat list \<times> bool) list option \<Rightarrow> int list \<Rightarrow> trace \<Rightarrow>
   unit res cli \<times> trace" where
  "drowsiness_program env have_pyserial environ argv camera choices tr =
     (case parse_args drowsiness_options (drowsiness_defaults environ) argv of
        Exit status \<Rightarrow> (Exit status, tr)
      | Continue args \<Rightarrow>
          run_main (drowsiness_main env have_pyserial (str_value (args ''--transport''))
            (str_value (args ''--dest'')) (str_value (args ''--uart-port''))
            (flag_value (args ''--sd'')) camera choices tr))"

section \<open>trigger_test.py\<close>

definition trigger_options :: opt_table where
  "trigger_options = help_options @
     [(''--level'', Int_Opt),
      (''--transport'', Choice_Opt [''udp'', ''uart'']),
      (''--dest'', Text_Opt),
      (''--uart-port'', Text_Opt),
      (''--loop'', Flag_Opt),
      (''--heartbeat'', Flag_Opt)]"

definition trigger_defaults :: "environ \<Rightarrow> attributes" where
  "trigger_defaults environ =
     [''--level'' \<mapsto> Num 90,
      ''--transport'' \<mapsto> Str (environ_get environ ''SOMEIP_TRANSPORT'' ''uart''),
      ''--dest'' \<mapsto> Str ''127.0.0.1'',
      ''--uart-port'' \<mapsto> Str (environ_get environ ''SOMEIP_UART_PORT'' ''/dev/ttyS0''),
      ''--loop'' \<mapsto> Bool False,
      ''--heartbeat'' \<mapsto> Bool False]"

definition trigger_mode_of :: "attributes \<Rightarrow> trigger_mode" where
  "trigger_mode_of args =
     (if flag_value (args ''--heartbeat'') then Heartbeats
      else if flag_value (args ''--loop'') then NotifyLoop
      else NotifyOnce)"

definition trigger_program ::
  "env \<Rightarrow> bool \<Rightarrow> nat \<Rightarrow> environ \<Rightarrow> string list \<Rightarrow> trace \<Rightarrow> (unit res cli \<times> trace) option" where
  "trigger_program env have_pyserial fuel environ argv tr =
     (case parse_args trigger_options (trigger_defaults environ) argv of
        Exit status \<Rightarrow> Some (Exit status, tr)
      | Continue args \<Rightarrow>
          map_option run_main
            (trigger_main env have_pyserial fuel (trigger_mode_of args) (num_value (args ''--level''))
              (str_value (args ''--transport'')) (str_value (args ''--dest''))
              (str_value (args ''--uart-port'')) tr))"

section \<open>client.py\<close>

definition client_options :: opt_table where
  "client_options = help_options @
     [(''--level'', Int_Opt),
      (''--dest'', Text_Opt),
      (''--transport'', Choice_Opt [''udp'', ''uart'']),
      (''--uart-port'', Text_Opt)]"

definition client_defaults :: attributes where
  "client_defaults =
     [''--level'' \<mapsto> Num 85, ''--dest'' \<mapsto> Str ''127.0.0.1'', ''--transport'' \<mapsto> Str ''uart'',
      ''--uart-port'' \<mapsto> Str ''/dev/ttyS0'']"

definition client_program :: "env \<Rightarrow> bool \<Rightarrow> string list \<Rightarrow> trace \<Rightarrow> unit res cli \<times> trace" where
  "client_program env have_pyserial argv tr =
     (case parse_args client_options client_defaults argv of
        Exit status \<Rightarrow> (Exit status, tr)
      | Continue args \<Rightarrow>
          run_main (client_main env have_pyserial (num_value (args ''--level''))
            (str_value (args ''--dest'')) (str_value (args ''--transport''))
            (str_value (args ''--uart-port'')) tr))"

section \<open>The trigger of the Yocto recipe\<close>

definition yocto_trigger_options :: opt_table where
  "yocto_trigger_options = help_options @ [(''--level'', Int_Opt), (''--loop'', Flag_Opt)]"

definition yocto_trigger_defaults :: attributes where
  "yocto_trigger_defaults = [''--level'' \<mapsto> Num 90, ''--loop'' \<mapsto> Bool False]"

fun yocto_trigger_loop :: "env \<Rightarrow> nat \<Rightarrow> int \<Rightarrow> trace \<Rightarrow> (unit res \<times> trace) option" where
  "yocto_trigger_loop env 0 level tr = None"
| "yocto_trigger_loop env (Suc fuel) level tr =
     (case io_bind (yocto_trigger_send env level tr) (\<lambda>_ tr1. perform env (Sleep 5000) tr1) of
        (Inl e, tr2) \<Rightarrow> Some (Inl e, tr2)
      | (Inr _, tr2) \<Rightarrow> yocto_trigger_loop env fuel level tr2)"

definition yocto_trigger_program ::
  "env \<Rightarrow> nat \<Rightarrow> string list \<Rightarrow> trace \<Rightarrow> (unit res cli \<times> trace) option" where
  "yocto_trigger_program env fuel argv tr =
     (case parse_args yocto_trigger_options yocto_trigger_defaults argv of
        Exit status \<Rightarrow> Some (Exit status, tr)
      | Continue args \<Rightarrow>
          map_option run_main
            (if flag_value (args ''--loop'')
             then yocto_trigger_loop env fuel (num_value (args ''--level'')) tr
             else Some (yocto_trigger_send env (num_value (args ''--level'')) tr)))"

section \<open>The container's entry point\<close>

text \<open>\<open>[ -n "$NAME" ]\<close>, then the option and the value as two words.\<close>

definition passed_on :: "environ \<Rightarrow> string \<Rightarrow> string \<Rightarrow> string list" where
  "passed_on environ name opt =
     (case environ name of None \<Rightarrow> [] | Some v \<Rightarrow> if v = [] then [] else [opt, v])"

definition entrypoint_args :: "environ \<Rightarrow> string list" where
  "entrypoint_args environ =
     passed_on environ ''SOMEIP_TRANSPORT'' ''--transport'' @
     passed_on environ ''SOMEIP_UART_PORT'' ''--uart-port'' @
     passed_on environ ''SOMEIP_MCU_IP'' ''--dest''"

section \<open>Lemmas\<close>

named_theorems option_tables \<open>what the option tables say of each option\<close>

lemma plain_tables [option_tables]:
  "plain_table drowsiness_options" "plain_table trigger_options"
  "plain_table client_options" "plain_table yocto_trigger_options"
  by (simp_all add: plain_table_def plain_option_def drowsiness_options_def trigger_options_def
      client_options_def yocto_trigger_options_def)

lemma drowsiness_table [option_tables]:
  "map_of drowsiness_options ''--dest'' = Some Text_Opt"
  "map_of drowsiness_options ''--transport'' = Some (Choice_Opt [''udp'', ''uart''])"
  "map_of drowsiness_options ''--uart-port'' = Some Text_Opt"
  "map_of drowsiness_options ''--sd'' = Some Flag_Opt"
  by (simp_all add: drowsiness_options_def)

lemma trigger_table [option_tables]:
  "map_of trigger_options ''--level'' = Some Int_Opt"
  "map_of trigger_options ''--transport'' = Some (Choice_Opt [''udp'', ''uart''])"
  by (simp_all add: trigger_options_def)

lemma yocto_trigger_table [option_tables]:
  "map_of yocto_trigger_options ''--level'' = Some Int_Opt"
  by (simp_all add: yocto_trigger_options_def)

text \<open>An option that is left out, or given as \<open>name=value\<close>.\<close>

definition given :: "string \<Rightarrow> string option \<Rightarrow> string list" where
  "given name v = (case v of None \<Rightarrow> [] | Some x \<Rightarrow> [name @ CHR ''='' # x])"

definition given_tokens :: "opt_kind \<Rightarrow> string \<Rightarrow> string option \<Rightarrow> token list" where
  "given_tokens k name v = (case v of None \<Rightarrow> [] | Some x \<Rightarrow> [Opt name k (Equals x)])"

lemma scan_given:
  assumes "plain_table opts" "map_of opts n = Some k"
  shows "scan opts (given n v @ ss) = map_option (\<lambda>ts. given_tokens k n v @ ts) (scan opts ss)"
  using scan_equals [OF assms] by (cases v) (simp_all add: given_def given_tokens_def option.map_ident)

definition set_given :: "(string \<Rightarrow> arg_value) \<Rightarrow> string \<Rightarrow> string option \<Rightarrow> attributes \<Rightarrow> attributes" where
  "set_given f name v ns = (case v of None \<Rightarrow> ns | Some x \<Rightarrow> ns(name \<mapsto> f x))"

lemma consume_given:
  assumes "\<And>x. v = Some x \<Longrightarrow> opt_value k x = Some (f x)" "k \<notin> {Help_Opt, Flag_Opt}"
  shows "consume opts ns left_over (given_tokens k n v @ ts) = consume opts (set_given f n v ns) left_over ts"
  using assms by (cases v; cases k) (simp_all add: given_tokens_def set_given_def)

lemma set_given_same: "str_value (set_given Str n v ns n) = (case v of None \<Rightarrow> str_value (ns n) | Some x \<Rightarrow> x)"
  by (simp add: set_given_def split: option.split)

lemma set_given_other: "m \<noteq> n \<Longrightarrow> set_given f n v ns m = ns m"
  by (simp add: set_given_def split: option.split)

text \<open>A value passed on from the environment as a word of its own.\<close>

lemma parse_passed_on:
  assumes "plain_table opts" "map_of opts n = Some k" "k \<notin> {Help_Opt, Flag_Opt}"
    "\<And>v. environ name = Some v \<Longrightarrow> v \<noteq> [] \<Longrightarrow> plain_arg v \<and> opt_value k v = Some (Str v) \<and> ns n = Some (Str v)"
    "scan opts ss = Some ts"
  shows "\<exists>ts'. scan opts (passed_on environ name n @ ss) = Some ts' \<and>
    consume opts ns left_over ts' = consume opts ns left_over ts"
proof (cases "\<exists>v. environ name = Some v \<and> v \<noteq> []")
  case True
  then obtain v where v: "environ name = Some v" "v \<noteq> []" by blast
  with assms(4) have ok: "plain_arg v" "opt_value k v = Some (Str v)" "ns(n \<mapsto> Str v) = ns" by auto
  have "scan opts (passed_on environ name n @ ss) = Some (Opt n k Bare # Arg v # ts)"
    using v ok(1) assms(1,2,5) by (simp add: passed_on_def scan_option scan_plain_arg)
  moreover have "consume opts ns left_over (Opt n k Bare # Arg v # ts) = consume opts ns left_over ts"
    using ok(2,3) assms(3) by (cases k) simp_all
  ultimately show ?thesis by blast
next
  case False
  with assms(5) show ?thesis by (auto simp: passed_on_def split: option.split)
qed

section \<open>Properties\<close>

text \<open>
  C38: the command line sets what it says.  Whatever the environment, \<open>drowsiness.py\<close> started
  with any of \<open>--dest=d\<close>, \<open>--transport=t\<close> (t a choice), \<open>--uart-port=p\<close> and \<open>--sd\<close> runs its main
  with exactly those values, for every text, and with the environment variable or the
  built-in default for each option left out.
\<close>

theorem drowsiness_command_line:
  assumes "\<And>t. transport = Some t \<Longrightarrow> t = ''udp'' \<or> t = ''uart''"
  shows "drowsiness_program env have_pyserial environ
      (given ''--dest'' dest @ given ''--transport'' transport @ given ''--uart-port'' port @
       (if sd then [''--sd''] else [])) camera choices tr =
    run_main (drowsiness_main env have_pyserial
      (case transport of Some t \<Rightarrow> t | None \<Rightarrow> environ_get environ ''SOMEIP_TRANSPORT'' ''uart'')
      (case dest of Some d \<Rightarrow> d | None \<Rightarrow> environ_get environ ''SOMEIP_MCU_IP'' ''127.0.0.1'')
      (case port of Some p \<Rightarrow> p | None \<Rightarrow> environ_get environ ''SOMEIP_UART_PORT'' ''/dev/ttyS0'')
      sd camera choices tr)"
proof -
  let ?d = "drowsiness_defaults environ"
  let ?ns = "set_given Str ''--uart-port'' port (set_given Str ''--transport'' transport
    (set_given Str ''--dest'' dest ?d))"
  let ?final = "if sd then ?ns(''--sd'' \<mapsto> Bool True) else ?ns"
  have tail: "scan drowsiness_options (if sd then [''--sd''] else []) =
      Some (if sd then [Opt ''--sd'' Flag_Opt Bare] else [])"
    by (simp add: scan_option option_tables)
  have choice: "opt_value (Choice_Opt [''udp'', ''uart'']) t = Some (Str t)" if "transport = Some t" for t
    using assms [OF that] by auto
  have "parse_args drowsiness_options ?d (given ''--dest'' dest @ given ''--transport'' transport @
      given ''--uart-port'' port @ (if sd then [''--sd''] else [])) = Continue ?final"
    using choice
    by (simp add: parse_args_def scan_given option_tables tail consume_given [where f = Str])
  moreover have "str_value (?final ''--transport'') =
      (case transport of Some t \<Rightarrow> t | None \<Rightarrow> environ_get environ ''SOMEIP_TRANSPORT'' ''uart'')"
    "str_value (?final ''--dest'') =
      (case dest of Some d \<Rightarrow> d | None \<Rightarrow> environ_get environ ''SOMEIP_MCU_IP'' ''127.0.0.1'')"
    "str_value (?final ''--uart-port'') =
      (case port of Some p \<Rightarrow> p | None \<Rightarrow> environ_get environ ''SOMEIP_UART_PORT'' ''/dev/ttyS0'')"
    "flag_value (?final ''--sd'') = sd"
    by (simp_all add: set_given_def drowsiness_defaults_def split: option.split)
  ultimately show ?thesis by (simp add: drowsiness_program_def)
qed

theorem drowsiness_command_line_witness:
  "drowsiness_program (\<lambda>_. None) True (\<lambda>_. None) [''--dest=--sd'', ''--transport=udp''] None [] [] =
   run_main (drowsiness_main (\<lambda>_. None) True ''udp'' ''--sd'' ''/dev/ttyS0'' False None [] [])"
  using drowsiness_command_line [of "Some ''udp''" "\<lambda>_. None" True "\<lambda>_. None" "Some ''--sd''" None False None "[]" "[]"]
  by (simp add: given_def environ_get_def)

text \<open>
  A usage error touches nothing.  For every command line and every environment,
  \<open>drowsiness.py\<close> either ends with status 0 or 2 before any call is made, or runs its main
  with a transport name that is one of the choices or the unchecked value the environment
  gives.
\<close>

theorem drowsiness_program_outcomes:
  "(\<exists>status. drowsiness_program env have_pyserial environ argv camera choices tr = (Exit status, tr) \<and>
      (status = 0 \<or> status = 2)) \<or>
   (\<exists>name dest port sd. drowsiness_program env have_pyserial environ argv camera choices tr =
        run_main (drowsiness_main env have_pyserial name dest port sd camera choices tr) \<and>
      name \<in> {''udp'', ''uart'', environ_get environ ''SOMEIP_TRANSPORT'' ''uart''})"
proof (cases "parse_args drowsiness_options (drowsiness_defaults environ) argv")
  case (Exit status)
  with parse_args_status [OF Exit] show ?thesis by (simp add: drowsiness_program_def)
next
  case (Continue args)
  have "str_value (args ''--transport'') \<in> {''udp'', ''uart'', environ_get environ ''SOMEIP_TRANSPORT'' ''uart''}"
    using parse_args_sound [OF Continue, of "''--transport''"]
    by (auto simp: given_value_def drowsiness_options_def drowsiness_defaults_def split: if_splits)
  then show ?thesis
    by (intro disjI2 exI conjI) (simp_all add: drowsiness_program_def Continue)
qed

lemma drowsiness_main_udp:
  assumes "name \<noteq> ''uart''"
  shows "drowsiness_main env have_pyserial name dest port sd camera choices tr =
    drowsiness_main env have_pyserial ''udp'' dest port sd camera choices tr"
  using assms by (simp add: drowsiness_main_def create_transport_def)

lemma drowsiness_no_arguments:
  "drowsiness_program env have_pyserial environ [] camera choices tr =
   run_main (drowsiness_main env have_pyserial (environ_get environ ''SOMEIP_TRANSPORT'' ''uart'')
     (environ_get environ ''SOMEIP_MCU_IP'' ''127.0.0.1'')
     (environ_get environ ''SOMEIP_UART_PORT'' ''/dev/ttyS0'') False camera choices tr)"
  by (simp add: drowsiness_program_def parse_args_def drowsiness_defaults_def)

lemma bad_choice_exits:
  assumes "plain_table opts" "map_of opts n = Some (Choice_Opt cs)" "v \<notin> set cs"
  shows "parse_args opts ns (n # v # ss) = Exit 2"
proof -
  have "take_option opts (Choice_Opt cs) Bare ts = Exit 2" if "scan opts (v # ss) = Some ts" for ts
  proof -
    from that obtain t ts' where ts: "ts = t # ts'" "t = Dashes \<or> classify opts v = Some t"
      by (auto simp: scan.simps(2) split: if_splits option.splits)
    with assms(3) show ?thesis by (cases t) (auto dest: classify_arg)
  qed
  then show ?thesis
    by (auto simp: parse_args_def scan_option [OF assms(1,2)] split: option.split)
qed

text \<open>
  C39: the container checks the transport, the program does not.  For a SOMEIP_TRANSPORT
  that is neither \<open>udp\<close>, \<open>uart\<close> nor empty, \<open>drowsiness.py\<close> without arguments runs, exactly as
  with \<open>udp\<close>: a misspelt \<open>uart\<close> sends the safety heartbeat to the network.  Started through the
  container's entry point with the same environment it ends with status 2 and makes no call.
\<close>

theorem transport_from_environment:
  assumes "environ ''SOMEIP_TRANSPORT'' = Some name" "name \<notin> {[], ''udp'', ''uart''}"
  shows "drowsiness_program env have_pyserial environ [] camera choices tr =
      drowsiness_program env have_pyserial (environ(''SOMEIP_TRANSPORT'' \<mapsto> ''udp'')) [] camera choices tr \<and>
    drowsiness_program env have_pyserial environ (entrypoint_args environ) camera choices tr = (Exit 2, tr)"
proof
  from assms show "drowsiness_program env have_pyserial environ [] camera choices tr =
      drowsiness_program env have_pyserial (environ(''SOMEIP_TRANSPORT'' \<mapsto> ''udp'')) [] camera choices tr"
    by (simp add: drowsiness_no_arguments environ_get_def drowsiness_main_udp [of name])
  have "name \<notin> set [''udp'', ''uart'']" using assms(2) by simp
  note bad_choice_exits [OF plain_tables(1) drowsiness_table(2) this]
  with assms show "drowsiness_program env have_pyserial environ (entrypoint_args environ) camera choices tr = (Exit 2, tr)"
    by (simp add: drowsiness_program_def entrypoint_args_def passed_on_def)
qed

theorem transport_from_environment_witness:
  "drowsiness_program (\<lambda>_. None) True [''SOMEIP_TRANSPORT'' \<mapsto> ''UART''] [] None [] [] =
     drowsiness_program (\<lambda>_. None) True [''SOMEIP_TRANSPORT'' \<mapsto> ''udp''] [] None [] [] \<and>
   drowsiness_program (\<lambda>_. None) True [''SOMEIP_TRANSPORT'' \<mapsto> ''UART'']
     (entrypoint_args [''SOMEIP_TRANSPORT'' \<mapsto> ''UART'']) None [] [] = (Exit 2, [])"
  using transport_from_environment [of "[''SOMEIP_TRANSPORT'' \<mapsto> ''UART'']" "''UART''" "\<lambda>_. None" True None "[]" "[]"]
  by simp

text \<open>
  Otherwise the entry point changes nothing.  With every variable unset, empty or a
  text that does not start with a dash, and the transport a choice if it is set and not
  empty, the detector started with the arguments of the entry point is the detector started
  without arguments.
\<close>

theorem entrypoint_agrees:
  assumes "\<And>name v. name \<in> {''SOMEIP_TRANSPORT'', ''SOMEIP_UART_PORT'', ''SOMEIP_MCU_IP''} \<Longrightarrow>
      environ name = Some v \<Longrightarrow> plain_arg v"
    and "\<And>v. environ ''SOMEIP_TRANSPORT'' = Some v \<Longrightarrow> v = [] \<or> v = ''udp'' \<or> v = ''uart''"
  shows "drowsiness_program env have_pyserial environ (entrypoint_args environ) camera choices tr =
    drowsiness_program env have_pyserial environ [] camera choices tr"
proof -
  let ?d = "drowsiness_defaults environ"
  note pass = parse_passed_on [OF plain_tables(1), where ns = ?d and left_over = False]
  have "\<exists>ts. scan drowsiness_options (passed_on environ ''SOMEIP_MCU_IP'' ''--dest'' @ []) = Some ts \<and>
      consume drowsiness_options ?d False ts = consume drowsiness_options ?d False []"
    using assms(1) by (intro pass [OF drowsiness_table(1)]) (auto simp: drowsiness_defaults_def environ_get_def)
  then obtain ts1 where 1: "scan drowsiness_options (passed_on environ ''SOMEIP_MCU_IP'' ''--dest'') = Some ts1"
    "consume drowsiness_options ?d False ts1 = consume drowsiness_options ?d False []" by auto
  have "\<exists>ts. scan drowsiness_options (passed_on environ ''SOMEIP_UART_PORT'' ''--uart-port'' @
        passed_on environ ''SOMEIP_MCU_IP'' ''--dest'') = Some ts \<and>
      consume drowsiness_options ?d False ts = consume drowsiness_options ?d False ts1"
    using assms(1) 1(1) by (intro pass [OF drowsiness_table(3)]) (auto simp: drowsiness_defaults_def environ_get_def)
  then obtain ts2 where 2: "scan drowsiness_options (passed_on environ ''SOMEIP_UART_PORT'' ''--uart-port'' @
        passed_on environ ''SOMEIP_MCU_IP'' ''--dest'') = Some ts2"
    "consume drowsiness_options ?d False ts2 = consume drowsiness_options ?d False ts1" by auto
  have "\<exists>ts. scan drowsiness_options (entrypoint_args environ) = Some ts \<and>
      consume drowsiness_options ?d False ts = consume drowsiness_options ?d False ts2"
    unfolding entrypoint_args_def using assms 2(1)
    by (intro pass [OF drowsiness_table(2)]) (auto simp: drowsiness_defaults_def environ_get_def)
  with 1 2 have "parse_args drowsiness_options ?d (entrypoint_args environ) = parse_args drowsiness_options ?d []"
    by (auto simp: parse_args_def)
  then show ?thesis by (simp add: drowsiness_program_def)
qed

theorem entrypoint_agrees_witness:
  "drowsiness_program (\<lambda>_. None) True [''SOMEIP_TRANSPORT'' \<mapsto> ''udp''] [''--transport'', ''udp''] None [] [] =
   drowsiness_program (\<lambda>_. None) True [''SOMEIP_TRANSPORT'' \<mapsto> ''udp''] [] None [] []"
proof -
  have "entrypoint_args [''SOMEIP_TRANSPORT'' \<mapsto> ''udp''] = [''--transport'', ''udp'']"
    by (simp add: entrypoint_args_def passed_on_def)
  moreover have "plain_arg v" if "[''SOMEIP_TRANSPORT'' \<mapsto> ''udp''] name = Some v" for name v
    using that by (auto simp: plain_arg_def split: if_splits)
  ultimately show ?thesis
    using entrypoint_agrees [of "[''SOMEIP_TRANSPORT'' \<mapsto> ''udp'']" "\<lambda>_. None" True None "[]" "[]"]
    by simp
qed

lemma trigger_send_eq: "trigger_send send level tr = send (notify_packet level) tr"
proof -
  have "0 \<le> level AND 255" "level AND 255 < 256" unfolding and_255_mod by simp_all
  then show ?thesis
    by (simp add: trigger_send_def io_defs build_packet_eq packable_def notify_packet_def pad_len_def)
qed

lemma trigger_parse_level:
  "parse_args trigger_options (trigger_defaults environ) [''--level='' @ dec_int i, ''--transport=udp''] =
   Continue ((trigger_defaults environ)(''--level'' \<mapsto> Num i, ''--transport'' \<mapsto> Str ''udp''))"
proof -
  have "[''--level='' @ dec_int i, ''--transport=udp''] =
      given ''--level'' (Some (dec_int i)) @ given ''--transport'' (Some ''udp'') @ []"
    by (simp add: given_def)
  then show ?thesis
    by (simp only: parse_args_def scan_given [OF plain_tables(2)] trigger_table)
      (simp add: given_tokens_def py_int_dec)
qed

lemma yocto_parse_level:
  "parse_args yocto_trigger_options yocto_trigger_defaults [''--level='' @ dec_int i] =
   Continue (yocto_trigger_defaults(''--level'' \<mapsto> Num i))"
proof -
  have "[''--level='' @ dec_int i] = given ''--level'' (Some (dec_int i)) @ []"
    by (simp add: given_def)
  then show ?thesis
    by (simp only: parse_args_def scan_given [OF plain_tables(4)] yocto_trigger_table)
      (simp add: given_tokens_def py_int_dec)
qed

text \<open>
  The same command line, two programs.  For every integer i, \<open>trigger_test.py --level=i
  --transport=udp\<close> puts one packet on the wire, and it parses to the Notify event with i
  modulo 256.  The trigger of the Yocto recipe, started with the same \<open>--level=i\<close>, raises
  \<open>struct.error\<close> before any call when i is not a byte, and otherwise puts a packet on the wire
  that the protocol's parser rejects.
\<close>

theorem trigger_programs_differ:
  "(\<exists>tr' pkt. trigger_program (\<lambda>_. None) have_pyserial fuel environ
       [''--level='' @ dec_int i, ''--transport=udp''] tr = Some (Continue (Inr ()), tr') \<and>
     delivered tr' = delivered tr @ [pkt] \<and> parse_event pkt = Inr (EVENT_NOTIFY, [word_of_int i])) \<and>
   (if 0 \<le> i \<and> i < 256
    then \<exists>tr' pkt. yocto_trigger_program (\<lambda>_. None) fuel [''--level='' @ dec_int i] tr =
           Some (Continue (Inr ()), tr') \<and> delivered tr' = delivered tr @ [pkt] \<and>
         parse_event pkt = Inl (ValueError (LengthInconsistent 17))
    else yocto_trigger_program (\<lambda>_. None) fuel [''--level='' @ dec_int i] tr =
           Some (Continue (Inl StructError), tr))"
proof
  have mode: "trigger_mode_of ((trigger_defaults environ)(''--level'' \<mapsto> Num i, ''--transport'' \<mapsto> Str ''udp'')) = NotifyOnce"
    by (simp add: trigger_mode_of_def trigger_defaults_def)
  show "\<exists>tr' pkt. trigger_program (\<lambda>_. None) have_pyserial fuel environ
       [''--level='' @ dec_int i, ''--transport=udp''] tr = Some (Continue (Inr ()), tr') \<and>
     delivered tr' = delivered tr @ [pkt] \<and> parse_event pkt = Inr (EVENT_NOTIFY, [word_of_int i])"
    by (simp add: trigger_program_def trigger_parse_level mode trigger_main_def create_transport_def
        trigger_send_eq udp_send_def udp_close_def run_main_def io_defs parse_notify_packet del: append_Cons)
  have once: "yocto_trigger_defaults ''--loop'' = Some (Bool False)"
    by (simp add: yocto_trigger_defaults_def)
  show "if 0 \<le> i \<and> i < 256
    then \<exists>tr' pkt. yocto_trigger_program (\<lambda>_. None) fuel [''--level='' @ dec_int i] tr =
           Some (Continue (Inr ()), tr') \<and> delivered tr' = delivered tr @ [pkt] \<and>
         parse_event pkt = Inl (ValueError (LengthInconsistent 17))
    else yocto_trigger_program (\<lambda>_. None) fuel [''--level='' @ dec_int i] tr =
           Some (Continue (Inl StructError), tr)"
    by (simp add: yocto_trigger_program_def yocto_parse_level once run_main_def
        yocto_trigger_send_def yocto_packet_eq io_defs legacy_rejected del: append_Cons)
qed

end
