(* ===== verification/Mcu_Sd.thy ===== *)
theory Mcu_Sd
  imports Sd_Messages
begin

text \<open>
  The packet builders of the firmware's service discovery, \<open>MCU/src/someip_sd.cpp\<close>, in C with
  integers of fixed width.  A buffer is the list of its bytes, a pointer into it an offset,
  the null pointer None.  They are compared byte for byte with \<open>mpu/someip/sd.py\<close>, as the
  head of the file claims.
\<close>

unbundle bit_operations_syntax

section \<open>Writing\<close>

definition put_u16 :: "bytes \<Rightarrow> nat \<Rightarrow> 16 word \<Rightarrow> bytes" where
  "put_u16 p off v = p[off := ucast (drop_bit 8 v), off + 1 := ucast v]"

definition put_u32 :: "bytes \<Rightarrow> nat \<Rightarrow> 32 word \<Rightarrow> bytes" where
  "put_u32 p off v =
     p[off := ucast (drop_bit 24 v), off + 1 := ucast (drop_bit 16 v),
       off + 2 := ucast (drop_bit 8 v), off + 3 := ucast v]"

section \<open>Constants of someip\_sd.h\<close>

text \<open>The identifiers shared with \<open>sd.py\<close> keep the values they have there.\<close>

definition SD_FLAG_UNICAST :: byte where [simp]: "SD_FLAG_UNICAST = 0x40"
definition SD_ENTRY_FIND_SERVICE :: byte where [simp]: "SD_ENTRY_FIND_SERVICE = 0x00"
definition SD_ENTRY_OFFER_SERVICE :: byte where [simp]: "SD_ENTRY_OFFER_SERVICE = 0x01"
definition SD_ENTRY_SUBSCRIBE_EVENTGROUP :: byte where [simp]: "SD_ENTRY_SUBSCRIBE_EVENTGROUP = 0x06"
definition SD_ENTRY_SUBSCRIBE_EVENTGROUP_ACK :: byte where [simp]: "SD_ENTRY_SUBSCRIBE_EVENTGROUP_ACK = 0x07"
definition SD_OPT_IP4_ENDPOINT :: byte where [simp]: "SD_OPT_IP4_ENDPOINT = 0x04"
definition SD_L4_UDP :: byte where [simp]: "SD_L4_UDP = 0x11"
definition SD_TTL_DEFAULT :: "32 word" where [simp]: "SD_TTL_DEFAULT = 0xFFFFFF"
definition SD_ENTRY_SIZE :: nat where [simp]: "SD_ENTRY_SIZE = 16"
definition SD_IP4_OPTION_SIZE :: nat where [simp]: "SD_IP4_OPTION_SIZE = 12"
definition SD_MAX_ENTRIES :: nat where [simp]: "SD_MAX_ENTRIES = 4"
definition SD_MAX_OPTIONS :: nat where [simp]: "SD_MAX_OPTIONS = 4"

section \<open>Builders\<close>

definition put_someip_header :: "bytes \<Rightarrow> nat \<Rightarrow> 32 word \<Rightarrow> 16 word \<Rightarrow> bytes" where
  "put_someip_header p off len session_id =
     (let p1 = put_u16 p off (word_of_int SD_SERVICE_ID);
          p2 = put_u16 p1 (off + 2) (word_of_int SD_METHOD_ID);
          p3 = put_u32 p2 (off + 4) len;
          p4 = put_u16 p3 (off + 8) (word_of_int SD_CLIENT_ID);
          p5 = put_u16 p4 (off + 10) session_id
      in p5[off + 12 := word_of_int SD_PROTOCOL_VERSION, off + 13 := word_of_int SD_INTERFACE_VERSION,
            off + 14 := word_of_int SD_MESSAGE_TYPE, off + 15 := word_of_int SD_RETURN_CODE])"

definition put_entry ::
  "bytes \<Rightarrow> nat \<Rightarrow> byte \<Rightarrow> 16 word \<Rightarrow> 16 word \<Rightarrow> byte \<Rightarrow> 32 word \<Rightarrow> 16 word \<Rightarrow> bytes" where
  "put_entry p off ty sid iid major t eg =
     (let p1 = p[off := ty, off + 1 := 0, off + 2 := 0, off + 3 := 0];
          p2 = put_u16 p1 (off + 4) sid;
          p3 = put_u16 p2 (off + 6) iid;
          p4 = p3[off + 8 := major, off + 9 := ucast (drop_bit 16 t),
                  off + 10 := ucast (drop_bit 8 t), off + 11 := ucast t]
      in
      if ty = SD_ENTRY_SUBSCRIBE_EVENTGROUP \<or> ty = SD_ENTRY_SUBSCRIBE_EVENTGROUP_ACK
      then put_u16 (put_u16 p4 (off + 12) 0) (off + 14) eg
      else put_u32 p4 (off + 12) 0)"

text \<open>\<open>memcpy(p + 4, ip, 4)\<close> copies the four bytes of the caller's array.\<close>

definition put_ip4_option :: "bytes \<Rightarrow> nat \<Rightarrow> bytes \<Rightarrow> 16 word \<Rightarrow> byte \<Rightarrow> bytes" where
  "put_ip4_option p off ip port l4_proto =
     (let p1 = put_u16 p off 9;
          p2 = p1[off + 2 := SD_OPT_IP4_ENDPOINT, off + 3 := 0];
          p3 = p2[off + 4 := ip ! 0, off + 5 := ip ! 1, off + 6 := ip ! 2, off + 7 := ip ! 3];
          p4 = p3[off + 8 := 0, off + 9 := l4_proto]
      in put_u16 p4 (off + 10) port)"

text \<open>The return value and the buffer afterwards.\<close>

definition sd_build_find_service ::
  "bytes option \<Rightarrow> nat \<Rightarrow> 16 word \<Rightarrow> 16 word \<Rightarrow> 16 word \<Rightarrow> int \<times> bytes option" where
  "sd_build_find_service out cap sid iid session_id =
     (let pkt_len = 16 + 8 + SD_ENTRY_SIZE + 4 in
      case out of
        None \<Rightarrow> (-1, None)
      | Some p \<Rightarrow>
          if cap < pkt_len then (-1, out)
          else
            let p1 = put_someip_header p 0 (of_nat (20 + SD_ENTRY_SIZE)) session_id;
                p2 = p1[16 := SD_FLAG_UNICAST, 17 := 0, 18 := 0, 19 := 0];
                p3 = put_u32 p2 20 (of_nat SD_ENTRY_SIZE);
                p4 = put_entry p3 24 SD_ENTRY_FIND_SERVICE sid iid 1 SD_TTL_DEFAULT 0;
                p5 = put_u32 p4 40 0
            in (int pkt_len, Some p5))"

definition sd_build_subscribe_eventgroup ::
  "bytes option \<Rightarrow> nat \<Rightarrow> 16 word \<Rightarrow> 16 word \<Rightarrow> 16 word \<Rightarrow> bytes option \<Rightarrow> 16 word \<Rightarrow> 16 word \<Rightarrow>
     int \<times> bytes option" where
  "sd_build_subscribe_eventgroup out cap sid iid eg ip port session_id =
     (let pkt_len = 16 + 8 + SD_ENTRY_SIZE + 4 + SD_IP4_OPTION_SIZE in
      case (out, ip) of
        (Some p, Some a) \<Rightarrow>
          if cap < pkt_len then (-1, out)
          else
            let p1 = put_someip_header p 0 (of_nat (20 + SD_ENTRY_SIZE + SD_IP4_OPTION_SIZE)) session_id;
                p2 = p1[16 := SD_FLAG_UNICAST, 17 := 0, 18 := 0, 19 := 0];
                p3 = put_u32 p2 20 (of_nat SD_ENTRY_SIZE);
                p4 = put_entry p3 24 SD_ENTRY_SUBSCRIBE_EVENTGROUP sid iid 1 SD_TTL_DEFAULT eg;
                p5 = put_u32 p4 40 (of_nat SD_IP4_OPTION_SIZE);
                p6 = put_ip4_option p5 44 a port SD_L4_UDP
            in (int pkt_len, Some p6)
      | _ \<Rightarrow> (-1, out))"

section \<open>Writes as overwritten ranges\<close>

definition overwrite :: "nat \<Rightarrow> 'a list \<Rightarrow> 'a list \<Rightarrow> 'a list" where
  "overwrite off bs p = take off p @ bs @ drop (off + length bs) p"

lemma update_overwrite: "k < length p \<Longrightarrow> p[k := v] = overwrite k [v] p"
  by (simp add: overwrite_def upd_conv_take_nth_drop)

lemma length_overwrite [simp]: "off + length bs \<le> length p \<Longrightarrow> length (overwrite off bs p) = length p"
  by (simp add: overwrite_def)

lemma overwrite_overwrite:
  "off \<le> length p \<Longrightarrow> k = off + length a \<Longrightarrow> overwrite k b (overwrite off a p) = overwrite off (a @ b) p"
  by (simp add: overwrite_def add_ac)

lemma updates_overwrite:
  "off + 2 \<le> length p \<Longrightarrow> p[off := a, off + 1 := b] = overwrite off [a, b] p"
  "off + 4 \<le> length p \<Longrightarrow> p[off := a, off + 1 := b, off + 2 := c, off + 3 := d] = overwrite off [a, b, c, d] p"
  by (simp_all add: update_overwrite overwrite_overwrite)

lemma uint_drop_bit: "uint (drop_bit n (v :: 'a::len word)) = uint v div 2 ^ n"
proof -
  have "take_bit LENGTH('a) (uint v) = uint v" by (rule take_bit_int_eq_self) simp_all
  then have "uint (drop_bit n v) = drop_bit n (uint v)" unfolding unsigned_drop_bit_eq by simp
  then show ?thesis by (simp only: drop_bit_eq_div)
qed

lemma ucast_drop_bit: "(ucast (drop_bit n (v :: 'a::len word)) :: byte) = word_of_int (uint v div 2 ^ n)"
  unfolding uint_drop_bit [symmetric] by simp

lemma put_u16_overwrite:
  assumes "off + 2 \<le> length p"
  shows "put_u16 p off v = overwrite off (be_bytes 2 (uint v)) p"
proof -
  have "be_bytes 2 (uint v) = [ucast (drop_bit 8 v), ucast v]"
    by (simp add: be_bytes_2 ucast_drop_bit)
  with updates_overwrite(1) [OF assms] show ?thesis by (simp only: put_u16_def)
qed

lemma put_u32_overwrite:
  assumes "off + 4 \<le> length p"
  shows "put_u32 p off v = overwrite off (be_bytes 4 (uint v)) p"
proof -
  have "be_bytes 4 (uint v) =
      [ucast (drop_bit 24 v), ucast (drop_bit 16 v), ucast (drop_bit 8 v), ucast v]"
    by (simp add: be_bytes_4 ucast_drop_bit)
  with updates_overwrite(2) [OF assms] show ?thesis by (simp only: put_u32_def)
qed

lemma put_someip_header_overwrite:
  assumes "off + 16 \<le> length p"
  shows "put_someip_header p off len ses =
    overwrite off ([255, 255, 129, 0] @ be_bytes 4 (uint len) @ [0, 0] @ be_bytes 2 (uint ses) @ [1, 1, 2, 0]) p"
proof -
  have const: "be_bytes 2 65535 = [255, 255]" "be_bytes 2 33024 = [129, 0]" "be_bytes 2 0 = [0, 0]"
    by (simp_all add: be_bytes_2)
  show ?thesis
    using assms
    by (simp add: put_someip_header_def Let_def put_u16_overwrite put_u32_overwrite update_overwrite
        overwrite_overwrite const del: be_bytes.simps)
qed

lemma put_entry_overwrite:
  assumes "off + 16 \<le> length p"
  shows "put_entry p off ty sid iid major t eg =
    overwrite off (entry_head (uint ty) (uint sid) (uint iid) (uint major) 0 0 0 0 @ be_bytes 3 (uint t) @
      (if ty = 6 \<or> ty = 7 then [0, 0] @ be_bytes 2 (uint eg) else be_bytes 4 0)) p"
proof -
  have t: "be_bytes 3 (uint t) = [ucast (drop_bit 16 t), ucast (drop_bit 8 t), ucast t]"
    by (simp add: eval_nat_numeral ucast_drop_bit zdiv_zmult2_eq [symmetric])
  have zero: "be_bytes 2 0 = [0, 0]" by (simp add: be_bytes_2)
  show ?thesis
    using assms
    by (simp add: put_entry_def Let_def put_u16_overwrite put_u32_overwrite update_overwrite
        overwrite_overwrite entry_head_def n_opts_byte_def t zero del: be_bytes.simps)
qed

lemma put_ip4_option_overwrite:
  assumes "off + 12 \<le> length p" "length a = 4"
  shows "put_ip4_option p off a port l4 = overwrite off (endpoint_option a (uint l4) (uint port)) p"
proof -
  from assms(2) have a: "[a ! 0, a ! 1, a ! 2, a ! 3] = a"
    by (auto simp: length_Suc_conv numeral_eq_Suc)
  have nine: "be_bytes 2 9 = [0, 9]" by (simp add: be_bytes_2)
  have "put_ip4_option p off a port l4 =
      overwrite off ([0, 9, 4, 0] @ [a ! 0, a ! 1, a ! 2, a ! 3] @ [0, l4] @ be_bytes 2 (uint port)) p"
    using assms(1)
    by (simp add: put_ip4_option_def Let_def put_u16_overwrite update_overwrite overwrite_overwrite nine
        del: be_bytes.simps)
  then show ?thesis unfolding a by (simp add: endpoint_option_def)
qed

section \<open>The builders against sd.py\<close>

lemma uint_ttl_default: "uint SD_TTL_DEFAULT = TTL_DEFAULT"
  by simp

lemma put_flags_overwrite:
  assumes "20 \<le> length p"
  shows "p[16 := SD_FLAG_UNICAST, 17 := 0, 18 := 0, 19 := 0] = overwrite 16 [0x40, 0, 0, 0] p"
  using updates_overwrite(2) [of 16 p SD_FLAG_UNICAST 0 0 0] assms by simp

lemma sd_head_unicast:
  "sd_head len s FLAG_UNICAST n =
     ([255, 255, 129, 0] @ be_bytes 4 len @ [0, 0] @ be_bytes 2 s @ [1, 1, 2, 0]) @ [0x40, 0, 0, 0] @ be_bytes 4 n"
  by (simp add: sd_head_def)

lemmas build_overwrite = put_someip_header_overwrite put_flags_overwrite put_u32_overwrite
  put_entry_overwrite put_ip4_option_overwrite overwrite_overwrite

lemma find_service_overwrite:
  assumes "44 \<le> cap" "cap \<le> length p"
  shows "sd_build_find_service (Some p) cap sid iid ses =
    (44, Some (overwrite 0 (sd_head 36 (uint ses) FLAG_UNICAST 16 @
       (entry_head 0 (uint sid) (uint iid) 1 0 0 0 0 @ be_bytes 3 TTL_DEFAULT @ be_bytes 4 0) @
       be_bytes 4 0) p))"
  using assms unfolding sd_head_unicast
  by (simp add: sd_build_find_service_def Let_def build_overwrite uint_ttl_default
      del: be_bytes.simps SD_TTL_DEFAULT_def TTL_DEFAULT_def SD_FLAG_UNICAST_def)

lemma subscribe_eventgroup_overwrite:
  assumes "56 \<le> cap" "cap \<le> length p" "length a = 4"
  shows "sd_build_subscribe_eventgroup (Some p) cap sid iid eg (Some a) port ses =
    (56, Some (overwrite 0 (sd_head 48 (uint ses) FLAG_UNICAST 16 @
       (entry_head 6 (uint sid) (uint iid) 1 0 0 0 0 @ be_bytes 3 TTL_DEFAULT @ [0, 0] @ be_bytes 2 (uint eg)) @
       be_bytes 4 12 @ endpoint_option a L4_UDP (uint port)) p))"
  using assms unfolding sd_head_unicast
  by (simp add: sd_build_subscribe_eventgroup_def Let_def build_overwrite uint_ttl_default endpoint_option_def
      del: be_bytes.simps SD_TTL_DEFAULT_def TTL_DEFAULT_def SD_FLAG_UNICAST_def)

lemma overwrite_0: "overwrite 0 bs p = bs @ drop (length bs) p"
  by (simp add: overwrite_def)

lemma find_packet:
  assumes "\<forall>p. out = Some p \<longrightarrow> cap \<le> length p"
  shows "\<exists>pkt. build_find_service (uint sid) (uint iid) (uint ses) TTL_DEFAULT FLAG_UNICAST = Inr pkt \<and>
    length pkt = 44 \<and>
    sd_build_find_service out cap sid iid ses =
      (case out of
         Some p \<Rightarrow> if 44 \<le> cap then (44, Some (pkt @ drop 44 p)) else (-1, out)
       | None \<Rightarrow> (-1, out))"
proof -
  let ?e = "entry_head 0 (uint sid) (uint iid) 1 0 0 0 0 @ be_bytes 3 TTL_DEFAULT @ be_bytes 4 0"
  have py: "build_find_service (uint sid) (uint iid) (uint ses) TTL_DEFAULT FLAG_UNICAST =
      Inr (sd_head 36 (uint ses) FLAG_UNICAST 16 @ ?e @ be_bytes 4 0)"
    by (simp add: build_find_service_def build_service_entry_eq build_sd_message_eq del: be_bytes.simps)
  show ?thesis
  proof (cases "out \<noteq> None \<and> 44 \<le> cap")
    case True
    with assms find_service_overwrite [of cap "the out" sid iid ses] show ?thesis
      unfolding py by (auto simp: overwrite_0 simp del: be_bytes.simps)
  next
    case False
    then show ?thesis unfolding py
      by (auto simp: sd_build_find_service_def Let_def simp del: be_bytes.simps split: option.split)
  qed
qed

text \<open>
  The firmware's FindService is the one of sd.py.  For all identifiers and sessions and
  every buffer of at least 44 bytes, the C builder writes the packet that
  \<open>build_find_service\<close> returns, byte for byte, and nothing behind it; on a smaller buffer or
  a null pointer it returns -1 and writes nothing.
\<close>

theorem find_service_matches_python:
  assumes "\<forall>p. out = Some p \<longrightarrow> cap \<le> length p"
  shows "\<exists>pkt. build_find_service (uint sid) (uint iid) (uint ses) TTL_DEFAULT FLAG_UNICAST = Inr pkt \<and>
    length pkt = 44 \<and>
    sd_build_find_service out cap sid iid ses =
      (case out of
         Some p \<Rightarrow> if 44 \<le> cap then (44, Some (pkt @ drop 44 p)) else (-1, out)
       | None \<Rightarrow> (-1, out))"
  using assms by (rule find_packet)

theorem find_service_matches_python_witness:
  "\<exists>pkt. build_find_service 0x1234 0x5678 1 TTL_DEFAULT FLAG_UNICAST = Inr pkt \<and>
     sd_build_find_service (Some (replicate 64 7)) 64 0x1234 0x5678 1 = (44, Some (pkt @ replicate 20 7))"
  using find_service_matches_python [of "Some (replicate 64 7)" 64 "0x1234" "0x5678" 1] by auto

lemma subscribe_packet:
  assumes "\<forall>p. out = Some p \<longrightarrow> cap \<le> length p" "inet_aton ip = Inr a"
  shows "\<exists>pkt. build_subscribe_eventgroup (uint sid) (uint iid) (uint eg) ip (uint port) (uint ses) TTL_DEFAULT = Inr pkt \<and>
    length pkt = 56 \<and>
    sd_build_subscribe_eventgroup out cap sid iid eg (Some a) port ses =
      (case out of
         Some p \<Rightarrow> if 56 \<le> cap then (56, Some (pkt @ drop 56 p)) else (-1, out)
       | None \<Rightarrow> (-1, out))"
proof -
  let ?e = "entry_head 6 (uint sid) (uint iid) 1 0 0 0 0 @ be_bytes 3 TTL_DEFAULT @ [0, 0] @ be_bytes 2 (uint eg)"
  have a: "length a = 4" using inet_aton_length [OF assms(2)] .
  then have o: "length (endpoint_option a l4 port) = 12" for l4 port by (simp add: endpoint_option_def)
  have py: "build_subscribe_eventgroup (uint sid) (uint iid) (uint eg) ip (uint port) (uint ses) TTL_DEFAULT =
      Inr (sd_head 48 (uint ses) FLAG_UNICAST 16 @ ?e @ be_bytes 4 12 @ endpoint_option a L4_UDP (uint port))"
    using assms(2) o
    by (simp add: build_subscribe_eventgroup_def build_eventgroup_entry_eq build_ipv4_endpoint_option_eq
        build_sd_message_eq del: be_bytes.simps)
  show ?thesis
  proof (cases "out \<noteq> None \<and> 56 \<le> cap")
    case True
    with assms subscribe_eventgroup_overwrite [OF _ _ a, of cap "the out" sid iid eg port ses] o show ?thesis
      unfolding py by (auto simp: overwrite_0 simp del: be_bytes.simps)
  next
    case False
    then show ?thesis unfolding py using o
      by (auto simp: sd_build_subscribe_eventgroup_def Let_def simp del: be_bytes.simps split: option.split)
  qed
qed

text \<open>
  C10: the firmware's SubscribeEventgroup is the one of sd.py.  The four address bytes handed
  to the C builder stand for any text \<open>ip\<close> that \<open>inet_aton\<close> reads as them.
\<close>

theorem subscribe_matches_python:
  assumes "\<forall>p. out = Some p \<longrightarrow> cap \<le> length p" "inet_aton ip = Inr a"
  shows "\<exists>pkt. build_subscribe_eventgroup (uint sid) (uint iid) (uint eg) ip (uint port) (uint ses) TTL_DEFAULT = Inr pkt \<and>
    length pkt = 56 \<and>
    sd_build_subscribe_eventgroup out cap sid iid eg (Some a) port ses =
      (case out of
         Some p \<Rightarrow> if 56 \<le> cap then (56, Some (pkt @ drop 56 p)) else (-1, out)
       | None \<Rightarrow> (-1, out))"
  using assms by (rule subscribe_packet)

theorem subscribe_matches_python_witness:
  "\<exists>pkt. build_subscribe_eventgroup 0x1234 0x5678 1 ''10.0.2.15'' 30490 1 TTL_DEFAULT = Inr pkt \<and>
     sd_build_subscribe_eventgroup (Some (replicate 64 7)) 64 0x1234 0x5678 1 (Some [10, 0, 2, 15]) 30490 1 =
       (56, Some (pkt @ replicate 8 7))"
proof -
  have "inet_aton ''10.0.2.15'' = Inr [10, 0, 2, 15]" by code_simp
  from subscribe_matches_python [OF _ this, of "Some (replicate 64 7)" 64 "0x1234" "0x5678" 1 30490 1]
  show ?thesis by auto
qed

end
