(* ===== verification/Mcu_Sd_Parser.thy ===== *)
theory Mcu_Sd_Parser
  imports Mcu_Sd "HOL-Library.Monad_Syntax"
begin

text \<open>
  The packet parser of the firmware's service discovery, \<open>sd_parse\<close> of
  \<open>MCU/src/someip_sd.cpp\<close>.  A read beyond the end of a buffer is undefined behaviour and
  makes the value of the whole call None, so that memory safety is a theorem.  Offsets and
  lengths below the size of a buffer are natural numbers, with the wrap of \<open>uint32_t\<close> written
  out where a sum could reach it.  The parser is compared with \<open>parse_sd\<close> of sd.py.
\<close>

unbundle bit_operations_syntax

section \<open>Reading\<close>

definition rd :: "bytes \<Rightarrow> nat \<Rightarrow> byte option" where
  "rd p i = (if i < length p then Some (p ! i) else None)"

definition get_u16 :: "bytes \<Rightarrow> nat \<Rightarrow> 16 word option" where
  "get_u16 p off = do {
     a \<leftarrow> rd p off;
     b \<leftarrow> rd p (off + 1);
     Some (push_bit 8 (ucast a) OR ucast b)
   }"

definition get_u32 :: "bytes \<Rightarrow> nat \<Rightarrow> 32 word option" where
  "get_u32 p off = do {
     a \<leftarrow> rd p off;
     b \<leftarrow> rd p (off + 1);
     c \<leftarrow> rd p (off + 2);
     d \<leftarrow> rd p (off + 3);
     Some (push_bit 24 (ucast a) OR push_bit 16 (ucast b) OR push_bit 8 (ucast c) OR ucast d)
   }"

section \<open>Parser\<close>

record mcu_entry =
  e_type :: byte
  e_service_id :: "16 word"
  e_instance_id :: "16 word"
  e_major_version :: byte
  e_ttl :: "32 word"
  e_eventgroup_id :: "16 word"

record mcu_option =
  o_type :: byte
  o_address :: bytes
  o_l4_proto :: byte
  o_port :: "16 word"

record sd_parsed =
  p_flags :: byte
  p_session_id :: "16 word"
  p_entry_count :: byte
  p_entries :: "mcu_entry list"
  p_option_count :: byte
  p_options :: "mcu_option list"

text \<open>\<open>memset(out, 0, sizeof( *out))\<close>\<close>

definition zero_entry :: mcu_entry where
  "zero_entry = \<lparr>e_type = 0, e_service_id = 0, e_instance_id = 0, e_major_version = 0, e_ttl = 0,
     e_eventgroup_id = 0\<rparr>"

definition zero_option :: mcu_option where
  "zero_option = \<lparr>o_type = 0, o_address = replicate 4 0, o_l4_proto = 0, o_port = 0\<rparr>"

definition zero_parsed :: sd_parsed where
  "zero_parsed = \<lparr>p_flags = 0, p_session_id = 0, p_entry_count = 0,
     p_entries = replicate SD_MAX_ENTRIES zero_entry,
     p_option_count = 0, p_options = replicate SD_MAX_OPTIONS zero_option\<rparr>"

text \<open>One pass of the entry loop: the entry at offset \<open>e\<close>.\<close>

definition read_entry :: "bytes \<Rightarrow> nat \<Rightarrow> mcu_entry option" where
  "read_entry buf e = do {
     ty \<leftarrow> rd buf e;
     sid \<leftarrow> get_u16 buf (e + 4);
     iid \<leftarrow> get_u16 buf (e + 6);
     major \<leftarrow> rd buf (e + 8);
     t2 \<leftarrow> rd buf (e + 9);
     t1 \<leftarrow> rd buf (e + 10);
     t0 \<leftarrow> rd buf (e + 11);
     eg \<leftarrow> (if ty = SD_ENTRY_SUBSCRIBE_EVENTGROUP \<or> ty = SD_ENTRY_SUBSCRIBE_EVENTGROUP_ACK
           then get_u16 buf (e + 14) else Some 0);
     Some \<lparr>e_type = ty, e_service_id = sid, e_instance_id = iid, e_major_version = major,
           e_ttl = push_bit 16 (ucast t2) OR push_bit 8 (ucast t1) OR ucast t0, e_eventgroup_id = eg\<rparr>
   }"

function entries_loop :: "bytes \<Rightarrow> nat \<Rightarrow> nat \<Rightarrow> nat \<Rightarrow> mcu_entry list \<Rightarrow> mcu_entry list option" where
  "entries_loop buf base entries_len off slots =
     (if off < entries_len then do {
        d \<leftarrow> read_entry buf (base + off);
        entries_loop buf base entries_len (off + SD_ENTRY_SIZE) (slots[off div SD_ENTRY_SIZE := d])
      }
      else Some slots)"
  by pat_completeness auto
termination
  by (relation "measure (\<lambda>(buf, base, entries_len, off, slots). entries_len - off)") auto

declare entries_loop.simps [simp del]

text \<open>
  The option loop, with \<open>i\<close> counting to SD\_MAX\_OPTIONS: the slots and the count.  The sum
  \<open>opt_off + 3u\<close> is the one that could wrap.
\<close>

function options_loop ::
  "bytes \<Rightarrow> nat \<Rightarrow> nat \<Rightarrow> nat \<Rightarrow> nat \<Rightarrow> byte \<times> mcu_option list \<Rightarrow> (byte \<times> mcu_option list) option" where
  "options_loop buf base options_len i opt_off st =
     (if i < SD_MAX_OPTIONS \<and> (opt_off + 3) mod 2 ^ 32 \<le> options_len then do {
        len \<leftarrow> get_u16 buf (base + opt_off);
        let block = 3 + unat len;
        if block > options_len - opt_off then Some st
        else do {
          ty \<leftarrow> rd buf (base + opt_off + 2);
          st1 \<leftarrow> (if ty = SD_OPT_IP4_ENDPOINT \<and> SD_IP4_OPTION_SIZE \<le> block then do {
                   a0 \<leftarrow> rd buf (base + opt_off + 4);
                   a1 \<leftarrow> rd buf (base + opt_off + 5);
                   a2 \<leftarrow> rd buf (base + opt_off + 6);
                   a3 \<leftarrow> rd buf (base + opt_off + 7);
                   l4 \<leftarrow> rd buf (base + opt_off + 9);
                   port \<leftarrow> get_u16 buf (base + opt_off + 10);
                   Some (of_nat (i + 1), (snd st)[i := \<lparr>o_type = ty, o_address = [a0, a1, a2, a3],
                                                     o_l4_proto = l4, o_port = port\<rparr>])
                 }
                 else Some st);
          options_loop buf base options_len (i + 1) (opt_off + block) st1
        }
      }
      else Some st)"
  by pat_completeness auto
termination
  by (relation "measure (\<lambda>(buf, base, options_len, i, opt_off, st). 4 - i)") auto

declare options_loop.simps [simp del]

definition sd_parse :: "bytes option \<Rightarrow> nat \<Rightarrow> sd_parsed option \<Rightarrow> (int \<times> sd_parsed option) option" where
  "sd_parse buf len out =
     (let hdr_size = 16 + 8 in
      case (buf, out) of
        (Some b, Some _) \<Rightarrow>
          if len < hdr_size + 4 then Some (-1, Some zero_parsed)
          else do {
            service \<leftarrow> get_u16 b 0;
            meth \<leftarrow> get_u16 b 2;
            if service \<noteq> word_of_int SD_SERVICE_ID \<or> meth \<noteq> word_of_int SD_METHOD_ID
            then Some (-1, Some zero_parsed)
            else do {
              n \<leftarrow> get_u32 b 20;
              let entries_len = unat n;
              if entries_len mod SD_ENTRY_SIZE \<noteq> 0 \<or> SD_MAX_ENTRIES < entries_len div SD_ENTRY_SIZE
              then Some (-1, Some zero_parsed)
              else if len < hdr_size + entries_len + 4 then Some (-1, Some zero_parsed)
              else do {
                m \<leftarrow> get_u32 b (hdr_size + entries_len);
                let options_len = unat m;
                if len - (hdr_size + entries_len + 4) < options_len then Some (-1, Some zero_parsed)
                else do {
                  flags \<leftarrow> rd b 16;
                  ses \<leftarrow> get_u16 b 10;
                  slots \<leftarrow> entries_loop b hdr_size entries_len 0 (p_entries zero_parsed);
                  (count, opts) \<leftarrow> options_loop b (hdr_size + entries_len + 4) options_len 0 0
                                   (0, p_options zero_parsed);
                  Some (0, Some \<lparr>p_flags = flags, p_session_id = ses,
                                 p_entry_count = of_nat (entries_len div SD_ENTRY_SIZE), p_entries = slots,
                                 p_option_count = count, p_options = opts\<rparr>)
                }
              }
            }
          }
      | _ \<Rightarrow> Some (-1, out))"

section \<open>Reads as values of byte strings\<close>

lemma or_shifted: "push_bit 8 (x :: 'a::len word) OR ucast (y :: byte) = x * 256 + ucast y"
proof -
  have "push_bit 8 x AND ucast y = (0 :: 'a word)"
    by (rule bit_eqI) (auto simp: bit_simps dest: bit_imp_le_length)
  then have "push_bit 8 x OR ucast y = push_bit 8 x + ucast y" by (rule disjunctive_add_eq_or [symmetric])
  then show ?thesis by (simp add: push_bit_eq_mult)
qed

lemma or_shifted_32:
  "push_bit 24 a OR push_bit 16 b OR push_bit 8 c OR d =
   push_bit 8 (push_bit 8 (push_bit 8 a OR b) OR c) OR (d :: 'a::len word)"
  by (simp add: push_bit_or or.assoc)

lemma py_slice_two: "off + 2 \<le> length p \<Longrightarrow> py_slice p off (off + 2) = [p ! off, p ! (off + 1)]"
  by (simp add: py_slice_def list_eq_iff_nth_eq less_Suc_eq numeral_eq_Suc)

lemma py_slice_three:
  "off + 3 \<le> length p \<Longrightarrow> py_slice p off (off + 3) = [p ! off, p ! (off + 1), p ! (off + 2)]"
  by (simp add: py_slice_def list_eq_iff_nth_eq less_Suc_eq numeral_eq_Suc)

lemma py_slice_four:
  "off + 4 \<le> length p \<Longrightarrow> py_slice p off (off + 4) = [p ! off, p ! (off + 1), p ! (off + 2), p ! (off + 3)]"
  by (simp add: py_slice_def list_eq_iff_nth_eq less_Suc_eq numeral_eq_Suc)

lemma get_u16_eq:
  assumes "off + 2 \<le> length p" "k = off + 2"
  shows "get_u16 p off = Some (of_int (from_be (py_slice p off k)))"
  unfolding assms(2) py_slice_two [OF assms(1)]
  using assms by (simp add: get_u16_def rd_def or_shifted from_be_def)

lemma get_u32_eq:
  assumes "off + 4 \<le> length p"
  shows "get_u32 p off = Some (of_int (from_be (py_slice p off (off + 4))))"
proof -
  have "push_bit 24 (ucast a) OR push_bit 16 (ucast b) OR push_bit 8 (ucast c) OR ucast d =
      (of_int (from_be [a, b, c, d]) :: 32 word)" for a b c d :: byte
  proof -
    have "of_int (from_be [a, b, c, d]) = ((ucast a * 256 + ucast b) * 256 + ucast c) * 256 + (ucast d :: 32 word)"
      by (simp add: from_be_def)
    then show ?thesis unfolding or_shifted_32 by (simp only: or_shifted)
  qed
  then show ?thesis
    unfolding py_slice_four [OF assms] using assms by (simp add: get_u32_def rd_def)
qed

lemma nested_slice: "b \<le> d - c \<Longrightarrow> py_slice (py_slice xs c d) a b = py_slice xs (c + a) (c + b)"
  by (simp add: py_slice_def drop_take add.commute)

definition mcu_entry_view :: "sd_entry \<Rightarrow> mcu_entry" where
  "mcu_entry_view e =
     \<lparr>e_type = of_int (entry_type e), e_service_id = of_int (service_id e),
      e_instance_id = of_int (instance_id e), e_major_version = of_int (major_version e),
      e_ttl = of_int (ttl e),
      e_eventgroup_id =
        (if entry_type e = ENTRY_SUBSCRIBE_EVENTGROUP \<or> entry_type e = ENTRY_SUBSCRIBE_EVENTGROUP_ACK
         then (case eventgroup_id e of Some g \<Rightarrow> of_int g | None \<Rightarrow> 0) else 0)\<rparr>"

lemma byte_eq_uint: "(b :: byte) = of_int n \<longleftrightarrow> uint b = n mod 256"
  by (metis uint_byte word_uint_eqI)

lemma read_entry_eq:
  assumes "e + 16 \<le> length buf"
  shows "read_entry buf e = Some (mcu_entry_view (entry_of (py_slice buf e (e + 16))))"
proof -
  let ?c = "py_slice buf e (e + 16)"
  have nth: "?c ! k = buf ! (e + k)" if "k < 16" for k
    using that assms by (simp add: py_slice_def)
  have slices: "py_slice ?c 4 6 = py_slice buf (e + 4) (e + 6)" "py_slice ?c 6 8 = py_slice buf (e + 6) (e + 8)"
    "py_slice ?c 9 12 = py_slice buf (e + 9) (e + 12)" "py_slice ?c 14 16 = py_slice buf (e + 14) (e + 16)"
    by (simp_all add: nested_slice)
  have words: "get_u16 buf (e + 4) = Some (of_int (from_be (py_slice buf (e + 4) (e + 6))))"
    "get_u16 buf (e + 6) = Some (of_int (from_be (py_slice buf (e + 6) (e + 8))))"
    "get_u16 buf (e + 14) = Some (of_int (from_be (py_slice buf (e + 14) (e + 16))))"
    using assms by (auto intro: get_u16_eq)
  have t: "push_bit 16 (ucast a) OR push_bit 8 (ucast b) OR ucast c = (of_int (from_be [a, b, c]) :: 32 word)"
    for a b c :: byte
  proof -
    have "push_bit 16 (ucast a) OR push_bit 8 (ucast b) OR ucast c =
        push_bit 8 (push_bit 8 (ucast a) OR ucast b) OR (ucast c :: 32 word)"
      by (simp add: push_bit_or or.assoc)
    then show ?thesis by (simp only: or_shifted) (simp add: from_be_def)
  qed
  have three: "py_slice buf (e + 9) (e + 12) = [buf ! (e + 9), buf ! (e + 10), buf ! (e + 11)]"
    using py_slice_three [of "e + 9" buf] assms by (simp add: add.commute)
  have ty: "buf ! e = 6 \<longleftrightarrow> uint (buf ! e) = 6" "buf ! e = 7 \<longleftrightarrow> uint (buf ! e) = 7"
    using byte_eq_uint [of "buf ! e" 6] byte_eq_uint [of "buf ! e" 7] by simp_all
  show ?thesis
    using assms
    by (auto simp: read_entry_def words rd_def t mcu_entry_view_def entry_of_def Let_def slices three nth ty)
qed

lemma list_update_at: "length xs = k \<Longrightarrow> (xs @ y # ys)[k := z] = xs @ z # ys"
  by (auto simp: list_update_append)

lemma entries_loop_eq:
  assumes "k \<le> n" "base + 16 * n \<le> length buf" "length done = k" "n - k \<le> m"
  shows "entries_loop buf base (16 * n) (16 * k) (done @ replicate m zero_entry) =
    Some (done @ map (\<lambda>j. mcu_entry_view (entry_of (py_slice buf (base + 16 * j) (base + 16 * j + 16)))) [k..<n] @
      replicate (m - (n - k)) zero_entry)"
  using assms
proof (induction "n - k" arbitrary: k "done" m)
  case 0
  then show ?case by (subst entries_loop.simps) simp
next
  case (Suc d)
  let ?v = "\<lambda>j. mcu_entry_view (entry_of (py_slice buf (base + 16 * j) (base + 16 * j + 16)))"
  from Suc.hyps(2) Suc.prems obtain m' where m: "m = Suc m'" and k: "k < n" by (cases m) auto
  have upt: "[k..<n] = k # [Suc k..<n]" using k by (simp add: upt_conv_Cons)
  have "read_entry buf (base + 16 * k) = Some (?v k)"
    using Suc.prems k by (intro read_entry_eq) simp
  moreover have "entries_loop buf base (16 * n) (16 * Suc k) ((done @ [?v k]) @ replicate m' zero_entry) =
      Some ((done @ [?v k]) @ map ?v [Suc k..<n] @ replicate (m' - (n - Suc k)) zero_entry)"
    using Suc.prems Suc.hyps(2) k m by (intro Suc.hyps(1)) auto
  ultimately show ?case
    using k Suc.prems(3) m unfolding upt
    by (subst entries_loop.simps) (simp add: list_update_at add.commute [of 16])
qed

section \<open>Options\<close>

definition has_endpoint :: "sd_option \<Rightarrow> bool" where
  "has_endpoint opt \<longleftrightarrow> option_type opt = OPT_IP4_ENDPOINT \<and> endpoint opt \<noteq> None"

definition mcu_option_view :: "sd_option \<Rightarrow> mcu_option" where
  "mcu_option_view opt =
     (if option_type opt = OPT_IP4_ENDPOINT then
        (case endpoint opt of
           Some (ip, l4, port) \<Rightarrow>
             \<lparr>o_type = SD_OPT_IP4_ENDPOINT,
              o_address = (case inet_aton ip of Inr a \<Rightarrow> a | Inl _ \<Rightarrow> []),
              o_l4_proto = of_int l4, o_port = of_int port\<rparr>
         | None \<Rightarrow> zero_option)
      else zero_option)"

definition endpoint_count :: "sd_option list \<Rightarrow> nat" where
  "endpoint_count opts = length (dropWhile (\<lambda>opt. \<not> has_endpoint opt) (rev opts))"

lemma endpoint_count_snoc: "endpoint_count (opts @ [opt]) = (if has_endpoint opt then length opts + 1 else endpoint_count opts)"
  by (simp add: endpoint_count_def)

definition slots_of :: "sd_option list \<Rightarrow> byte \<times> mcu_option list" where
  "slots_of opts = (of_nat (endpoint_count opts), map mcu_option_view opts @ replicate (4 - length opts) zero_option)"

lemma mcu_option_view_of:
  "mcu_option_view (option_of b) =
    (if b ! 2 = 4 \<and> 12 \<le> length b
     then \<lparr>o_type = 4, o_address = [b ! 4, b ! 5, b ! 6, b ! 7], o_l4_proto = b ! 9,
           o_port = of_int (from_be (py_slice b 10 12))\<rparr>
     else zero_option)"
proof -
  have ty: "b ! 2 = 4 \<longleftrightarrow> uint (b ! 2) = 4" using byte_eq_uint [of "b ! 2" 4] by simp
  have "\<exists>ip. inet_ntoa [b ! 4, b ! 5, b ! 6, b ! 7] = Inr ip \<and> inet_aton ip = Inr [b ! 4, b ! 5, b ! 6, b ! 7]"
    using inet_aton_ntoa [of "[b ! 4, b ! 5, b ! 6, b ! 7]"] by auto
  then show ?thesis
    unfolding ty by (auto simp: mcu_option_view_def option_of_def Let_def inet_ntoa_def)
qed

lemma has_endpoint_of: "has_endpoint (option_of b) \<longleftrightarrow> b ! 2 = 4 \<and> 12 \<le> length b"
  using byte_eq_uint [of "b ! 2" 4] by (auto simp: has_endpoint_def option_of_def Let_def)

lemma slots_of_snoc:
  assumes "length opts < 4"
  shows "slots_of (opts @ [opt]) =
    (if has_endpoint opt
     then (of_nat (length opts + 1), (snd (slots_of opts))[length opts := mcu_option_view opt])
     else slots_of opts)"
proof -
  from assms obtain m where m: "4 - length opts = Suc m" "4 - Suc (length opts) = m"
    by (metis Suc_diff_Suc)
  have "\<not> has_endpoint opt \<Longrightarrow> mcu_option_view opt = zero_option"
    by (auto simp: has_endpoint_def mcu_option_view_def split: option.split)
  with m show ?thesis
    by (simp add: slots_of_def endpoint_count_snoc list_update_at)
qed

lemma parse_options_Cons:
  assumes "parse_options os pos = Inr opts" "pos < length os"
    and "block = nat (from_be (py_slice os pos (pos + 2))) + 3" "b = py_slice os pos (pos + block)"
  shows "\<exists>rest. pos + 4 \<le> length os \<and> pos + block \<le> length os \<and> length b = block \<and>
    parse_options os (pos + block) = Inr rest \<and> opts = option_of b # rest"
proof -
  note run = assms(1) [unfolded parse_options.simps [of os pos], unfolded Let_def, folded assms(3), folded assms(4)]
  have p4: "pos + 4 \<le> length os" using run assms(2) by (auto split: if_splits)
  then have idx: "py_index os (pos + 2) = Inr (uint (os ! (pos + 2)))" by (simp add: py_index_Inr)
  have blk: "pos + block \<le> length os" using run assms(2) p4 idx by (auto split: if_splits)
  then have len: "length b = block" "3 \<le> length b" using assms(3,4) by auto
  have "os ! (pos + 2) = b ! 2" using len assms(3,4) by (simp add: py_slice_def)
  with run assms(2) p4 blk len idx parse_option_eq [of b] show ?thesis
    by (auto simp: res_bind_Inr_iff)
qed

text \<open>What a pass of the option loop does with the bytes \<open>b\<close> of its block.\<close>

definition read_option :: "nat \<Rightarrow> bytes \<Rightarrow> byte \<times> mcu_option list \<Rightarrow> byte \<times> mcu_option list" where
  "read_option i b st =
     (if b ! 2 = 4 \<and> 12 \<le> length b
      then (of_nat (i + 1), (snd st)[i := \<lparr>o_type = 4, o_address = [b ! 4, b ! 5, b ! 6, b ! 7],
              o_l4_proto = b ! 9, o_port = of_int (from_be (py_slice b 10 12))\<rparr>])
      else st)"

lemma options_loop_end: "\<not> (i < 4 \<and> pos + 3 \<le> m) \<Longrightarrow> pos + 3 < 2 ^ 32 \<Longrightarrow> options_loop buf base m i pos st = Some st"
  by (subst options_loop.simps) auto

lemma options_loop_pass:
  assumes "i < 4" "pos + 3 \<le> m" "m < 2 ^ 32" "base + m \<le> length buf"
    and "v = nat (from_be (py_slice buf (base + pos) (base + pos + 2)))"
  shows "options_loop buf base m i pos st =
    (if m < pos + (v + 3) then Some st
     else options_loop buf base m (i + 1) (pos + (v + 3))
            (read_option i (py_slice buf (base + pos) (base + pos + (v + 3))) st))"
proof -
  let ?b = "py_slice buf (base + pos) (base + pos + (v + 3))"
  have wrap: "(pos + 3) mod 2 ^ 32 = pos + 3" using assms(2,3) by simp
  have "0 \<le> from_be (py_slice buf (base + pos) (base + pos + 2))" "from_be (py_slice buf (base + pos) (base + pos + 2)) < 65536"
    using from_be_bounds [of "py_slice buf (base + pos) (base + pos + 2)"] assms(2,4) by auto
  then have len: "get_u16 buf (base + pos) = Some (of_int (int v))" "unat (of_int (int v) :: 16 word) = v"
    using get_u16_eq [of "base + pos" buf] assms(2,4,5)
    by (simp_all add: unat_eq_nat_uint uint_word_of_int)
  note step = options_loop.simps [of buf base m i pos st, unfolded wrap len(1) bind.bind_lunit Let_def len(2)]
  show ?thesis
  proof (cases "m < pos + (v + 3)")
    case True
    then have "m - pos < 3 + v" by linarith
    with True show ?thesis using step assms(1,2) by simp
  next
    case False
    then have fits: "base + pos + (v + 3) \<le> length buf" using assms(4) by linarith
    have rd: "rd buf (base + pos + k) = Some (?b ! k)" if "k < v + 3" for k
      using that fits by (simp add: rd_def py_slice_def)
    have "py_slice ?b 10 12 = py_slice buf (base + pos + 10) (base + pos + 12)" if "12 \<le> v + 3"
      using that by (simp add: nested_slice add.assoc)
    then have port: "get_u16 buf (base + pos + 10) = Some (of_int (from_be (py_slice ?b 10 12)))" if "12 \<le> v + 3"
      using that get_u16_eq [of "base + pos + 10" buf "base + pos + 12"] fits by simp
    have "length ?b = v + 3" using fits by simp
    then show ?thesis
      using step assms(1,2) False rd [of 2] rd [of 4] rd [of 5] rd [of 6] rd [of 7] rd [of 9] port
      by (auto simp: read_option_def add.commute [of v])
  qed
qed

lemma slots_of_read:
  assumes "length opts < 4" "length b = block"
  shows "read_option (length opts) b (slots_of opts) = slots_of (opts @ [option_of b])"
  using assms by (simp add: read_option_def slots_of_snoc has_endpoint_of mcu_option_view_of)

lemma options_loop_eq:
  assumes "parse_options os pos = Inr opts" "os = py_slice buf base (base + m)" "base + m \<le> length buf"
    and "pos \<le> m" "m + 3 < 2 ^ 32" "length done \<le> 4"
  shows "options_loop buf base m (length done) pos (slots_of done) = Some (slots_of (take 4 (done @ opts)))"
  using assms
proof (induction "4 - length done" arbitrary: pos "done" opts)
  case 0
  then show ?case by (simp add: options_loop_end)
next
  case (Suc d)
  have os: "length os = m" using Suc.prems(2,3) by simp
  show ?case
  proof (cases "pos < m")
    case False
    then have "opts = []" using Suc.prems os by (subst (asm) parse_options.simps) auto
    then show ?thesis using False Suc.prems by (simp add: options_loop_end)
  next
    case True
    define v where "v = nat (from_be (py_slice os pos (pos + 2)))"
    define b where "b = py_slice os pos (pos + (v + 3))"
    obtain rest where fits: "pos + 4 \<le> m" "pos + (v + 3) \<le> m" "length b = v + 3"
      and rest: "parse_options os (pos + (v + 3)) = Inr rest" and opts: "opts = option_of b # rest"
      using parse_options_Cons [OF Suc.prems(1), of "v + 3" b] True os by (auto simp: v_def b_def)
    have v: "v = nat (from_be (py_slice buf (base + pos) (base + pos + 2)))"
      and b: "b = py_slice buf (base + pos) (base + pos + (v + 3))"
      using fits Suc.prems(2) by (simp_all add: v_def b_def nested_slice add.assoc)
    have "options_loop buf base m (length (done @ [option_of b])) (pos + (v + 3)) (slots_of (done @ [option_of b])) =
        Some (slots_of (take 4 ((done @ [option_of b]) @ rest)))"
      using Suc.hyps(2) fits rest Suc.prems by (intro Suc.hyps(1)) auto
    then show ?thesis
      using options_loop_pass [OF _ _ _ Suc.prems(3) v, where i = "length done"] fits Suc.prems(5) Suc.hyps(2)
        slots_of_read [of "done" b] by (simp add: opts flip: b)
  qed
qed

section \<open>The whole parser\<close>

lemma from_be_slice_bounds: "0 \<le> from_be (py_slice p a b)" "from_be (py_slice p a b) < 256 ^ (b - a)"
proof -
  have "(256 :: int) ^ length (py_slice p a b) \<le> 256 ^ (b - a)" by (rule power_increasing) simp_all
  with from_be_bounds [of "py_slice p a b"]
  show "0 \<le> from_be (py_slice p a b)" "from_be (py_slice p a b) < 256 ^ (b - a)" by linarith+
qed

lemma word_from_be_eq:
  "b - a = 2 \<Longrightarrow> (of_int (from_be (py_slice p a b)) :: 16 word) = of_int v \<longleftrightarrow> from_be (py_slice p a b) = v mod 65536"
  "b - a = 4 \<Longrightarrow> unat (of_int (from_be (py_slice p a b)) :: 32 word) = nat (from_be (py_slice p a b))"
  using from_be_slice_bounds [of p a b]
  by (auto simp: word_of_int_eq_iff take_bit_eq_mod unat_eq_nat_uint uint_word_of_int)

definition entry_slots :: "bytes \<Rightarrow> nat \<Rightarrow> mcu_entry list" where
  "entry_slots buf n =
     map (\<lambda>j. mcu_entry_view (entry_of (py_slice buf (24 + 16 * j) (40 + 16 * j)))) [0..<n] @
     replicate (4 - n) zero_entry"

lemma entries_loop_all:
  assumes "n mod 16 = 0" "n div 16 \<le> 4" "24 + n \<le> length buf"
  shows "entries_loop buf 24 n 0 (p_entries zero_parsed) = Some (entry_slots buf (n div 16))"
proof -
  have n: "16 * (n div 16) = n" using assms(1) by auto
  from entries_loop_eq [of 0 "n div 16" 24 buf "[]" 4, unfolded n] assms show ?thesis
    by (simp add: zero_parsed_def entry_slots_def add.commute add.left_commute)
qed

definition sd_framed :: "bytes \<Rightarrow> nat \<Rightarrow> bool" where
  "sd_framed buf len \<longleftrightarrow>
     (let n = nat (from_be (py_slice buf 20 24)); m = nat (from_be (py_slice buf (24 + n) (28 + n))) in
      28 \<le> len \<and> from_be (py_slice buf 0 2) = SD_SERVICE_ID \<and> from_be (py_slice buf 2 4) = SD_METHOD_ID \<and>
      n mod 16 = 0 \<and> n div 16 \<le> 4 \<and> 28 + n + m \<le> len)"

text \<open>The fields of the header, read once the header is known to be there.\<close>

lemma header_reads:
  assumes "28 \<le> length buf"
  shows "get_u16 buf 0 = Some (of_int (from_be (py_slice buf 0 2)))"
    "get_u16 buf 2 = Some (of_int (from_be (py_slice buf 2 4)))"
    "get_u16 buf 10 = Some (of_int (from_be (py_slice buf 10 12)))"
    "get_u32 buf 20 = Some (of_int (from_be (py_slice buf 20 24)))"
    "rd buf 16 = Some (buf ! 16)"
proof -
  show "get_u16 buf 0 = Some (of_int (from_be (py_slice buf 0 2)))"
    "get_u16 buf 2 = Some (of_int (from_be (py_slice buf 2 4)))"
    "get_u16 buf 10 = Some (of_int (from_be (py_slice buf 10 12)))"
    using assms by (intro get_u16_eq, linarith, simp)+
  show "get_u32 buf 20 = Some (of_int (from_be (py_slice buf 20 24)))" "rd buf 16 = Some (buf ! 16)"
    using assms get_u32_eq [of 20 buf] by (simp_all add: rd_def)
qed

lemma header_ids:
  "(of_int (from_be (py_slice buf 0 2)) = (of_int SD_SERVICE_ID :: 16 word)) = (from_be (py_slice buf 0 2) = SD_SERVICE_ID)"
  "(of_int (from_be (py_slice buf 2 4)) = (of_int SD_METHOD_ID :: 16 word)) = (from_be (py_slice buf 2 4) = SD_METHOD_ID)"
  by (simp_all only: word_from_be_eq) simp_all

lemma sd_parse_start:
  assumes "28 \<le> len" "len \<le> length buf" "n = nat (from_be (py_slice buf 20 24))"
  shows "sd_parse (Some buf) len (Some out) =
      (if from_be (py_slice buf 0 2) \<noteq> SD_SERVICE_ID \<or> from_be (py_slice buf 2 4) \<noteq> SD_METHOD_ID
       then Some (-1, Some zero_parsed)
       else if n mod 16 \<noteq> 0 \<or> 4 < n div 16 then Some (-1, Some zero_parsed)
       else if len < 28 + n then Some (-1, Some zero_parsed)
       else do {
         m' \<leftarrow> get_u32 buf (24 + n);
         if len - (28 + n) < unat m' then Some (-1, Some zero_parsed)
         else do {
           slots \<leftarrow> entries_loop buf 24 n 0 (p_entries zero_parsed);
           (count, opts) \<leftarrow> options_loop buf (28 + n) (unat m') 0 0 (slots_of []);
           Some (0, Some \<lparr>p_flags = buf ! 16, p_session_id = of_int (from_be (py_slice buf 10 12)),
                      p_entry_count = of_nat (n div 16), p_entries = slots,
                      p_option_count = count, p_options = opts\<rparr>)
         }
       })"
proof -
  have "28 \<le> length buf" using assms(1,2) by linarith
  note reads = header_reads [OF this]
  have st: "(0, p_options zero_parsed) = slots_of []" by (simp add: slots_of_def endpoint_count_def zero_parsed_def)
  have n: "unat (of_int (from_be (py_slice buf 20 24)) :: 32 word) = n"
    using assms(3) by (simp add: word_from_be_eq)
  have off: "16 + 8 = (24 :: nat)" "24 + n + 4 = 28 + n" "\<not> len < 24 + 4" using assms(1) by simp_all
  show ?thesis
    unfolding sd_parse_def Let_def off prod.case option.case if_not_P [OF off(3)] reads bind.bind_lunit header_ids n
      SD_ENTRY_SIZE_def SD_MAX_ENTRIES_def st
    by (rule refl)
qed

lemma sd_parse_body:
  assumes "len \<le> length buf" "n = nat (from_be (py_slice buf 20 24))"
    and "m = nat (from_be (py_slice buf (24 + n) (28 + n)))"
  shows "sd_parse (Some buf) len (Some out) =
    (if sd_framed buf len
     then do {
       (count, opts) \<leftarrow> options_loop buf (28 + n) m 0 0 (slots_of []);
       Some (0, Some \<lparr>p_flags = buf ! 16, p_session_id = of_int (from_be (py_slice buf 10 12)),
                      p_entry_count = of_nat (n div 16), p_entries = entry_slots buf (n div 16),
                      p_option_count = count, p_options = opts\<rparr>)
     }
     else Some (-1, Some zero_parsed))"
proof (cases "28 \<le> len")
  case True
  have m: "get_u32 buf (24 + n) = Some (of_int (from_be (py_slice buf (24 + n) (28 + n))))" if "28 + n \<le> len"
  proof -
    have "24 + n + 4 = 28 + n" "24 + n + 4 \<le> length buf" using that assms(1) by linarith+
    with get_u32_eq [of "24 + n" buf] show ?thesis by simp
  qed
  have lens: "unat (of_int (from_be (py_slice buf (24 + n) (28 + n))) :: 32 word) = m"
    using assms(3) by (simp add: word_from_be_eq)
  have framed: "sd_framed buf len \<longleftrightarrow> from_be (py_slice buf 0 2) = SD_SERVICE_ID \<and>
      from_be (py_slice buf 2 4) = SD_METHOD_ID \<and> n mod 16 = 0 \<and> n div 16 \<le> 4 \<and> 28 + n + m \<le> len"
    using True by (simp only: sd_framed_def Let_def flip: assms(2,3)) simp
  note start = sd_parse_start [OF True assms(1,2), of out]
  show ?thesis
  proof (cases "n mod 16 = 0 \<and> n div 16 \<le> 4 \<and> 28 + n \<le> len")
    case ok: True
    then have "entries_loop buf 24 n 0 (p_entries zero_parsed) = Some (entry_slots buf (n div 16))"
      using assms(1) by (intro entries_loop_all) auto
    with ok m show ?thesis unfolding start framed by (auto simp: lens)
  next
    case False
    then show ?thesis unfolding start framed by auto
  qed
next
  case False
  then show ?thesis by (simp add: sd_parse_def sd_framed_def Let_def)
qed

text \<open>Whatever the bytes, the option loop reads inside the block it was given, and nothing else.\<close>

lemma read_option_ok:
  assumes "i < 4" "unat (fst st) \<le> 4" "length (snd st) = 4"
  shows "unat (fst (read_option i b st)) \<le> 4 \<and> length (snd (read_option i b st)) = 4"
  using assms by (auto simp: read_option_def unat_of_nat simp del: of_nat_Suc)

lemma options_loop_safe:
  assumes "base + m \<le> length buf" "pos \<le> m" "m + 3 < 2 ^ 32" "i \<le> 4" "unat (fst st) \<le> 4" "length (snd st) = 4"
  shows "\<exists>st'. options_loop buf base m i pos st = Some st' \<and> unat (fst st') \<le> 4 \<and> length (snd st') = 4"
  using assms
proof (induction "4 - i" arbitrary: i pos st)
  case 0
  then show ?case by (simp add: options_loop_end)
next
  case (Suc d)
  define v where "v = nat (from_be (py_slice buf (base + pos) (base + pos + 2)))"
  show ?case
  proof (cases "pos + 3 \<le> m")
    case True
    then show ?thesis
      using options_loop_pass [OF _ True _ Suc.prems(1) v_def, where i = i and st = st] Suc.prems Suc.hyps(2)
        Suc.hyps(1) [of "i + 1" "pos + (v + 3)"] read_option_ok [of i st] by (cases st) auto
  qed (use Suc.prems in \<open>simp add: options_loop_end\<close>)
qed

lemma options_loop_take:
  assumes "base + m \<le> len" "len \<le> length buf" "pos \<le> m" "m + 3 < 2 ^ 32"
  shows "options_loop (take len buf) base m i pos st = options_loop buf base m i pos st"
  using assms
proof (induction "4 - i" arbitrary: i pos st)
  case 0
  then show ?case by (simp add: options_loop_end)
next
  case (Suc d)
  let ?v = "nat (from_be (py_slice buf (base + pos) (base + pos + 2)))"
  have sl: "py_slice (take len buf) a b = py_slice buf a b" if "b \<le> len" for a b
    using that by (rule py_slice_prefix)
  show ?case
  proof (cases "pos + 3 \<le> m")
    case True
    have v: "?v = nat (from_be (py_slice (take len buf) (base + pos) (base + pos + 2)))"
      using True Suc.prems(1) by (simp add: sl)
    show ?thesis
      using options_loop_pass [OF _ True _ _ refl, where buf = buf and base = base and i = i and st = st]
        options_loop_pass [OF _ True _ _ v, where i = i and st = st]
        Suc.prems Suc.hyps(2) Suc.hyps(1) [of "i + 1" "pos + (?v + 3)"] sl [of "base + pos + (?v + 3)" "base + pos"]
      by simp
  qed (use Suc.prems in \<open>simp add: options_loop_end\<close>)
qed

lemma sd_framed_take:
  assumes "len \<le> length buf"
  shows "sd_framed (take len buf) len = sd_framed buf len"
proof (cases "28 \<le> len")
  case True
  have sl: "py_slice (take len buf) a b = py_slice buf a b" if "b \<le> len" for a b
    using that by (rule py_slice_prefix)
  define n where "n = nat (from_be (py_slice buf 20 24))"
  have n: "n = nat (from_be (py_slice (take len buf) 20 24))" using True by (simp add: n_def sl)
  show ?thesis
    using True sl [of 2 0] sl [of 4 2] sl [of "28 + n" "24 + n"]
    by (cases "28 + n \<le> len") (simp_all add: sd_framed_def Let_def flip: n n_def del: py_slice_0)
qed (simp add: sd_framed_def Let_def)

text \<open>The parser depends on the received bytes only, not on what follows them in the buffer.\<close>

lemma sd_parse_take:
  assumes "len \<le> length buf" "len < 2 ^ 32"
  shows "sd_parse (Some (take len buf)) len (Some out) = sd_parse (Some buf) len (Some out)"
proof -
  define n where "n = nat (from_be (py_slice buf 20 24))"
  define m where "m = nat (from_be (py_slice buf (24 + n) (28 + n)))"
  have len: "len \<le> length (take len buf)" using assms(1) by simp
  show ?thesis
  proof (cases "sd_framed buf len")
    case True
    then have fits: "28 + n + m \<le> len"
      by (simp add: sd_framed_def Let_def flip: n_def m_def)
    have sl: "py_slice (take len buf) a b = py_slice buf a b" if "b \<le> len" for a b
      using that by (rule py_slice_prefix)
    have nm: "n = nat (from_be (py_slice (take len buf) 20 24))"
      "m = nat (from_be (py_slice (take len buf) (24 + n) (28 + n)))"
      using fits by (simp_all add: sl n_def m_def)
    have "40 + 16 * j \<le> len" if "j < n div 16" for j using that fits by linarith
    then have "entry_slots (take len buf) (n div 16) = entry_slots buf (n div 16)"
      by (simp add: entry_slots_def sl)
    moreover have "options_loop (take len buf) (28 + n) m 0 0 (slots_of []) = options_loop buf (28 + n) m 0 0 (slots_of [])"
      using fits assms by (intro options_loop_take) auto
    moreover have "take len buf ! 16 = buf ! 16" "py_slice (take len buf) 10 12 = py_slice buf 10 12"
      using fits sl by simp_all
    ultimately show ?thesis
      using sd_framed_take [OF assms(1)] by (simp add: sd_parse_body [OF len nm] sd_parse_body [OF assms(1) n_def m_def])
  next
    case False
    then show ?thesis
      using sd_framed_take [OF assms(1)] sd_parse_body [OF len refl refl] sd_parse_body [OF assms(1) refl refl] by simp
  qed
qed

section \<open>Properties of the parser\<close>

definition mcu_view :: "sd_info \<Rightarrow> sd_parsed" where
  "mcu_view info =
     (case slots_of (take 4 (info_options info)) of (count, opts) \<Rightarrow>
      \<lparr>p_flags = of_int (info_flags info), p_session_id = of_int (info_session_id info),
       p_entry_count = of_nat (length (info_entries info)),
       p_entries = map mcu_entry_view (info_entries info) @
         replicate (4 - length (info_entries info)) zero_entry,
       p_option_count = count, p_options = opts\<rparr>)"

text \<open>Every call with a length inside the buffer returns.\<close>

lemma sd_parse_safe:
  assumes "len \<le> length buf" "len < 2 ^ 32"
  shows "\<exists>r parsed. sd_parse (Some buf) len (Some out) = Some (r, Some parsed) \<and>
    (if sd_framed buf len then r = 0 else r = -1 \<and> parsed = zero_parsed) \<and>
    unat (p_entry_count parsed) \<le> 4 \<and> length (p_entries parsed) = 4 \<and>
    unat (p_option_count parsed) \<le> 4 \<and> length (p_options parsed) = 4"
proof (cases "sd_framed buf len")
  case False
  then show ?thesis unfolding sd_parse_body [OF assms(1) refl refl]
    by (simp add: zero_parsed_def)
next
  case True
  define n where "n = nat (from_be (py_slice buf 20 24))"
  define m where "m = nat (from_be (py_slice buf (24 + n) (28 + n)))"
  have fits: "28 + n + m \<le> len" "n div 16 \<le> 4"
    using True by (simp_all add: sd_framed_def Let_def n_def [symmetric] m_def [symmetric])
  obtain c os where "options_loop buf (28 + n) m 0 0 (slots_of []) = Some (c, os)" "unat c \<le> 4" "length os = 4"
    using options_loop_safe [of "28 + n" m buf 0 0 "slots_of []"] fits assms
    by (auto simp: slots_of_def endpoint_count_def)
  with True fits show ?thesis
    unfolding sd_parse_body [OF assms(1) n_def m_def]
    by (simp add: entry_slots_def unat_of_nat)
qed

text \<open>
  C9: the firmware's parser never reads outside the received bytes.  For every buffer and
  every length up to its size, sd\_parse returns: 0 exactly when the message is a service
  discovery message whose lengths fit, else -1 with the record cleared; and the counts it
  reports never exceed the four slots of its arrays.
\<close>

theorem sd_parse_memory_safe:
  assumes "len \<le> length buf" "len < 2 ^ 32"
  shows "\<exists>r parsed. sd_parse (Some buf) len (Some out) = Some (r, Some parsed) \<and>
    (if sd_framed buf len then r = 0 else r = -1 \<and> parsed = zero_parsed) \<and>
    unat (p_entry_count parsed) \<le> 4 \<and> length (p_entries parsed) = 4 \<and>
    unat (p_option_count parsed) \<le> 4 \<and> length (p_options parsed) = 4"
  using assms by (rule sd_parse_safe)

theorem sd_parse_memory_safe_witness:
  "\<exists>r parsed. sd_parse (Some (replicate 64 255)) 64 (Some zero_parsed) = Some (r, Some parsed) \<and>
    unat (p_entry_count parsed) \<le> 4 \<and> unat (p_option_count parsed) \<le> 4"
  using sd_parse_memory_safe [of 64 "replicate 64 255" zero_parsed] by auto

lemma parse_sd_Inr:
  assumes "parse_sd p = Inr info" "n = nat (from_be (py_slice p 20 24))"
    and "m = nat (from_be (py_slice p (24 + n) (28 + n)))"
  shows "sd_header_ok p \<and> n mod 16 = 0 \<and> 28 + n + m \<le> length p \<and>
    info_session_id info = from_be (py_slice p 10 12) \<and> info_flags info = uint (p ! 16) \<and>
    info_entries info = map (\<lambda>k. entry_of (py_slice p (24 + 16 * k) (40 + 16 * k))) [0..<n div 16] \<and>
    parse_options (py_slice p (28 + n) (28 + n + m)) 0 = Inr (info_options info)"
proof -
  have ok: "16 \<le> length p" "sd_header_ok p"
    using parse_sd_bad_header [of p] assms(1) by (metis Inl_Inr_False not_le)+
  note run = parse_sd_body [OF ok, unfolded Let_def, folded assms(2), folded assms(3), unfolded assms(1)]
  have "length p \<noteq> 16" using run by (auto simp: py_index_def)
  with ok have idx: "py_index p 16 = Inr (uint (p ! 16))" by (simp add: py_index_def)
  have fits: "n mod 16 = 0" "28 + n + m \<le> length p"
    using run idx by (auto split: if_splits)
  have len: "length (py_slice p 24 (24 + n)) = n" "n = 16 * (n div 16)" using fits by auto
  have "py_slice (py_slice p 24 (24 + n)) (16 * k) (16 * k + 16) = py_slice p (24 + 16 * k) (40 + 16 * k)"
    if "k < n div 16" for k
  proof -
    have "16 * k + 16 \<le> n" using that by linarith
    then show ?thesis by (simp add: nested_slice add.commute add.left_commute)
  qed
  then have "parse_entries (py_slice p 24 (24 + n)) (range16 n) =
      Inr (map (\<lambda>k. entry_of (py_slice p (24 + 16 * k) (40 + 16 * k))) [0..<n div 16])"
    using parse_entries_total [of "py_slice p 24 (24 + n)" "n div 16"] len by simp
  with run idx fits ok show ?thesis by (auto simp: res_bind_Inr_iff eq_commute [of "Inr info"] split: if_splits)
qed

lemma sd_parse_view:
  assumes "parse_sd (take len buf) = Inr info" "len \<le> length buf" "len < 2 ^ 32"
  shows "sd_parse (Some buf) len (Some out) =
    Some (if length (info_entries info) \<le> 4 then (0, Some (mcu_view info)) else (-1, Some zero_parsed))"
proof -
  let ?p = "take len buf"
  define n where "n = nat (from_be (py_slice ?p 20 24))"
  define m where "m = nat (from_be (py_slice ?p (24 + n) (28 + n)))"
  have sl: "py_slice ?p a b = py_slice buf a b" if "b \<le> len" for a b
    using that by (rule py_slice_prefix)
  have len: "length ?p = len" using assms(2) by simp
  note info = parse_sd_Inr [OF assms(1) n_def m_def, unfolded len]
  then have fits: "28 + n + m \<le> len" "n mod 16 = 0" by simp_all
  have nm: "n = nat (from_be (py_slice buf 20 24))" "m = nat (from_be (py_slice buf (24 + n) (28 + n)))"
    unfolding n_def [symmetric] using n_def m_def sl [of 24 20] sl [of "28 + n" "24 + n"] fits(1) by simp_all
  have ids: "from_be (py_slice buf 0 2) = SD_SERVICE_ID" "from_be (py_slice buf 2 4) = SD_METHOD_ID"
    using info fits(1) by (simp_all add: sd_header_ok_def sl del: py_slice_0)
  have es: "info_entries info = map (\<lambda>k. entry_of (py_slice buf (24 + 16 * k) (40 + 16 * k))) [0..<n div 16]"
    using info fits(1) by (auto simp: sl)
  have opts: "parse_options (py_slice buf (28 + n) (28 + n + m)) 0 = Inr (info_options info)"
    using info fits(1) by (simp add: sl)
  have "options_loop buf (28 + n) m 0 0 (slots_of []) = Some (slots_of (take 4 (info_options info)))"
    using options_loop_eq [OF opts refl, of "[]"] fits assms by simp
  moreover have "sd_framed buf len \<longleftrightarrow> n div 16 \<le> 4"
    using fits ids by (simp add: sd_framed_def Let_def flip: nm)
  ultimately show ?thesis
    using info es fits unfolding sd_parse_body [OF assms(2) nm]
    by (simp add: mcu_view_def entry_slots_def sl o_def split: prod.split)
qed
text \<open>
  C8: the firmware's parser agrees with \<open>parse_sd\<close>.  A packet that sd.py parses is accepted
  by sd\_parse when it has at most four entries, and the record it fills is the view of
  \<open>parse_sd\<close>'s result: every entry, and of the first four options the IPv4 endpoints at their
  positions.  With more entries it is refused.
\<close>

theorem sd_parse_refines_python:
  assumes "parse_sd (take len buf) = Inr info" "len \<le> length buf" "len < 2 ^ 32"
  shows "sd_parse (Some buf) len (Some out) =
    Some (if length (info_entries info) \<le> 4 then (0, Some (mcu_view info)) else (-1, Some zero_parsed))"
  using assms by (rule sd_parse_view)

text \<open>The offer of the host test of the firmware, produced by sd.py.\<close>

definition py_offer :: bytes where
  "py_offer =
    [0xFF, 0xFF, 0x81, 0x00, 0x00, 0x00, 0x00, 0x30, 0x00, 0x00, 0x00, 0x01,
     0x01, 0x01, 0x02, 0x00, 0x40, 0x00, 0x00, 0x00, 0x00, 0x00, 0x00, 0x10,
     0x01, 0x00, 0x00, 0x10, 0x12, 0x34, 0x56, 0x78, 0x01, 0xFF, 0xFF, 0xFF,
     0x00, 0x00, 0x00, 0x00, 0x00, 0x00, 0x00, 0x0C, 0x00, 0x09, 0x04, 0x00,
     0x0A, 0x00, 0x02, 0x0F, 0x00, 0x11, 0x77, 0x1A]"

definition py_offer_info :: sd_info where
  "py_offer_info = \<lparr>info_session_id = 1, info_flags = 0x40,
     info_entries = [\<lparr>entry_type = 1, service_id = 0x1234, instance_id = 0x5678, major_version = 1,
       ttl = 0xFFFFFF, minor_version = Some 0, eventgroup_id = None\<rparr>],
     info_options = [\<lparr>option_type = 4, endpoint = Some (''10.0.2.15'', 0x11, 30490)\<rparr>]\<rparr>"

lemma py_offer_parsed: "parse_sd (take 56 (py_offer @ replicate 8 0)) = Inr py_offer_info"
  by code_simp

lemma py_offer_view:
  "mcu_view py_offer_info =
     \<lparr>p_flags = 0x40, p_session_id = 1, p_entry_count = 1,
      p_entries = \<lparr>e_type = 1, e_service_id = 0x1234, e_instance_id = 0x5678, e_major_version = 1,
        e_ttl = 0xFFFFFF, e_eventgroup_id = 0\<rparr> # replicate 3 zero_entry,
      p_option_count = 1,
      p_options = \<lparr>o_type = 4, o_address = [10, 0, 2, 15], o_l4_proto = 0x11, o_port = 30490\<rparr> #
        replicate 3 zero_option\<rparr>"
  by code_simp

theorem sd_parse_refines_python_witness:
  "sd_parse (Some (py_offer @ replicate 8 0)) 56 (Some zero_parsed) =
     Some (0, Some
       \<lparr>p_flags = 0x40, p_session_id = 1, p_entry_count = 1,
        p_entries = \<lparr>e_type = 1, e_service_id = 0x1234, e_instance_id = 0x5678, e_major_version = 1,
          e_ttl = 0xFFFFFF, e_eventgroup_id = 0\<rparr> # replicate 3 zero_entry,
        p_option_count = 1,
        p_options = \<lparr>o_type = 4, o_address = [10, 0, 2, 15], o_l4_proto = 0x11, o_port = 30490\<rparr> #
          replicate 3 zero_option\<rparr>)"
proof -
  have "length (info_entries py_offer_info) \<le> 4" "length (py_offer @ replicate 8 0) = 64"
    by (simp_all add: py_offer_info_def py_offer_def)
  with sd_parse_refines_python [OF py_offer_parsed, of zero_parsed] show ?thesis
    unfolding py_offer_view by simp
qed

text \<open>
  The firmware does not look at the message type: \<open>sd_framed\<close> holds for a request, which
  sd.py refuses.
\<close>

lemma sd_framed_ignores_message_type:
  "sd_framed (py_offer[14 := 0]) 56"
  "parse_sd (py_offer[14 := 0]) = Inl (ValueError (UnexpectedSdMessageType 0))"
  by code_simp+

end
