(* ===== verification/Mcu_Receiver.thy ===== *)
theory Mcu_Receiver
  imports Stream_Parser
begin

text \<open>
  The receiving side of the firmware, \<open>MCU/src/someip_service.cpp\<close>: the UART state machine
  \<open>someip_uart_receive\<close>, which mpu's StreamParser mirrors, and the event branch of
  \<open>someip_udp_receive\<close>.  The input of the UART is a list of passes of the loop
  \<open>while (1)\<close>: the uptime read by the resynchronisation check, and the bytes
  \<open>uart_poll_in\<close> hands out until it reports none, each with the uptime read for it.
\<close>

section \<open>The UART receiver\<close>

record mcu_rx =
  rx_buf :: bytes
  rx_len :: nat
  last_rx_tick :: int

definition rx_boot :: mcu_rx where
  "rx_boot = \<lparr>rx_buf = replicate 64 0, rx_len = 0, last_rx_tick = 0\<rparr>"

type_synonym pass = "int \<times> (int \<times> byte) list"

definition rx_check :: "int \<Rightarrow> mcu_rx \<Rightarrow> mcu_rx" where
  "rx_check now rx = (if rx_len rx > 0 \<and> now - last_rx_tick rx > 50 then rx\<lparr>rx_len := 0\<rparr> else rx)"

text \<open>The body of the inner loop, for one byte: an event when the function returns 0 here.\<close>

definition rx_byte :: "byte \<Rightarrow> int \<Rightarrow> mcu_rx \<Rightarrow> (16 word \<times> byte) option \<times> mcu_rx" where
  "rx_byte b now rx =
     (let rx1 = rx\<lparr>last_rx_tick := now\<rparr> in
      if rx_len rx1 \<ge> 64 then (None, rx1\<lparr>rx_len := 0\<rparr>)
      else
        let rx2 = rx1\<lparr>rx_buf := (rx_buf rx1)[rx_len rx1 := b], rx_len := rx_len rx1 + 1\<rparr> in
        if rx_len rx2 \<ge> HEADER_SIZE then
          let hdr = rx_buf rx2; len = from_be (py_slice hdr 4 8) in
          if len < 8 \<or> len > 32 then (None, rx2\<lparr>rx_len := 0\<rparr>)
          else
            let total = HEADER_SIZE + nat (len - 8) in
            if rx_len rx2 \<ge> total then
              if from_be (py_slice hdr 0 2) = SERVICE_ID \<and> hdr ! 14 = 0x02
              then (Some (word_of_int (from_be (py_slice hdr 2 4)), hdr ! 16), rx2\<lparr>rx_len := 0\<rparr>)
              else (None, rx2\<lparr>rx_len := 0\<rparr>)
            else (None, rx2)
        else (None, rx2))"

text \<open>The inner loop: it ends without a byte, or inside a byte with an event.\<close>

fun rx_drain :: "(int \<times> byte) list \<Rightarrow> mcu_rx \<Rightarrow> (16 word \<times> byte) option \<times> (int \<times> byte) list \<times> mcu_rx" where
  "rx_drain [] rx = (None, [], rx)"
| "rx_drain ((now, b) # bs) rx =
     (case rx_byte b now rx of
        (Some ev, rx1) \<Rightarrow> (Some ev, bs, rx1)
      | (None, rx1) \<Rightarrow> rx_drain bs rx1)"

text \<open>
  A call of \<open>someip_uart_receive\<close>: the event, the input that is left in the device and the
  state, or None while the input has no event in it and the call keeps polling.  The bytes
  left over from the last pass come first in the next call; its check is then idle, because
  the buffer is empty.
\<close>

fun uart_receive :: "pass list \<Rightarrow> mcu_rx \<Rightarrow> ((16 word \<times> byte) \<times> pass list \<times> mcu_rx) option" where
  "uart_receive [] rx = None"
| "uart_receive ((now, bs) # passes) rx =
     (case rx_drain bs (rx_check now rx) of
        (Some ev, rest, rx1) \<Rightarrow> Some (ev, (now, rest) # passes, rx1)
      | (None, _, rx1) \<Rightarrow> uart_receive passes rx1)"

definition input_size :: "pass list \<Rightarrow> nat" where
  "input_size passes = sum_list (map (length \<circ> snd) passes)"

lemma rx_drain_shorter: "rx_drain bs rx = (Some ev, rest, rx1) \<Longrightarrow> length rest < length bs"
proof (induction bs arbitrary: rx)
  case (Cons tb bs)
  then show ?case by (cases tb) (fastforce split: prod.splits option.splits)
qed simp

lemma uart_receive_shorter:
  "uart_receive passes rx = Some (ev, passes', rx') \<Longrightarrow> input_size passes' < input_size passes"
proof (induction passes rx rule: uart_receive.induct)
  case (2 now bs passes rx)
  then show ?case
    by (auto simp: input_size_def split: prod.splits option.splits dest!: rx_drain_shorter intro: trans_less_add2)
qed simp

text \<open>The events that the loop of \<open>someip_thread\<close> gets from call after call.\<close>

function receive_all :: "pass list \<Rightarrow> mcu_rx \<Rightarrow> (16 word \<times> byte) list" where
  "receive_all passes rx =
     (case uart_receive passes rx of
        None \<Rightarrow> []
      | Some (ev, passes', rx') \<Rightarrow> ev # receive_all passes' rx')"
  by pat_completeness auto
termination
  by (relation "measure (\<lambda>(passes, rx). input_size passes)") (auto dest: uart_receive_shorter)

declare receive_all.simps [simp del]

section \<open>One byte, against the parser of the MPU\<close>

text \<open>The receiver holds the bytes \<open>xs\<close>; what lies behind them in its buffer is left over.\<close>

definition rx_holds :: "mcu_rx \<Rightarrow> bytes \<Rightarrow> bool" where
  "rx_holds rx xs \<longleftrightarrow>
     length (rx_buf rx) = 64 \<and> rx_len rx = length xs \<and> take (length xs) (rx_buf rx) = xs \<and>
     assemble xs = (None, xs)"

text \<open>The event as the firmware hands it on: one byte, the old one where the payload is empty.\<close>

definition mcu_event :: "byte \<Rightarrow> int \<times> bytes \<Rightarrow> 16 word \<times> byte" where
  "mcu_event stale ev = (word_of_int (fst ev), (if snd ev = [] then stale else hd (snd ev)))"

lemma assemble_eq:
  assumes "16 \<le> length xs" "length xs \<le> 40" "len = from_be (py_slice xs 4 8)"
  shows "assemble xs =
    (if len < 8 \<or> 32 < len then (None, [])
     else if length xs < 16 + nat (len - 8) then (None, xs)
     else if from_be (py_slice xs 0 2) = SERVICE_ID \<and> xs ! 14 = 2
     then (Some (from_be (py_slice xs 2 4), py_slice xs 16 (16 + nat (len - 8))), [])
     else (None, []))"
proof -
  have "py_slice xs 14 15 = [xs ! 14]" using assms(1) py_slice_single [of 14 xs] by simp
  moreover have "uint (xs ! 14) = 2 \<longleftrightarrow> xs ! 14 = 2"
    by (simp add: word_uint_eq_iff)
  ultimately show ?thesis
    using assms by (auto simp: assemble_def parse_event_eq Let_def py_slice_prefix simp del: py_slice_0)
qed

lemma assemble_settled: "assemble (snd (assemble xs)) = (None, snd (assemble xs))"
  by (auto simp: assemble_def Let_def)

lemma partial_frame:
  assumes "assemble xs = (None, xs)" "16 \<le> length xs"
  shows "8 \<le> frame_len xs \<and> frame_len xs \<le> 32 \<and> length xs < 16 + nat (frame_len xs - 8)"
  using assms by (auto simp: assemble_def frame_len_def Let_def split: if_splits)

lemma partial_short: "assemble xs = (None, xs) \<Longrightarrow> length xs \<le> 39"
  using partial_frame [of xs] by linarith

lemma take_Suc_update:
  assumes "length mem = 64" "take (length xs) mem = xs" "length xs \<le> 39"
  shows "take (Suc (length xs)) (mem[length xs := b]) = xs @ [b]"
  using assms by (simp add: take_Suc_conv_app_nth)

lemma hd_py_slice: "a < b \<Longrightarrow> a < length xs \<Longrightarrow> py_slice xs a b \<noteq> [] \<and> hd (py_slice xs a b) = xs ! a"
  by (simp add: py_slice_def hd_drop_conv_nth)

text \<open>A byte that completes a header or follows one: \<open>ys\<close> are the bytes held with it.\<close>

lemma rx_byte_frame:
  assumes "length (rx_buf rx) = 64" "rx_len rx = length xs" "length xs \<le> 39" "16 \<le> length ys"
    and "mem = (rx_buf rx)[length xs := b]" "ys = xs @ [b]" "take (length ys) mem = ys" "len = from_be (py_slice ys 4 8)"
  shows "rx_byte b now rx =
      (let rx' = rx\<lparr>last_rx_tick := now, rx_buf := mem, rx_len := length ys\<rparr> in
       if len < 8 \<or> 32 < len then (None, rx'\<lparr>rx_len := 0\<rparr>)
       else if length ys < 16 + nat (len - 8) then (None, rx')
       else if from_be (py_slice ys 0 2) = SERVICE_ID \<and> ys ! 14 = 2
       then (Some (word_of_int (from_be (py_slice ys 2 4)), mem ! 16), rx'\<lparr>rx_len := 0\<rparr>)
       else (None, rx'\<lparr>rx_len := 0\<rparr>))"
proof -
  have slice: "py_slice mem i j = py_slice ys i j" if "j \<le> 16" for i j
    using py_slice_prefix [of j "length ys" mem i] assms(4,7) that by simp
  have "mem ! 14 = ys ! 14" using nth_take [of 14 "length ys" mem] assms(4,7) by simp
  moreover have "length ys = Suc (length xs)" using assms(6) by simp
  ultimately show ?thesis
    using assms(1-4) slice [of 8 4] slice [of 2 0] slice [of 4 2]
    by (simp add: rx_byte_def Let_def assms(5) [symmetric] assms(8) not_less not_le del: py_slice_0)
qed

text \<open>The payload byte of a complete frame, or the stale one if there is none.\<close>

lemma rx_payload:
  assumes "assemble xs = (None, xs)" "ys = xs @ [b]" "length mem = 64" "take (length ys) mem = ys"
    and "mem = old[length xs := b]" "len = from_be (py_slice ys 4 8)" "8 \<le> len" "16 + nat (len - 8) \<le> length ys"
  shows "mem ! 16 = snd (mcu_event (old ! 16) (e, py_slice ys 16 (16 + nat (len - 8))))"
proof (cases "len = 8")
  case True
  have "length xs < 16"
  proof (rule ccontr)
    assume long: "\<not> length xs < 16"
    then have "frame_len xs = 8" using True assms(2,6) by (simp add: frame_len_def py_slice_append_left)
    with partial_frame [OF assms(1)] long show False by simp
  qed
  with True assms(5) show ?thesis by (simp add: mcu_event_def py_slice_def)
next
  case False
  with assms(7,8) have "16 < length ys" "16 < 16 + nat (len - 8)" by auto
  with nth_take [of 16 "length ys" mem] hd_py_slice [of 16 "16 + nat (len - 8)" ys] assms(4)
  show ?thesis by (simp add: mcu_event_def)
qed

lemma rx_byte_step:
  assumes "rx_holds rx xs" "assemble (xs @ [b]) = (ev, ys)"
  shows "\<exists>rx'. rx_byte b now rx = (map_option (mcu_event (rx_buf rx ! 16)) ev, rx') \<and> rx_holds rx' ys \<and>
    last_rx_tick rx' = now"
proof -
  let ?mem = "(rx_buf rx)[length xs := b]" and ?ys = "xs @ [b]"
  define len where "len = from_be (py_slice ?ys 4 8)"
  from assms(1) have rx: "length (rx_buf rx) = 64" "rx_len rx = length xs"
      "take (length xs) (rx_buf rx) = xs" "assemble xs = (None, xs)" by (auto simp: rx_holds_def)
  have short: "length xs \<le> 39" using partial_short [OF rx(4)] .
  have settled: "assemble ys = (None, ys)" using assemble_settled [of ?ys] assms(2) by simp
  have mem: "take (Suc (length xs)) ?mem = ?ys" "length ?mem = 64"
    using take_Suc_update [OF rx(1,3) short] rx(1) by simp_all
  show ?thesis
  proof (cases "16 \<le> length ?ys")
    case False
    then have "ev = None" "ys = ?ys" using assms(2) by (simp_all add: assemble_short)
    with False rx short mem settled show ?thesis
      by (simp add: rx_byte_def rx_holds_def Let_def)
  next
    case True
    have full: "take (length ?ys) ?mem = ?ys" using mem(1) by simp
    note step = rx_byte_frame [OF rx(1,2) short True refl refl full len_def, of now, unfolded Let_def]
    have asm: "(ev, ys) =
      (if len < 8 \<or> 32 < len then (None, [])
       else if length ?ys < 16 + nat (len - 8) then (None, ?ys)
       else if from_be (py_slice ?ys 0 2) = SERVICE_ID \<and> ?ys ! 14 = 2
       then (Some (from_be (py_slice ?ys 2 4), py_slice ?ys 16 (16 + nat (len - 8))), [])
       else (None, []))"
      using assemble_eq [OF True _ len_def] short assms(2) by (simp del: py_slice_0)
    have idle: "rx_holds (rx\<lparr>last_rx_tick := now, rx_buf := ?mem, rx_len := 0\<rparr>) []"
      using rx(1) by (simp add: rx_holds_def assemble_short)
    consider "len < 8 \<or> 32 < len" | "\<not> (len < 8 \<or> 32 < len)" "length ?ys < 16 + nat (len - 8)"
      | "\<not> (len < 8 \<or> 32 < len)" "\<not> length ?ys < 16 + nat (len - 8)" by blast
    then show ?thesis
    proof cases
      case 2
      with asm have "ev = None" "ys = ?ys" by (simp_all del: py_slice_0)
      with 2 settled mem show ?thesis unfolding step by (simp add: rx_holds_def del: py_slice_0)
    next
      case 3
      with rx_payload [OF rx(4) refl mem(2) full refl len_def, of "from_be (py_slice ?ys 2 4)"] asm idle show ?thesis
        unfolding step by (auto simp: mcu_event_def simp del: py_slice_0 split: if_splits)
    qed (use asm idle in \<open>simp add: step del: py_slice_0\<close>)
  qed
qed

section \<open>The receiver against the untimed machine\<close>

text \<open>
  The bytes reassembled pass by pass: the check at the head of a pass drops what is held
  when the last byte is more than 50 ms old.
\<close>

fun timed_reassemble :: "bytes \<Rightarrow> int \<Rightarrow> pass list \<Rightarrow> (int \<times> bytes) list" where
  "timed_reassemble xs tick [] = []"
| "timed_reassemble xs tick ((now, bs) # passes) =
     (case reassemble (if now - tick > 50 then [] else xs) (map snd bs) of
        (evs, ys) \<Rightarrow> evs @ timed_reassemble ys (last (tick # map fst bs)) passes)"

lemma rx_check_holds:
  assumes "rx_holds rx xs"
  shows "rx_holds (rx_check now rx) (if now - last_rx_tick rx > 50 then [] else xs)"
    and "last_rx_tick (rx_check now rx) = last_rx_tick rx"
  using assms by (auto simp: rx_holds_def rx_check_def assemble_def)

lemma rx_drain_reassemble:
  assumes "rx_holds rx xs"
  shows "case rx_drain bs rx of
      (None, rest, rx') \<Rightarrow> rest = [] \<and> fst (reassemble xs (map snd bs)) = [] \<and>
        rx_holds rx' (snd (reassemble xs (map snd bs))) \<and> last_rx_tick rx' = last (last_rx_tick rx # map fst bs)
    | (Some e, rest, rx') \<Rightarrow> rx_holds rx' [] \<and> last (last_rx_tick rx' # map fst rest) = last (last_rx_tick rx # map fst bs) \<and>
        (\<exists>stale ev. e = mcu_event stale ev \<and>
          reassemble xs (map snd bs) = (ev # fst (reassemble [] (map snd rest)), snd (reassemble [] (map snd rest))))"
  using assms
proof (induction bs arbitrary: rx xs)
  case Nil
  then show ?case by simp
next
  case (Cons tb bs)
  obtain t b where tb: "tb = (t, b)" by (cases tb)
  obtain ev ys where asm: "assemble (xs @ [b]) = (ev, ys)" by (cases "assemble (xs @ [b])")
  from rx_byte_step [OF Cons.prems asm, of t] obtain rx' where
    rx': "rx_byte b t rx = (map_option (mcu_event (rx_buf rx ! 16)) ev, rx')" "rx_holds rx' ys" "last_rx_tick rx' = t"
    by blast
  show ?case
  proof (cases ev)
    case None
    have "rx_drain (tb # bs) rx = rx_drain bs rx'"
      "reassemble xs (map snd (tb # bs)) = reassemble ys (map snd bs)"
      "last (last_rx_tick rx # map fst (tb # bs)) = last (last_rx_tick rx' # map fst bs)"
      using None rx' asm by (simp_all add: tb split: prod.split)
    with Cons.IH [OF rx'(2)] show ?thesis by (simp only:)
  next
    case (Some e)
    then have "ys = []" using assemble_Some(1) asm by blast
    moreover have "reassemble xs (map snd (tb # bs)) = (e # fst (reassemble [] (map snd bs)), snd (reassemble [] (map snd bs)))"
      using asm Some calculation by (simp add: tb split: prod.split)
    moreover have "rx_drain (tb # bs) rx = (Some (mcu_event (rx_buf rx ! 16) e), bs, rx')"
      using rx'(1) Some by (simp add: tb)
    moreover have "\<exists>stale ev'. mcu_event (rx_buf rx ! 16) e = mcu_event stale ev' \<and>
        (e # fst (reassemble [] (map snd bs)), snd (reassemble [] (map snd bs))) =
        (ev' # fst (reassemble [] (map snd bs)), snd (reassemble [] (map snd bs)))" by blast
    ultimately show ?thesis using rx' by (simp only: option.case prod.case) (simp add: tb)
  qed
qed

lemma uart_receive_reassemble:
  assumes "rx_holds rx xs"
  shows "case uart_receive passes rx of
      None \<Rightarrow> timed_reassemble xs (last_rx_tick rx) passes = []
    | Some (e, passes', rx') \<Rightarrow> rx_holds rx' [] \<and>
        (\<exists>stale ev. e = mcu_event stale ev \<and>
          timed_reassemble xs (last_rx_tick rx) passes = ev # timed_reassemble [] (last_rx_tick rx') passes')"
  using assms
proof (induction passes rx arbitrary: xs rule: uart_receive.induct)
  case (1 rx)
  then show ?case by simp
next
  case (2 now bs passes rx)
  let ?xs = "if now - last_rx_tick rx > 50 then [] else xs"
  note drain = rx_drain_reassemble [OF rx_check_holds(1) [OF "2.prems"], of now bs, unfolded rx_check_holds(2) [OF "2.prems"]]
  obtain oe rest rx1 where d: "rx_drain bs (rx_check now rx) = (oe, rest, rx1)" by (cases "rx_drain bs (rx_check now rx)")
  show ?case
  proof (cases oe)
    case None
    with drain d have "rx_holds rx1 (snd (reassemble ?xs (map snd bs)))" "fst (reassemble ?xs (map snd bs)) = []"
      "last_rx_tick rx1 = last (last_rx_tick rx # map fst bs)" by auto
    with "2.IH" [OF d [symmetric], of rest rx1] d None show ?thesis
      by (auto split: prod.splits option.splits)
  next
    case (Some e)
    with drain d show ?thesis by (auto split: prod.splits)
  qed
qed

text \<open>The event handed on agrees with the one parsed: its identifier, and its first payload byte.\<close>

definition same_event :: "16 word \<times> byte \<Rightarrow> int \<times> bytes \<Rightarrow> bool" where
  "same_event e ev \<longleftrightarrow> fst e = word_of_int (fst ev) \<and> (snd ev = [] \<or> snd e = hd (snd ev))"

lemma same_mcu_event: "same_event (mcu_event stale ev) ev"
  by (simp add: same_event_def mcu_event_def)

lemma receive_all_timed:
  assumes "rx_holds rx xs"
  shows "list_all2 same_event (receive_all passes rx) (timed_reassemble xs (last_rx_tick rx) passes)"
  using assms
proof (induction passes rx arbitrary: xs rule: receive_all.induct)
  case (1 passes rx)
  show ?case
  proof (cases "uart_receive passes rx")
    case None
    with uart_receive_reassemble [OF "1.prems", of passes] show ?thesis
      by (subst receive_all.simps) simp
  next
    case (Some r)
    obtain e passes' rx' where r: "r = (e, passes', rx')" by (cases r)
    from uart_receive_reassemble [OF "1.prems", of passes] Some r obtain stale ev where
      ev: "rx_holds rx' []" "e = mcu_event stale ev"
        "timed_reassemble xs (last_rx_tick rx) passes = ev # timed_reassemble [] (last_rx_tick rx') passes'"
      by auto
    have "list_all2 same_event (receive_all passes' rx') (timed_reassemble [] (last_rx_tick rx') passes')"
      using "1.IH" [OF Some] r ev(1) by simp
    with Some r ev show ?thesis
      by (subst receive_all.simps) (simp add: same_mcu_event)
  qed
qed

text \<open>A schedule without a pause: no check finds the last byte more than 50 ms old.\<close>

fun prompt_from :: "int \<Rightarrow> pass list \<Rightarrow> bool" where
  "prompt_from tick [] = True"
| "prompt_from tick ((now, bs) # passes) \<longleftrightarrow> now - tick \<le> 50 \<and> prompt_from (last (tick # map fst bs)) passes"

definition prompt :: "pass list \<Rightarrow> bool" where
  "prompt passes \<longleftrightarrow> (case passes of [] \<Rightarrow> True | (now, bs) # passes' \<Rightarrow> prompt_from now passes)"

definition input_bytes :: "pass list \<Rightarrow> bytes" where
  "input_bytes passes = concat (map (\<lambda>(now, bs). map snd bs) passes)"

lemma timed_reassemble_prompt:
  "prompt_from tick passes \<Longrightarrow> timed_reassemble xs tick passes = fst (reassemble xs (input_bytes passes))"
proof (induction xs tick passes rule: timed_reassemble.induct)
  case (2 xs tick now bs passes)
  then show ?case
    by (cases "reassemble xs (map snd bs)") (simp add: input_bytes_def reassemble_append)
qed (simp add: input_bytes_def)

lemma timed_reassemble_idle: "timed_reassemble [] tick passes = timed_reassemble [] tick' passes"
proof (induction passes arbitrary: tick tick')
  case (Cons p passes)
  obtain now bs where p: "p = (now, bs)" by (cases p)
  show ?case using Cons.IH [of tick tick'] by (cases "bs = []") (simp_all add: p)
qed simp

lemma rx_boot_holds: "rx_holds rx_boot []"
  by (simp add: rx_holds_def rx_boot_def assemble_short)

lemma receive_all_prompt:
  assumes "prompt passes"
  shows "list_all2 same_event (receive_all passes rx_boot) (fst (reassemble [] (input_bytes passes)))"
proof -
  have "timed_reassemble [] (last_rx_tick rx_boot) passes = fst (reassemble [] (input_bytes passes))"
  proof (cases passes)
    case (Cons p ps)
    then have "prompt_from (fst p) passes" using assms by (cases p) (simp add: prompt_def)
    from timed_reassemble_prompt [OF this, of "[]"] timed_reassemble_idle show ?thesis by metis
  qed (simp add: input_bytes_def)
  with receive_all_timed [OF rx_boot_holds, of passes] show ?thesis by simp
qed

text \<open>The firmware's receiver keeps the contract of the parser it mirrors.\<close>

interpretation uart_rx: frame_receiver prompt input_bytes "\<lambda>passes. receive_all passes rx_boot" same_event
  by unfold_locales (rule receive_all_prompt)

section \<open>Properties\<close>

text \<open>
  C7: the firmware's receiver and StreamParser are the same machine.  On any bytes that
  arrive without a pause, however the receiver's passes cut them up, the calls of
  \<open>someip_uart_receive\<close> deliver event for event what StreamParser delivers: the same
  identifiers in the same order, and the first payload byte of every payload that has one.
\<close>

theorem receiver_matches_stream_parser:
  assumes "prompt passes" "steady clk k (length (input_bytes passes)) DEFAULT_TIMEOUT_MS"
  shows "\<exists>evs p'. feed_bytes clk k (input_bytes passes) (new_stream_parser DEFAULT_TIMEOUT_MS) = (Inr evs, p') \<and>
    list_all2 same_event (receive_all passes rx_boot) evs"
proof -
  let ?p = "new_stream_parser DEFAULT_TIMEOUT_MS"
  from receive_all_prompt [OF assms(1)]
  have "list_all2 same_event (receive_all passes rx_boot) (fst (reassemble [] (input_bytes passes)))" .
  moreover have "buf ?p = []" "timeout_ms ?p = DEFAULT_TIMEOUT_MS" by (simp_all add: new_stream_parser_def)
  ultimately show ?thesis
    using feed_bytes_reassemble [of clk k "input_bytes passes" ?p] assms(2) by auto
qed

theorem receiver_matches_stream_parser_witness:
  "\<exists>evs p'. feed_bytes (\<lambda>i. real i / 1000) 0 (event_packet EVENT_NOTIFY 90 1) (new_stream_parser 50) = (Inr evs, p') \<and>
     list_all2 same_event
       (receive_all [(0, map (Pair 0) (take 10 (event_packet EVENT_NOTIFY 90 1))),
                     (10, map (Pair 10) (drop 10 (event_packet EVENT_NOTIFY 90 1)))] rx_boot) evs"
proof -
  let ?pkt = "event_packet EVENT_NOTIFY 90 1"
  let ?passes = "[(0, map (Pair 0) (take 10 ?pkt)), (10, map (Pair 10) (drop 10 ?pkt))]"
  have ticks: "map (fst \<circ> Pair t) xs = replicate (length xs) t" for t :: int and xs :: bytes
    by (induction xs) simp_all
  have last: "last (a # replicate n t) \<in> {a, t}" for a t :: int and n
    by (cases n) simp_all
  have "prompt ?passes"
    using last [of 0 "length (take 10 ?pkt)" 0]
    by (simp add: prompt_def ticks del: length_take)
  moreover have "input_bytes ?passes = ?pkt" by (simp add: input_bytes_def o_def)
  moreover have "steady (\<lambda>i. real i / 1000) 0 (length ?pkt) 50" using steady_millisecond [of 0] by simp
  ultimately show ?thesis
    using receiver_matches_stream_parser [of ?passes "\<lambda>i. real i / 1000" 0] by simp
qed

text \<open>
  An event without a payload: sd.py's side reads an empty payload, the firmware hands on
  whatever byte stands behind the header, here the level of the event before.
\<close>

definition empty_notify :: bytes where
  "empty_notify = event_header EVENT_NOTIFY 8 1"

lemma empty_payload_repeats_level:
  "receive_all [(0, map (Pair 0) (take 17 (event_packet EVENT_NOTIFY 90 1) @ empty_notify))] rx_boot =
     [(0x8001, 90), (0x8001, 90)]"
  "fst (reassemble [] (take 17 (event_packet EVENT_NOTIFY 90 1) @ empty_notify)) =
     [(0x8001, [90]), (0x8001, [])]"
  by code_simp+

end
