(* ===== verification/Mcu_Service.thy ===== *)
theory Mcu_Service
  imports Mcu_Sd_Parser Mcu_Receiver
begin

text \<open>
  The UDP side of \<open>MCU/src/someip_service.cpp\<close>: the datagrams the firmware sends as a service
  discovery client, how it handles a discovery message, and the events it takes from
  \<open>someip_udp_receive\<close>.  The 64-byte stack buffers are uninitialised, so their contents are
  parameters; a datagram handed to \<open>zsock_sendto\<close> is an output, and the static session
  counters are passed in and out.
\<close>

definition SD_EVENTGROUP_ID :: "16 word" where [simp]: "SD_EVENTGROUP_ID = 0x0001"
definition MCU_SERVICE_ID :: "16 word" where [simp]: "MCU_SERVICE_ID = 0x1234"
definition MCU_INSTANCE_ID :: "16 word" where [simp]: "MCU_INSTANCE_ID = 0x5678"
definition MCU_PORT :: "16 word" where [simp]: "MCU_PORT = 30490"

section \<open>Sending\<close>

text \<open>\<open>mem\<close> is the local \<open>buf[64]\<close>; the static counter is incremented before the build.\<close>

definition someip_sd_send_find :: "bytes \<Rightarrow> 16 word \<Rightarrow> bytes option \<times> 16 word" where
  "someip_sd_send_find mem session_id =
     (let session1 = session_id + 1 in
      case sd_build_find_service (Some mem) 64 MCU_SERVICE_ID MCU_INSTANCE_ID session1 of
        (pkt_len, Some p) \<Rightarrow> (if pkt_len < 0 then None else Some (take (nat pkt_len) p), session1)
      | (_, None) \<Rightarrow> (None, session1))"

definition someip_sd_send_subscribe :: "bytes \<Rightarrow> 16 word \<Rightarrow> bytes option \<times> 16 word" where
  "someip_sd_send_subscribe mem session_id =
     (let session1 = session_id + 1; self_ip = [127, 0, 0, 1] in
      case sd_build_subscribe_eventgroup (Some mem) 64 MCU_SERVICE_ID MCU_INSTANCE_ID SD_EVENTGROUP_ID
             (Some self_ip) MCU_PORT session1 of
        (pkt_len, Some p) \<Rightarrow> (if pkt_len < 0 then None else Some (take (nat pkt_len) p), session1)
      | (_, None) \<Rightarrow> (None, session1))"

section \<open>Receiving\<close>

text \<open>
  The loop over the parsed entries: the datagrams sent and the counter.  An offer of the
  service with a live TTL makes one subscription at the first UDP endpoint, if there is one.
\<close>

fun handle_entries ::
  "bytes \<Rightarrow> mcu_option list \<Rightarrow> mcu_entry list \<Rightarrow> 16 word \<Rightarrow> bytes list \<times> 16 word" where
  "handle_entries mem opts [] session_id = ([], session_id)"
| "handle_entries mem opts (e # es) session_id =
     (if e_type e = SD_ENTRY_OFFER_SERVICE then
        if e_ttl e = 0 then handle_entries mem opts es session_id
        else if e_service_id e \<noteq> MCU_SERVICE_ID \<or> e_instance_id e \<noteq> MCU_INSTANCE_ID
        then handle_entries mem opts es session_id
        else if list_ex (\<lambda>opt. o_type opt = SD_OPT_IP4_ENDPOINT \<and> o_l4_proto opt = SD_L4_UDP) opts then
          (case someip_sd_send_subscribe mem session_id of
             (sent, session1) \<Rightarrow>
               (case handle_entries mem opts es session1 of
                  (sents, session2) \<Rightarrow> (case sent of Some d \<Rightarrow> d # sents | None \<Rightarrow> sents, session2)))
        else handle_entries mem opts es session_id
      else handle_entries mem opts es session_id)"

definition someip_sd_handle :: "bytes \<Rightarrow> bytes \<Rightarrow> nat \<Rightarrow> 16 word \<Rightarrow> (bytes list \<times> 16 word) option" where
  "someip_sd_handle mem data len session_id =
     (case sd_parse (Some data) len (Some zero_parsed) of
        Some (r, Some parsed) \<Rightarrow>
          if r < 0 then Some ([], session_id)
          else Some (handle_entries mem (take (unat (p_option_count parsed)) (p_options parsed))
                       (take (unat (p_entry_count parsed)) (p_entries parsed)) session_id)
      | _ \<Rightarrow> None)"

text \<open>
  \<open>someip_udp_receive\<close> after \<open>zsock_recvfrom\<close> put \<open>ret\<close> bytes of the datagram at the head of
  the buffer \<open>data\<close>: the event, when it returns 0, the datagrams sent and the counter.
\<close>

definition someip_udp_receive ::
  "bytes \<Rightarrow> bytes \<Rightarrow> int \<Rightarrow> 16 word \<Rightarrow> ((16 word \<times> byte) option \<times> bytes list \<times> 16 word) option" where
  "someip_udp_receive mem data ret session_id =
     (if ret < 16 + 1 then Some (None, [], session_id)
      else if from_be (py_slice data 0 2) = SD_SERVICE_ID
      then map_option (Pair None) (someip_sd_handle mem data (nat ret) session_id)
      else
        let len = from_be (py_slice data 4 8) in
        if from_be (py_slice data 0 2) \<noteq> SERVICE_ID then Some (None, [], session_id)
        else if data ! 14 \<noteq> 0x02 then Some (None, [], session_id)
        else if len < 8 \<or> len > 32 then Some (None, [], session_id)
        else Some (Some (word_of_int (from_be (py_slice data 2 4)), data ! 16), [], session_id))"

section \<open>Lemmas\<close>

lemma inet_loopback: "inet_aton ''127.0.0.1'' = Inr [127, 0, 0, 1]"
  by code_simp

lemma send_find_packet:
  assumes "length mem = 64"
  shows "\<exists>req. someip_sd_send_find mem s = (Some req, s + 1) \<and>
    parse_sd req = Inr \<lparr>info_session_id = uint (s + 1), info_flags = FLAG_UNICAST,
         info_entries = [\<lparr>entry_type = ENTRY_FIND_SERVICE, service_id = SERVICE_ID,
            instance_id = INSTANCE_ID, major_version = 1, ttl = TTL_DEFAULT, minor_version = Some 0,
            eventgroup_id = None\<rparr>], info_options = []\<rparr>"
proof -
  have "uint (s + 1) mod 65536 = uint (s + 1)" using uint_lt2p [of "s + 1"] by simp
  then show ?thesis
    using find_packet [of "Some mem" 64 MCU_SERVICE_ID MCU_INSTANCE_ID "s + 1"]
      parse_sd_find [of "0x1234" "0x5678" "uint (s + 1)" TTL_DEFAULT FLAG_UNICAST] assms
    by (auto simp: someip_sd_send_find_def Let_def)
qed

lemma send_subscribe_packet:
  assumes "length mem = 64"
  shows "\<exists>sub ip. someip_sd_send_subscribe mem s = (Some sub, s + 1) \<and> inet_aton ip = Inr [127, 0, 0, 1] \<and>
    parse_sd sub = Inr \<lparr>info_session_id = uint (s + 1), info_flags = FLAG_UNICAST,
         info_entries = [\<lparr>entry_type = ENTRY_SUBSCRIBE_EVENTGROUP, service_id = SERVICE_ID,
            instance_id = INSTANCE_ID, major_version = 1, ttl = TTL_DEFAULT, minor_version = None,
            eventgroup_id = Some 1\<rparr>],
         info_options = [\<lparr>option_type = OPT_IP4_ENDPOINT, endpoint = Some (ip, L4_UDP, SOMEIP_PORT)\<rparr>]\<rparr>"
proof -
  have "uint (s + 1) mod 65536 = uint (s + 1)" using uint_lt2p [of "s + 1"] by simp
  then show ?thesis
    using subscribe_packet [OF _ inet_loopback, of "Some mem" 64 MCU_SERVICE_ID MCU_INSTANCE_ID SD_EVENTGROUP_ID MCU_PORT "s + 1"]
      parse_sd_subscribe [OF inet_loopback, of "0x1234" "0x5678" 1 30490 "uint (s + 1)" TTL_DEFAULT] assms
    by (auto simp: someip_sd_send_subscribe_def Let_def)
qed

lemma sd_route:
  assumes "parse_sd (take len data) = Inr info" "28 \<le> len" "len \<le> length data" "len < 2 ^ 32"
    and "length (info_entries info) \<le> 4"
  shows "someip_udp_receive mem data (int len) s =
    Some (None, handle_entries mem (take (unat (p_option_count (mcu_view info))) (p_options (mcu_view info)))
                  (map mcu_entry_view (info_entries info)) s)"
proof -
  have "sd_header_ok (take len data)"
    using parse_sd_bad_header [of "take len data"] assms(1) by (metis Inl_Inr_False)
  then have id: "from_be (py_slice data 0 2) = SD_SERVICE_ID"
    using assms(2) py_slice_prefix [of 2 len data 0] by (simp add: sd_header_ok_def del: py_slice_0)
  have n: "unat (of_nat (length (info_entries info)) :: byte) = length (info_entries info)"
    using assms(5) by (simp add: unat_of_nat)
  show ?thesis
    using sd_parse_view [OF assms(1,3,4), of zero_parsed] assms(2,5) id n
    by (simp add: someip_udp_receive_def someip_sd_handle_def mcu_view_def split: prod.split del: py_slice_0)
qed

lemma of_int_eq_mod: "0 \<le> v \<Longrightarrow> v < 2 ^ LENGTH('a) \<Longrightarrow> (of_int v :: 'a::len word) = of_int w \<longleftrightarrow> v = w mod 2 ^ LENGTH('a)"
  by (simp add: word_of_int_eq_iff take_bit_eq_mod)

lemma offer_answered:
  assumes "build_offer_service sid iid ip port s t minor f = Inr pkt"
    and "take 56 data = pkt" "length data = 64" "length mem = 64"
  shows "\<exists>sub ip'. inet_aton ip' = Inr [127, 0, 0, 1] \<and>
    parse_sd sub = Inr \<lparr>info_session_id = uint (ses + 1), info_flags = FLAG_UNICAST,
         info_entries = [\<lparr>entry_type = ENTRY_SUBSCRIBE_EVENTGROUP, service_id = SERVICE_ID,
            instance_id = INSTANCE_ID, major_version = 1, ttl = TTL_DEFAULT, minor_version = None,
            eventgroup_id = Some 1\<rparr>],
         info_options = [\<lparr>option_type = OPT_IP4_ENDPOINT, endpoint = Some (ip', L4_UDP, SOMEIP_PORT)\<rparr>]\<rparr> \<and>
    someip_udp_receive mem data 56 ses =
      (if sid mod 65536 = SERVICE_ID \<and> iid mod 65536 = INSTANCE_ID \<and> t mod 16777216 \<noteq> 0
       then Some (None, [sub], ses + 1) else Some (None, [], ses))"
proof -
  obtain sub ip' where sub: "someip_sd_send_subscribe mem ses = (Some sub, ses + 1)"
    "inet_aton ip' = Inr [127, 0, 0, 1]"
    "parse_sd sub = Inr \<lparr>info_session_id = uint (ses + 1), info_flags = FLAG_UNICAST,
         info_entries = [\<lparr>entry_type = ENTRY_SUBSCRIBE_EVENTGROUP, service_id = SERVICE_ID,
            instance_id = INSTANCE_ID, major_version = 1, ttl = TTL_DEFAULT, minor_version = None,
            eventgroup_id = Some 1\<rparr>],
         info_options = [\<lparr>option_type = OPT_IP4_ENDPOINT, endpoint = Some (ip', L4_UDP, SOMEIP_PORT)\<rparr>]\<rparr>"
    using send_subscribe_packet [OF assms(4)] by blast
  let ?e = "\<lparr>entry_type = ENTRY_OFFER_SERVICE, service_id = sid mod 65536, instance_id = iid mod 65536,
            major_version = 1, ttl = t mod 16777216, minor_version = Some (minor mod 4294967296), eventgroup_id = None\<rparr>"
  obtain ip2 where info: "parse_sd (take 56 data) = Inr \<lparr>info_session_id = s mod 65536, info_flags = f mod 256,
      info_entries = [?e], info_options = [\<lparr>option_type = OPT_IP4_ENDPOINT, endpoint = Some (ip2, L4_UDP, port mod 65536)\<rparr>]\<rparr>"
    using parse_sd_offer [where sid = sid and iid = iid and ip = ip and port = port and s = s and t = t and minor = minor and f = f] assms(1,2) by auto
  note route = sd_route [OF info, of mem ses]
  have words: "(of_int (sid mod 65536) :: 16 word) = 0x1234 \<longleftrightarrow> sid mod 65536 = 0x1234"
    "(of_int (iid mod 65536) :: 16 word) = 0x5678 \<longleftrightarrow> iid mod 65536 = 0x5678"
    "(of_int (t mod 16777216) :: 32 word) = 0 \<longleftrightarrow> t mod 16777216 = 0"
    using of_int_eq_mod [of "sid mod 65536" "0x1234", where 'a = 16] of_int_eq_mod [of "iid mod 65536" "0x5678", where 'a = 16]
      of_int_eq_mod [of "t mod 16777216" 0, where 'a = 32] pos_mod_bound [of 16777216 t]
    by simp_all
  have "someip_udp_receive mem data 56 ses =
      Some (None, handle_entries mem [mcu_option_view \<lparr>option_type = OPT_IP4_ENDPOINT, endpoint = Some (ip2, L4_UDP, port mod 65536)\<rparr>]
        [mcu_entry_view ?e] ses)"
    using route assms(3) by (simp add: mcu_view_def slots_of_def endpoint_count_def has_endpoint_def)
  then have "someip_udp_receive mem data 56 ses =
      (if sid mod 65536 = SERVICE_ID \<and> iid mod 65536 = INSTANCE_ID \<and> t mod 16777216 \<noteq> 0
       then Some (None, [sub], ses + 1) else Some (None, [], ses))"
    using sub(1) words by (simp add: mcu_entry_view_def mcu_option_view_def)
  with sub show ?thesis by blast
qed

section \<open>Properties\<close>

text \<open>
  C11: an offer is answered by a subscription.  A datagram built by \<open>build_offer_service\<close> makes
  the firmware send exactly one SubscribeEventgroup, for the offered service, event group 1
  and 127.0.0.1:30490, with the next session number, when the offer is for the service
  0x1234/0x5678 and its TTL is not zero; else it sends nothing.
\<close>

theorem firmware_answers_offer:
  assumes "build_offer_service sid iid ip port s t minor f = Inr pkt"
    and "take 56 data = pkt" "length data = 64" "length mem = 64"
  shows "\<exists>sub ip'. inet_aton ip' = Inr [127, 0, 0, 1] \<and>
    parse_sd sub = Inr \<lparr>info_session_id = uint (ses + 1), info_flags = FLAG_UNICAST,
         info_entries = [\<lparr>entry_type = ENTRY_SUBSCRIBE_EVENTGROUP, service_id = SERVICE_ID,
            instance_id = INSTANCE_ID, major_version = 1, ttl = TTL_DEFAULT, minor_version = None,
            eventgroup_id = Some 1\<rparr>],
         info_options = [\<lparr>option_type = OPT_IP4_ENDPOINT, endpoint = Some (ip', L4_UDP, SOMEIP_PORT)\<rparr>]\<rparr> \<and>
    someip_udp_receive mem data 56 ses =
      (if sid mod 65536 = SERVICE_ID \<and> iid mod 65536 = INSTANCE_ID \<and> t mod 16777216 \<noteq> 0
       then Some (None, [sub], ses + 1) else Some (None, [], ses))"
  using assms by (rule offer_answered)

theorem firmware_answers_offer_witness:
  "\<exists>sub. someip_udp_receive (replicate 64 0) (py_offer @ replicate 8 0) 56 0 = Some (None, [sub], 1)"
proof -
  have built: "build_offer_service 0x1234 0x5678 ''10.0.2.15'' 30490 1 TTL_DEFAULT 0 0x40 = Inr py_offer"
    by code_simp
  have "length py_offer = 56" by (simp add: py_offer_def)
  with firmware_answers_offer [OF built, of "py_offer @ replicate 8 0" "replicate 64 0" 0]
  show ?thesis by auto
qed

text \<open>
  The events of the UDP receiver are those of \<open>parse_event\<close>.  A datagram that
  \<open>parse_event\<close> accepts with 1 to 24 payload bytes gives the firmware its event and the
  first payload byte, and makes it send nothing.
\<close>

theorem udp_receive_agrees:
  assumes "parse_event (take n data) = Inr (ev, payload)" "n \<le> length data"
    and "payload \<noteq> []" "length payload \<le> 24"
  shows "someip_udp_receive mem data (int n) s = Some (Some (word_of_int ev, hd payload), [], s)"
proof -
  let ?p = "take n data"
  define len where "len = from_be (py_slice ?p 4 8)"
  have len: "length ?p = n" using assms(2) by simp
  from assms(1) have p: "16 \<le> n" "from_be (py_slice ?p 0 2) = SERVICE_ID" "from_be (py_slice ?p 14 15) = 2"
      "8 \<le> len" "len - 8 \<le> int n - 16" "ev = from_be (py_slice ?p 2 4)"
      "payload = py_slice ?p 16 (16 + nat (len - 8))"
    unfolding parse_event_eq len len_def by (auto split: if_splits simp del: py_slice_0)
  have "length payload = min (nat (len - 8)) (n - 16)" unfolding p(7) using len by simp
  moreover have "0 < length payload" using assms(3) by simp
  ultimately have n: "17 \<le> n" "len \<le> 32" "8 < len" using assms(4) p(4,5) by linarith+
  have sl: "py_slice ?p a b = py_slice data a b" if "b \<le> 17" for a b
    using that n by (intro py_slice_prefix) simp
  have "?p ! 14 = data ! 14" "?p ! 16 = data ! 16" using n by simp_all
  moreover have "py_slice ?p 14 15 = [?p ! 14]" using py_slice_single [of 14 ?p] n len by simp
  moreover have "hd payload = ?p ! 16"
    using hd_py_slice [of 16 "16 + nat (len - 8)" ?p] n len p(7) by simp
  ultimately show ?thesis
    using p n sl [of 2 0] sl [of 4 2] sl [of 8 4]
    by (simp add: someip_udp_receive_def len_def word_uint_eq_iff del: py_slice_0)
qed

theorem udp_receive_agrees_witness:
  "someip_udp_receive (replicate 64 0) (event_packet EVENT_NOTIFY 90 1 @ replicate 40 0) 24 0 =
     Some (Some (0x8001, 90), [], 0)"
proof -
  have "length (event_packet EVENT_NOTIFY 90 1) = 24" by (simp add: event_packet_def)
  moreover have "parse_event (event_packet EVENT_NOTIFY 90 1) = Inr (EVENT_NOTIFY, [90])" by code_simp
  ultimately show ?thesis
    using udp_receive_agrees [of 24 "event_packet EVENT_NOTIFY 90 1 @ replicate 40 0" EVENT_NOTIFY "[90]" "replicate 64 0" 0]
    by simp
qed

end
