(* ===== verification/Mcu_Main.thy ===== *)
theory Mcu_Main
  imports Mcu_Service
begin

text \<open>
  The firmware as a running system: the safety monitor of \<open>MCU/src/safety.cpp\<close> with its timer
  and the hardware watchdog, the event handling and the FindService
  timer of \<open>someip_thread\<close> and the loops of \<open>can_thread\<close> and \<open>main\<close> in
  \<open>MCU/src/main.cpp\<close>, interleaved by a step relation.  Times are uptimes in
  milliseconds.  Of the platform it uses what its documentation says: a kernel timer started
  with duration and period 100 expires 100 ms later and every 100 ms after that until it is
  restarted, and the watchdog resets the chip 150 ms after it was last fed.
\<close>

definition HEARTBEAT_TIMEOUT_MS :: int where [simp]: "HEARTBEAT_TIMEOUT_MS = 100"
definition WDT_TIMEOUT_MS :: int where [simp]: "WDT_TIMEOUT_MS = 150"

section \<open>State\<close>

text \<open>Where \<open>can_thread\<close> is: before the read, before the send of what it read, before the clear.\<close>

datatype can_pc = CanIdle | CanSend byte | CanClear

text \<open>
  The static variables, the clocks of timer and watchdog, and as histories the levels of the
  CAN frames, the events received and the FindService requests sent.
\<close>

record firmware =
  uptime :: int
  safe_state :: bool
  safety_can_dev :: bool
  safety_led :: bool
  timer_due :: int
  wdt_fed :: int
  was_reset :: bool
  drowsiness_level :: byte
  mpu_heartbeat :: int
  can_at :: can_pc
  can_frames :: "byte list"
  led_toggles :: nat
  received :: "(16 word \<times> byte) list"
  last_find :: "32 word"
  find_session :: "16 word"
  find_sent :: "bytes list"

section \<open>safety.cpp\<close>

definition can_send_warning :: "firmware \<Rightarrow> firmware" where
  "can_send_warning fw = fw\<lparr>can_frames := can_frames fw @ [0xFF]\<rparr>"

definition led_toggle :: "firmware \<Rightarrow> firmware" where
  "led_toggle fw = fw\<lparr>led_toggles := led_toggles fw + 1\<rparr>"

definition wdt_feed :: "firmware \<Rightarrow> firmware" where
  "wdt_feed fw = fw\<lparr>wdt_fed := uptime fw\<rparr>"

definition enter_safe_state :: "firmware \<Rightarrow> firmware" where
  "enter_safe_state fw =
     (if safe_state fw then fw
      else
        let fw1 = fw\<lparr>safe_state := True\<rparr>;
            fw2 = (if safety_can_dev fw1 then can_send_warning fw1 else fw1)
        in (if safety_led fw2 then led_toggle fw2 else fw2))"

text \<open>\<open>ready\<close> is \<open>device_is_ready(wdt)\<close>.\<close>

definition safety_timeout :: "bool \<Rightarrow> firmware \<Rightarrow> firmware" where
  "safety_timeout ready fw =
     (if \<not> safe_state fw then enter_safe_state fw
      else
        let fw1 = (if safety_can_dev fw then can_send_warning fw else fw);
            fw2 = (if safety_led fw1 then led_toggle fw1 else fw1)
        in (if ready then wdt_feed fw2 else fw2))"

definition k_timer_start :: "firmware \<Rightarrow> firmware" where
  "k_timer_start fw = fw\<lparr>timer_due := uptime fw + HEARTBEAT_TIMEOUT_MS\<rparr>"

definition safety_kick_watchdog :: "bool \<Rightarrow> firmware \<Rightarrow> firmware" where
  "safety_kick_watchdog ready fw =
     (let fw1 = (if ready then wdt_feed fw else fw);
          fw2 = k_timer_start fw1
      in (if safe_state fw2 then fw2\<lparr>safe_state := False\<rparr> else fw2))"

definition safety_is_safe_state :: "firmware \<Rightarrow> bool" where
  [simp]: "safety_is_safe_state fw = safe_state fw"

text \<open>The state of the static variables at boot, and \<open>safety_init\<close> at uptime \<open>t\<close>.\<close>

definition boot :: "int \<Rightarrow> firmware" where
  "boot t = \<lparr>uptime = t, safe_state = False, safety_can_dev = False, safety_led = False,
     timer_due = t, wdt_fed = t, was_reset = False, drowsiness_level = 0, mpu_heartbeat = 0,
     can_at = CanIdle, can_frames = [], led_toggles = 0, received = [],
     last_find = 0, find_session = 0, find_sent = []\<rparr>"

definition safety_init :: "bool \<Rightarrow> bool \<Rightarrow> bool \<Rightarrow> firmware \<Rightarrow> firmware" where
  "safety_init ready can_dev led fw =
     (let fw1 = fw\<lparr>safety_can_dev := can_dev, safety_led := led\<rparr>;
          fw2 = (if ready then wdt_feed fw1 else fw1)
      in k_timer_start fw2)"

section \<open>main.cpp\<close>

text \<open>What \<open>someip_thread\<close> does when \<open>someip_receive\<close> returned an event.\<close>

definition on_event :: "bool \<Rightarrow> 16 word \<times> byte \<Rightarrow> firmware \<Rightarrow> firmware" where
  "on_event ready ev fw =
     (let fw1 = fw\<lparr>mpu_heartbeat := uptime fw, received := received fw @ [ev]\<rparr>;
          fw2 = (if fst ev = word_of_int EVENT_NOTIFY then fw1\<lparr>drowsiness_level := snd ev\<rparr> else fw1)
      in safety_kick_watchdog ready fw2)"

text \<open>
  One pass of \<open>can_thread\<close>, in its three shared accesses: \<open>atomic_get\<close>, the send, \<open>atomic_set\<close>.
\<close>

definition can_step :: "firmware \<Rightarrow> firmware" where
  "can_step fw =
     (case can_at fw of
        CanIdle \<Rightarrow> (if drowsiness_level fw > 0 then fw\<lparr>can_at := CanSend (drowsiness_level fw)\<rparr> else fw)
      | CanSend level \<Rightarrow> fw\<lparr>can_frames := can_frames fw @ [level], can_at := CanClear\<rparr>
      | CanClear \<Rightarrow> fw\<lparr>drowsiness_level := 0, can_at := CanIdle\<rparr>)"

text \<open>
  The head of the loop of \<open>someip_thread\<close>: a request when 2000 ms have passed since the last,
  on uptimes of 32 bits.  \<open>mem\<close> is the uninitialised buffer of the sender.
\<close>

definition find_pass :: "bytes \<Rightarrow> firmware \<Rightarrow> firmware" where
  "find_pass mem fw =
     (let now = word_of_int (uptime fw) in
      if now - last_find fw \<ge> 2000 then
        (case someip_sd_send_find mem (find_session fw) of
           (sent, session1) \<Rightarrow>
             fw\<lparr>find_session := session1, last_find := now,
                find_sent := (case sent of Some d \<Rightarrow> find_sent fw @ [d] | None \<Rightarrow> find_sent fw)\<rparr>)
      else fw)"

text \<open>A pass of the loop of \<open>main\<close>: the LED belongs to the monitor while SAFE.\<close>

definition led_pass :: "firmware \<Rightarrow> firmware" where
  "led_pass fw = (if \<not> safety_is_safe_state fw then led_toggle fw else fw)"

section \<open>Steps\<close>

text \<open>
  Time passes up to the next expiry of the timer or the watchdog; the timer expires and is
  re-armed for its period; the watchdog resets the chip, which ends the run; an event is
  received; the other loops make a pass or their next access.
\<close>

inductive fw_step :: "bool \<Rightarrow> firmware \<Rightarrow> firmware \<Rightarrow> bool" for ready where
  elapse: "\<not> was_reset fw \<Longrightarrow> uptime fw \<le> t \<Longrightarrow> t \<le> timer_due fw \<Longrightarrow>
     \<not> ready \<or> t \<le> wdt_fed fw + WDT_TIMEOUT_MS \<Longrightarrow> fw_step ready fw (fw\<lparr>uptime := t\<rparr>)"
| timeout: "\<not> was_reset fw \<Longrightarrow> uptime fw = timer_due fw \<Longrightarrow> fw1 = safety_timeout ready fw \<Longrightarrow>
     fw_step ready fw (fw1\<lparr>timer_due := timer_due fw1 + HEARTBEAT_TIMEOUT_MS\<rparr>)"
| watchdog: "\<not> was_reset fw \<Longrightarrow> ready \<Longrightarrow> uptime fw = wdt_fed fw + WDT_TIMEOUT_MS \<Longrightarrow>
     fw_step ready fw (fw\<lparr>was_reset := True\<rparr>)"
| event: "\<not> was_reset fw \<Longrightarrow> fw_step ready fw (on_event ready ev fw)"
| can: "\<not> was_reset fw \<Longrightarrow> fw_step ready fw (can_step fw)"
| find: "\<not> was_reset fw \<Longrightarrow> length mem = 64 \<Longrightarrow> fw_step ready fw (find_pass mem fw)"
| led: "\<not> was_reset fw \<Longrightarrow> fw_step ready fw (led_pass fw)"

inductive fw_reachable :: "bool \<Rightarrow> firmware \<Rightarrow> firmware \<Rightarrow> bool" for ready where
  start: "fw_reachable ready fw fw"
| step: "fw_reachable ready fw fw1 \<Longrightarrow> fw_step ready fw1 fw2 \<Longrightarrow> fw_reachable ready fw fw2"

inductive_cases fw_stepE: "fw_step ready fw fw'"

lemmas fw_defs = on_event_def safety_timeout_def safety_kick_watchdog_def enter_safe_state_def
  k_timer_start_def can_send_warning_def led_toggle_def wdt_feed_def can_step_def led_pass_def Let_def

text \<open>Discovery touches only its own variables.\<close>

lemma find_pass_frame [simp]:
  "uptime (find_pass mem fw) = uptime fw" "safe_state (find_pass mem fw) = safe_state fw"
  "timer_due (find_pass mem fw) = timer_due fw" "wdt_fed (find_pass mem fw) = wdt_fed fw"
  "was_reset (find_pass mem fw) = was_reset fw" "drowsiness_level (find_pass mem fw) = drowsiness_level fw"
  "mpu_heartbeat (find_pass mem fw) = mpu_heartbeat fw" "can_at (find_pass mem fw) = can_at fw"
  "can_frames (find_pass mem fw) = can_frames fw" "received (find_pass mem fw) = received fw"
  by (simp_all add: find_pass_def Let_def split: prod.split)

lemma safety_init_boot:
  "safety_init ready can_dev led (boot t) =
     \<lparr>uptime = t, safe_state = False, safety_can_dev = can_dev, safety_led = led,
      timer_due = t + 100, wdt_fed = t, was_reset = False, drowsiness_level = 0, mpu_heartbeat = 0,
      can_at = CanIdle, can_frames = [], led_toggles = 0, received = [],
     last_find = 0, find_session = 0, find_sent = []\<rparr>"
  by (simp add: safety_init_def boot_def wdt_feed_def k_timer_start_def Let_def)

lemma on_event_shared [simp]:
  "received (on_event ready ev fw) = received fw @ [ev]"
  "can_frames (on_event ready ev fw) = can_frames fw"
  "can_at (on_event ready ev fw) = can_at fw"
  "was_reset (on_event ready ev fw) = was_reset fw"
  "drowsiness_level (on_event ready ev fw) =
     (if fst ev = word_of_int EVENT_NOTIFY then snd ev else drowsiness_level fw)"
  by (simp_all add: fw_defs)

lemma can_step_shared [simp]:
  "received (can_step fw) = received fw"
  "was_reset (can_step fw) = was_reset fw"
  by (simp_all add: can_step_def split: can_pc.split)

section \<open>The clocks\<close>

text \<open>
  The age of the last heartbeat (or of the start) against the state of the monitor: below
  100 ms NORMAL, from there SAFE, and at 150 ms the watchdog.
\<close>

definition clocks_ok :: "firmware \<Rightarrow> bool" where
  "clocks_ok fw \<longleftrightarrow>
     timer_due fw = wdt_fed fw + (if safe_state fw then 200 else 100) \<and>
     wdt_fed fw \<le> uptime fw \<and> uptime fw \<le> wdt_fed fw + 150 \<and>
     (safe_state fw \<longrightarrow> wdt_fed fw + 100 \<le> uptime fw) \<and>
     (\<not> safe_state fw \<longrightarrow> uptime fw \<le> wdt_fed fw + 100) \<and>
     (was_reset fw \<longrightarrow> uptime fw = wdt_fed fw + 150) \<and>
     (received fw \<noteq> [] \<longrightarrow> mpu_heartbeat fw = wdt_fed fw)"

lemma clocks_init: "clocks_ok (safety_init True can_dev led (boot t))"
  by (simp add: clocks_ok_def safety_init_boot)

lemma clocks_step: "clocks_ok fw \<Longrightarrow> fw_step True fw fw' \<Longrightarrow> clocks_ok fw'"
  by (erule fw_stepE) (auto simp: clocks_ok_def fw_defs split: can_pc.split if_splits)

lemma clocks_reachable: "fw_reachable True fw fw' \<Longrightarrow> clocks_ok fw \<Longrightarrow> clocks_ok fw'"
  by (induction rule: fw_reachable.induct) (auto intro: clocks_step)

text \<open>Whatever happens next is possible: the silent run to the reset, and single accesses.\<close>

lemma reach_trans: "fw_reachable ready b c \<Longrightarrow> fw_reachable ready a b \<Longrightarrow> fw_reachable ready a c"
  by (induction rule: fw_reachable.induct) (auto intro: fw_reachable.step)

lemma reach_can: "fw_reachable ready a b \<Longrightarrow> \<not> was_reset b \<Longrightarrow> fw_reachable ready a (can_step b)"
  and reach_event: "fw_reachable ready a b \<Longrightarrow> \<not> was_reset b \<Longrightarrow> fw_reachable ready a (on_event ready ev b)"
  by (blast intro: fw_reachable.step fw_step.can fw_step.event)+

lemma silent_reset_safe:
  assumes "clocks_ok fw" "\<not> was_reset fw" "safe_state fw"
  shows "\<exists>fw'. fw_reachable True fw fw' \<and> was_reset fw' \<and> received fw' = received fw"
proof -
  let ?fw1 = "fw\<lparr>uptime := wdt_fed fw + 150\<rparr>"
  have "fw_step True fw ?fw1"
    using assms by (intro fw_step.elapse) (auto simp: clocks_ok_def)
  moreover have "fw_step True ?fw1 (?fw1\<lparr>was_reset := True\<rparr>)"
    using assms(2) by (intro fw_step.watchdog) simp_all
  ultimately have "fw_reachable True fw (?fw1\<lparr>was_reset := True\<rparr>)"
    by (blast intro: fw_reachable.intros)
  then show ?thesis by (intro exI [of _ "?fw1\<lparr>was_reset := True\<rparr>"]) simp
qed

lemma silent_safe:
  assumes "clocks_ok fw" "\<not> was_reset fw" "\<not> safe_state fw"
  shows "\<exists>fw'. fw_reachable True fw fw' \<and> \<not> was_reset fw' \<and> safe_state fw' \<and> received fw' = received fw"
proof -
  let ?fw1 = "fw\<lparr>uptime := timer_due fw\<rparr>"
  let ?fw2 = "safety_timeout True ?fw1"
  have "fw_step True fw ?fw1"
    using assms by (intro fw_step.elapse) (auto simp: clocks_ok_def)
  moreover have "fw_step True ?fw1 (?fw2\<lparr>timer_due := timer_due ?fw2 + HEARTBEAT_TIMEOUT_MS\<rparr>)"
    using assms(2) by (intro fw_step.timeout) simp_all
  ultimately have "fw_reachable True fw (?fw2\<lparr>timer_due := timer_due ?fw2 + HEARTBEAT_TIMEOUT_MS\<rparr>)"
    by (blast intro: fw_reachable.intros)
  moreover have "\<not> was_reset ?fw2" "safe_state ?fw2" "received ?fw2 = received fw"
    using assms(2,3) by (simp_all add: fw_defs)
  ultimately show ?thesis
    by (intro exI [of _ "?fw2\<lparr>timer_due := timer_due ?fw2 + HEARTBEAT_TIMEOUT_MS\<rparr>"]) simp
qed

lemma silent_reset:
  assumes "clocks_ok fw" "\<not> was_reset fw"
  shows "\<exists>fw'. fw_reachable True fw fw' \<and> was_reset fw' \<and> received fw' = received fw"
proof (cases "safe_state fw")
  case True
  with assms silent_reset_safe show ?thesis by blast
next
  case False
  with assms obtain fw1 where fw1: "fw_reachable True fw fw1" "\<not> was_reset fw1" "safe_state fw1" "received fw1 = received fw"
    using silent_safe by blast
  with assms(1) have "clocks_ok fw1" by (blast intro: clocks_reachable)
  from silent_reset_safe [OF this fw1(2,3)] fw1 show ?thesis by (metis reach_trans)
qed

section \<open>The levels on the CAN bus\<close>

definition notified :: "firmware \<Rightarrow> byte set" where
  "notified fw = {level. (word_of_int EVENT_NOTIFY, level) \<in> set (received fw)}"

definition can_ok :: "firmware \<Rightarrow> bool" where
  "can_ok fw \<longleftrightarrow>
     drowsiness_level fw \<in> insert 0 (notified fw) \<and>
     (\<forall>level. can_at fw = CanSend level \<longrightarrow> level \<in> notified fw - {0}) \<and>
     set (can_frames fw) \<subseteq> insert 0xFF (notified fw - {0})"

lemma can_init: "can_ok (safety_init ready can_dev led (boot t))"
  by (simp add: can_ok_def safety_init_boot)

lemma can_step_ok: "can_ok fw \<Longrightarrow> fw_step ready fw fw' \<Longrightarrow> can_ok fw'"
  by (erule fw_stepE)
    (auto simp: can_ok_def notified_def fw_defs word_gt_0 split: can_pc.splits if_splits)

lemma can_reachable: "fw_reachable ready fw fw' \<Longrightarrow> can_ok fw \<Longrightarrow> can_ok fw'"
  by (induction rule: fw_reachable.induct) (auto intro: can_step_ok)

section \<open>The FindService requests\<close>

definition find_ok :: "firmware \<Rightarrow> bool" where
  "find_ok fw \<longleftrightarrow>
     find_session fw = of_nat (length (find_sent fw)) \<and>
     (\<forall>k < length (find_sent fw). parse_sd (find_sent fw ! k) =
        Inr \<lparr>info_session_id = int (Suc k) mod 65536, info_flags = FLAG_UNICAST,
         info_entries = [\<lparr>entry_type = ENTRY_FIND_SERVICE, service_id = SERVICE_ID,
            instance_id = INSTANCE_ID, major_version = 1, ttl = TTL_DEFAULT, minor_version = Some 0,
            eventgroup_id = None\<rparr>], info_options = []\<rparr>)"

lemma find_init: "find_ok (safety_init ready can_dev led (boot t))"
  by (simp add: find_ok_def safety_init_boot)

lemma find_pass_ok:
  assumes "find_ok fw" "length mem = 64"
  shows "find_ok (find_pass mem fw)"
proof -
  obtain req where req: "someip_sd_send_find mem (find_session fw) = (Some req, find_session fw + 1)"
    "parse_sd req = Inr \<lparr>info_session_id = uint (find_session fw + 1), info_flags = FLAG_UNICAST,
         info_entries = [\<lparr>entry_type = ENTRY_FIND_SERVICE, service_id = SERVICE_ID,
            instance_id = INSTANCE_ID, major_version = 1, ttl = TTL_DEFAULT, minor_version = Some 0,
            eventgroup_id = None\<rparr>], info_options = []\<rparr>"
    using send_find_packet [OF assms(2)] by blast
  have "uint (of_nat (Suc m) :: 16 word) = int (Suc m) mod 65536" for m
    by (simp add: unsigned_of_nat take_bit_eq_mod zmod_int del: of_nat_Suc)
  with req assms(1) show ?thesis
    by (auto simp: find_ok_def find_pass_def Let_def nth_append less_Suc_eq add.commute)
qed

lemma find_step: "find_ok fw \<Longrightarrow> fw_step ready fw fw' \<Longrightarrow> find_ok fw'"
  by (erule fw_stepE)
    (auto simp: find_ok_def fw_defs find_pass_ok [unfolded find_ok_def] split: can_pc.splits if_splits)

lemma find_reachable: "fw_reachable ready fw fw' \<Longrightarrow> find_ok fw \<Longrightarrow> find_ok fw'"
  by (induction rule: fw_reachable.induct) (auto intro: find_step)

section \<open>Properties\<close>

text \<open>
  C15: the monitor follows the age of the last heartbeat.  With the watchdog ready, in every
  reachable state that age is at most 150 ms; below 100 ms the state is NORMAL, above it is
  SAFE, and the chip is reset only when it is exactly 150 ms.  So heartbeats less than 100 ms
  apart keep the firmware NORMAL.
\<close>

theorem monitor_follows_heartbeat_age:
  assumes "fw_reachable True (safety_init True can_dev led (boot t)) fw"
  shows "0 \<le> uptime fw - wdt_fed fw \<and> uptime fw - wdt_fed fw \<le> 150 \<and>
    (uptime fw - wdt_fed fw < 100 \<longrightarrow> \<not> safe_state fw \<and> \<not> was_reset fw) \<and>
    (100 < uptime fw - wdt_fed fw \<longrightarrow> safe_state fw) \<and>
    (was_reset fw \<longrightarrow> uptime fw - wdt_fed fw = 150) \<and>
    (received fw \<noteq> [] \<longrightarrow> wdt_fed fw = mpu_heartbeat fw)"
  using clocks_reachable [OF assms clocks_init] by (auto simp: clocks_ok_def split: if_splits)

theorem monitor_follows_heartbeat_age_witness:
  "\<not> safe_state (on_event True (0x8002, 0) (safety_init True True True (boot 0)))"
proof -
  have "fw_reachable True (safety_init True True True (boot 0)) (on_event True (0x8002, 0) (safety_init True True True (boot 0)))"
    by (rule reach_event [OF fw_reachable.start]) (simp add: safety_init_boot)
  from monitor_follows_heartbeat_age [OF this] show ?thesis by (auto simp: safety_init_boot fw_defs)
qed



text \<open>
  What the firmware sends on the CAN bus.  In every reachable state each frame carries
  the warning level 0xFF or a level other than 0 that a notify event brought.
\<close>

theorem can_levels_were_notified:
  assumes "fw_reachable ready (safety_init ready can_dev led (boot t)) fw"
  shows "set (can_frames fw) \<subseteq>
    insert 0xFF {level. level \<noteq> 0 \<and> (word_of_int EVENT_NOTIFY, level) \<in> set (received fw)}"
  using can_reachable [OF assms can_init] by (auto simp: can_ok_def notified_def)

theorem can_levels_were_notified_witness:
  "\<exists>fw. fw_reachable True (safety_init True True True (boot 0)) fw \<and> can_frames fw = [60] \<and>
     set (can_frames fw) \<subseteq> {0xFF, 60}"
proof -
  let ?start = "safety_init True True True (boot 0)"
  let ?run = "can_step (can_step (on_event True (0x8001, 60) ?start))"
  have "fw_reachable True ?start ?run"
    by (rule reach_can [OF reach_can [OF reach_event [OF fw_reachable.start]]])
      (simp_all add: safety_init_boot)
  moreover have "can_frames ?run = [60]" "received ?run = [(0x8001, 60)]"
    by (simp_all add: can_step_def safety_init_boot)
  ultimately show ?thesis using can_levels_were_notified [of True True True 0 ?run] by auto
qed

text \<open>
  C17: a level can be lost.  A notify that comes while \<open>can_thread\<close> is between its send and
  its \<open>atomic_set\<close> is overwritten by the 0: two levels are received, one frame is sent, and
  the thread is idle with nothing left to send.
\<close>

theorem can_thread_loses_level:
  assumes "0 < l1"
  shows "\<exists>fw. fw_reachable ready (safety_init ready can_dev led (boot t)) fw \<and> \<not> was_reset fw \<and>
    received fw = [(word_of_int EVENT_NOTIFY, l1), (word_of_int EVENT_NOTIFY, l2)] \<and>
    can_frames fw = [l1] \<and> drowsiness_level fw = 0 \<and> can_at fw = CanIdle"
proof -
  let ?n = "\<lambda>l. (word_of_int EVENT_NOTIFY, l) :: 16 word \<times> byte"
  define fw0 where "fw0 = safety_init ready can_dev led (boot t)"
  define fw1 where "fw1 = on_event ready (?n l1) fw0"
  define fw2 where "fw2 = can_step (can_step fw1)"
  define fw3 where "fw3 = on_event ready (?n l2) fw2"
  have "fw_reachable ready fw0 fw0" "\<not> was_reset fw0" "received fw0 = []" "can_frames fw0 = []" "can_at fw0 = CanIdle"
    by (simp_all add: fw0_def safety_init_boot fw_reachable.start)
  then have "fw_reachable ready fw0 fw1" "\<not> was_reset fw1" "received fw1 = [?n l1]" "can_frames fw1 = []"
      "can_at fw1 = CanIdle" "drowsiness_level fw1 = l1"
    by (simp_all add: fw1_def reach_event)
  note at1 = this
  have "fw_reachable ready fw0 (can_step fw1)" "\<not> was_reset (can_step fw1)"
    using at1 by (simp_all add: reach_can)
  then have "fw_reachable ready fw0 fw2" "\<not> was_reset fw2"
    by (simp_all add: fw2_def reach_can)
  moreover have "received fw2 = [?n l1]" "can_frames fw2 = [l1]" "can_at fw2 = CanClear"
    using at1 assms by (simp_all add: fw2_def can_step_def)
  ultimately have "fw_reachable ready fw0 fw3" "\<not> was_reset fw3" "received fw3 = [?n l1, ?n l2]" "can_frames fw3 = [l1]"
      "can_at fw3 = CanClear"
    by (simp_all add: fw3_def reach_event)
  note at3 = this
  have "fw_reachable ready fw0 (can_step fw3)" using at3(1,2) by (rule reach_can)
  moreover have "\<not> was_reset (can_step fw3) \<and> received (can_step fw3) = [?n l1, ?n l2] \<and>
      can_frames (can_step fw3) = [l1] \<and> drowsiness_level (can_step fw3) = 0 \<and> can_at (can_step fw3) = CanIdle"
    using at3(2-5) by (simp add: can_step_def)
  ultimately show ?thesis unfolding fw0_def by blast
qed

theorem can_thread_loses_level_witness:
  "\<exists>fw. fw_reachable True (safety_init True True True (boot 0)) fw \<and>
     received fw = [(0x8001, 60), (0x8001, 90)] \<and> can_frames fw = [60] \<and> drowsiness_level fw = 0"
  using can_thread_loses_level [of 60 True True True 0 90] by auto

text \<open>
  The requests of the firmware.  In every reachable state the requests sent are, read by
  \<open>parse_sd\<close>, FindService messages for the service, numbered from 1 modulo 65536: the
  number after 65535 is 0, where \<open>SdServer\<close> goes back to 1.
\<close>

theorem find_requests_numbered:
  assumes "fw_reachable ready (safety_init ready can_dev led (boot t)) fw" "k < length (find_sent fw)"
  shows "parse_sd (find_sent fw ! k) =
     Inr \<lparr>info_session_id = int (Suc k) mod 65536, info_flags = FLAG_UNICAST,
         info_entries = [\<lparr>entry_type = ENTRY_FIND_SERVICE, service_id = SERVICE_ID,
            instance_id = INSTANCE_ID, major_version = 1, ttl = TTL_DEFAULT, minor_version = Some 0,
            eventgroup_id = None\<rparr>], info_options = []\<rparr>"
  using find_reachable [OF assms(1) find_init] assms(2) by (simp add: find_ok_def)

theorem find_requests_numbered_witness:
  "\<exists>fw info. fw_reachable True (safety_init True True True (boot 3000)) fw \<and> length (find_sent fw) = 1 \<and>
     parse_sd (find_sent fw ! 0) = Inr info \<and> info_session_id info = 1"
proof -
  let ?start = "safety_init True True True (boot 3000)"
  let ?run = "find_pass (replicate 64 0) ?start"
  have reach: "fw_reachable True ?start ?run"
    by (rule fw_reachable.step [OF fw_reachable.start fw_step.find]) (simp_all add: safety_init_boot)
  obtain req where "someip_sd_send_find (replicate 64 0) 0 = (Some req, 1)"
    using send_find_packet [of "replicate 64 0" 0] by auto
  then have len: "length (find_sent ?run) = 1"
    by (simp add: find_pass_def Let_def safety_init_boot)
  from find_requests_numbered [OF reach, of 0] len reach show ?thesis by auto
qed

end
