(* ===== verification/Mcu_Boot.thy ===== *)
theory Mcu_Boot
  imports Mcu_Main
begin

text \<open>
  How the firmware starts: the set-up of the devices in \<open>main\<close> (\<open>MCU/src/main.cpp\<close>), of the
  socket or serial port in \<open>someip_init\<close> and the entry points \<open>someip_receive\<close> and
  \<open>someip_offer_service\<close> (\<open>MCU/src/someip_service.cpp\<close>).  What the platform's calls return is a
  parameter.  Of the sockets it uses what the documentation says: a call on a negative descriptor
  fails, a socket that is not bound to the port gets no datagram, and one that has not joined the group
  none of its multicasts.
\<close>

section \<open>main\<close>

text \<open>The outcomes of the calls, in the order of the code; zero is success.\<close>

record board =
  led_is_ready :: bool
  can_is_ready :: bool
  calc_timing :: int
  set_timing :: int
  calc_timing_data :: int
  set_timing_data :: int
  wdt_is_ready :: bool

datatype hw_call =
    ConfigureLed
  | CalcTiming int int
  | SetTiming
  | CalcTimingData int int
  | SetTimingData
  | SetModeNormal
  | CanStart
  | SafetyInit
  | CreateThread string nat

text \<open>The calls made and the running firmware, or None when \<open>main\<close> returns early.\<close>

definition main_boot :: "board \<Rightarrow> int \<Rightarrow> hw_call list \<times> firmware option" where
  "main_boot b t =
     (if \<not> led_is_ready b then ([], None)
      else let c1 = [ConfigureLed] in
      if \<not> can_is_ready b then (c1, None)
      else let c2 = c1 @ [CalcTiming 500000 750] in
      if calc_timing b \<noteq> 0 then (c2, None)
      else let c3 = c2 @ [SetTiming] in
      if set_timing b \<noteq> 0 then (c3, None)
      else let c4 = c3 @ [CalcTimingData 2000000 875] in
      if calc_timing_data b \<noteq> 0 then (c4, None)
      else let c5 = c4 @ [SetTimingData] in
      if set_timing_data b \<noteq> 0 then (c5, None)
      else
        (c5 @ [SetModeNormal, CanStart, SafetyInit, CreateThread ''can_thread'' 5, CreateThread ''someip_thread'' 6],
         Some (safety_init (wdt_is_ready b) True True (boot t))))"

section \<open>someip_init\<close>

record net_socket =
  sock :: int
  bound :: bool
  joined :: bool

text \<open>The UDP build, from the results of socket, bind and setsockopt; a failed join is only logged.\<close>

definition someip_init_udp :: "int \<Rightarrow> int \<Rightarrow> int \<Rightarrow> int \<times> net_socket" where
  "someip_init_udp socket_ret bind_ret join_ret =
     (if socket_ret < 0 then (-1, \<lparr>sock = socket_ret, bound = False, joined = False\<rparr>)
      else if bind_ret < 0 then (-1, \<lparr>sock = socket_ret, bound = False, joined = False\<rparr>)
      else (0, \<lparr>sock = socket_ret, bound = True, joined = \<not> join_ret < 0\<rparr>))"

definition someip_init_uart :: "bool \<Rightarrow> int" where
  "someip_init_uart uart_ready = (if \<not> uart_ready then -1 else 0)"

definition someip_offer_service :: int where
  "someip_offer_service = 0"

section \<open>Receiving\<close>

text \<open>
  \<open>zsock_recvfrom\<close> into \<open>buf[64]\<close>, whose old contents are \<open>mem\<close>: a longer datagram is cut.  A
  datagram comes with whether it was sent to the group; None is the timeout of 50 ms.
\<close>

definition recv_into :: "bytes \<Rightarrow> bytes \<Rightarrow> bytes \<times> int" where
  "recv_into mem pkt = (take 64 pkt @ drop (length pkt) mem, int (min 64 (length pkt)))"

definition zsock_recvfrom :: "net_socket \<Rightarrow> bytes \<Rightarrow> (bool \<times> bytes) option \<Rightarrow> bytes \<times> int" where
  "zsock_recvfrom s mem datagram =
     (case datagram of
        None \<Rightarrow> (mem, -1)
      | Some (multicast, pkt) \<Rightarrow>
          if sock s < 0 \<or> \<not> bound s \<or> multicast \<and> \<not> joined s then (mem, -1) else recv_into mem pkt)"

text \<open>\<open>someip_receive\<close> of the UDP build.\<close>

definition someip_receive ::
  "net_socket \<Rightarrow> bytes \<Rightarrow> (bool \<times> bytes) option \<Rightarrow> 16 word \<Rightarrow>
   ((16 word \<times> byte) option \<times> bytes list \<times> 16 word) option" where
  "someip_receive s mem datagram session =
     (case zsock_recvfrom s mem datagram of (data, ret) \<Rightarrow> someip_udp_receive mem data ret session)"

section \<open>The firmware on its socket\<close>

text \<open>
  \<open>someip_thread\<close> ignores what \<open>someip_init\<close> returned.  The steps of the firmware in which an
  event is one that \<open>someip_receive\<close> took from the socket.
\<close>

inductive node_step :: "net_socket \<Rightarrow> bool \<Rightarrow> firmware \<Rightarrow> firmware \<Rightarrow> bool" for s ready where
  internal: "fw_step ready fw fw' \<Longrightarrow> received fw' = received fw \<Longrightarrow> node_step s ready fw fw'"
| receive: "\<not> was_reset fw \<Longrightarrow> someip_receive s mem datagram session = Some (Some ev, sent, session') \<Longrightarrow>
     node_step s ready fw (on_event ready ev fw)"

inductive node_reachable :: "net_socket \<Rightarrow> bool \<Rightarrow> firmware \<Rightarrow> firmware \<Rightarrow> bool" for s ready where
  node_start: "node_reachable s ready fw fw"
| node_next: "node_reachable s ready fw fw1 \<Longrightarrow> node_step s ready fw1 fw2 \<Longrightarrow> node_reachable s ready fw fw2"

inductive_cases node_stepE: "node_step s ready fw fw'"

lemma node_step_fw: "node_step s ready fw fw' \<Longrightarrow> fw_step ready fw fw'"
  by (erule node_stepE) (auto intro: fw_step.event)

lemma node_reachable_fw: "node_reachable s ready a b \<Longrightarrow> fw_reachable ready a b"
  by (induction rule: node_reachable.induct) (auto intro: fw_reachable.intros node_step_fw)

section \<open>Lemmas\<close>

text \<open>Each event keeps the firmware alive for 150 ms at most.\<close>

definition alive_ok :: "int \<Rightarrow> firmware \<Rightarrow> bool" where
  "alive_ok t fw \<longleftrightarrow> t \<le> wdt_fed fw \<and> wdt_fed fw \<le> t + 150 * int (length (received fw))"

lemma alive_step:
  assumes "alive_ok t fw" "clocks_ok fw" "fw_step True fw fw'"
  shows "alive_ok t fw'"
  using assms(3)
proof cases
  case (event ev)
  then show ?thesis using assms(1,2) by (simp add: alive_ok_def clocks_ok_def on_event_def
        safety_kick_watchdog_def k_timer_start_def wdt_feed_def Let_def algebra_simps)
next
  case (timeout fw1)
  then show ?thesis using assms(1,2)
    by (auto simp: alive_ok_def clocks_ok_def safety_timeout_def enter_safe_state_def can_send_warning_def
        led_toggle_def Let_def)
qed (use assms(1) in \<open>auto simp: alive_ok_def can_step_def led_pass_def led_toggle_def split: can_pc.split\<close>)

lemma alive_reachable:
  assumes "fw_reachable True (safety_init True can_dev led (boot t)) fw"
  shows "alive_ok t fw" "uptime fw \<le> t + 150 * (int (length (received fw)) + 1)"
proof -
  show *: "alive_ok t fw"
    using assms
  proof (induction "safety_init True can_dev led (boot t)" fw rule: fw_reachable.induct)
    case start
    then show ?case by (simp add: alive_ok_def safety_init_boot)
  next
    case (step fw1 fw2)
    then show ?case using alive_step clocks_reachable [OF step.hyps(1) clocks_init] by blast
  qed
  then show "uptime fw \<le> t + 150 * (int (length (received fw)) + 1)"
    using clocks_reachable [OF assms clocks_init] by (simp add: alive_ok_def clocks_ok_def)
qed

lemma deaf_receive:
  assumes "sock s < 0 \<or> \<not> bound s"
  shows "someip_receive s mem datagram session = Some (None, [], session)"
  using assms
  by (auto simp: someip_receive_def zsock_recvfrom_def someip_udp_receive_def split: option.split)

lemma deaf_run:
  assumes "node_reachable s ready fw fw'" "sock s < 0 \<or> \<not> bound s"
  shows "received fw' = received fw"
  using assms by (induction rule: node_reachable.induct) (auto elim: node_stepE simp: deaf_receive)

section \<open>Properties\<close>

text \<open>
  The set-up on every branch.  \<open>main\<close> starts the firmware exactly when the LED and the
  CAN controller are ready and the four timing calls return 0; then the controller is
  started before the monitor is armed, and the monitor before the threads.  On every other
  branch it returns with neither the monitor armed nor a thread created.
\<close>

theorem main_boot_outcomes:
  "case main_boot b t of
     (calls, Some fw) \<Rightarrow>
       led_is_ready b \<and> can_is_ready b \<and> calc_timing b = 0 \<and> set_timing b = 0 \<and>
       calc_timing_data b = 0 \<and> set_timing_data b = 0 \<and> fw = safety_init (wdt_is_ready b) True True (boot t) \<and>
       (\<exists>cs. calls = cs @ [CanStart, SafetyInit, CreateThread ''can_thread'' 5, CreateThread ''someip_thread'' 6])
   | (calls, None) \<Rightarrow>
       \<not> (led_is_ready b \<and> can_is_ready b \<and> calc_timing b = 0 \<and> set_timing b = 0 \<and>
          calc_timing_data b = 0 \<and> set_timing_data b = 0) \<and>
       CanStart \<notin> set calls \<and> SafetyInit \<notin> set calls \<and> (\<forall>name prio. CreateThread name prio \<notin> set calls)"
  by (simp add: main_boot_def Let_def)

text \<open>
  C16: the first event must come within 150 ms.  In every state the firmware reaches from its
  start, with the watchdog ready, before it has received an event, at most 150 ms have passed, after 100 ms it
  is SAFE, and all the CAN frames it has sent are warnings.  With a socket that \<open>someip_init\<close>
  failed to create or to bind, which \<open>someip_thread\<close> ignores, no event ever comes, and every run is cut at 150 ms.
\<close>

theorem start_window:
  assumes "someip_init_udp socket_ret bind_ret join_ret = (ret, s)"
    and "main_boot b t = (calls, Some fw0)" "wdt_is_ready b" "node_reachable s True fw0 fw"
  shows "(ret \<noteq> 0 \<longrightarrow> received fw = []) \<and>
    (received fw = [] \<longrightarrow> uptime fw \<le> t + 150 \<and> (t + 100 < uptime fw \<longrightarrow> safe_state fw) \<and>
       set (can_frames fw) \<subseteq> {0xFF})"
proof -
  have fw0: "fw0 = safety_init True True True (boot t)"
    using assms(2,3) by (auto simp: main_boot_def Let_def split: if_splits)
  have reach: "fw_reachable True (safety_init True True True (boot t)) fw"
    using node_reachable_fw [OF assms(4)] fw0 by simp
  have deaf: "received fw = []" if "ret \<noteq> 0"
  proof -
    have "sock s < 0 \<or> \<not> bound s"
      using assms(1) that by (auto simp: someip_init_udp_def split: if_splits)
    from deaf_run [OF assms(4) this] show ?thesis by (simp add: fw0 safety_init_boot)
  qed
  have window: "uptime fw \<le> t + 150 \<and> (t + 100 < uptime fw \<longrightarrow> safe_state fw)" if "received fw = []"
    using clocks_reachable [OF reach clocks_init] alive_reachable(1) [OF reach] that
    by (auto simp: clocks_ok_def alive_ok_def)
  have "set (can_frames fw) \<subseteq> {0xFF}" if "received fw = []"
    using can_reachable [OF reach can_init] that by (simp add: can_ok_def notified_def)
  with deaf window show ?thesis by blast
qed

theorem start_window_witness:
  "\<exists>s fw. someip_init_udp (-1) 0 0 = (-1, s) \<and>
     node_reachable s True (safety_init True True True (boot 0)) fw \<and> uptime fw = 100 \<and> received fw = [] \<and>
     set (can_frames fw) \<subseteq> {0xFF}"
proof -
  let ?s = "\<lparr>sock = -1, bound = False, joined = False\<rparr>" and ?start = "safety_init True True True (boot 0)"
  let ?fw = "?start\<lparr>uptime := 100\<rparr>"
  let ?b = "\<lparr>led_is_ready = True, can_is_ready = True, calc_timing = 0, set_timing = 0,
    calc_timing_data = 0, set_timing_data = 0, wdt_is_ready = True\<rparr>"
  have init: "someip_init_udp (-1) 0 0 = (-1, ?s)" by (simp add: someip_init_udp_def)
  obtain calls where started: "main_boot ?b 0 = (calls, Some ?start)" by (simp add: main_boot_def Let_def)
  have "fw_step True ?start ?fw" by (intro fw_step.elapse) (simp_all add: safety_init_boot)
  then have run: "node_reachable ?s True ?start ?fw"
    by (rule node_next [OF node_start node_step.internal]) simp
  have "received ?fw = []" "uptime ?fw = 100" "set (can_frames ?fw) \<subseteq> {0xFF}"
    using start_window [OF init started _ run] by simp_all
  with init run show ?thesis by blast
qed

end
