(* ===== verification/End_To_End.thy ===== *)
theory End_To_End
  imports Mcu_Boot Drowsiness Sd_Server
begin

text \<open>
  The two sides of the UDP build on one wire.  The packets the detector's threads deliver
  arrive, in any interleaving, as datagrams at the firmware; \<open>serve\<close> is the schedule in which
  \<open>someip_thread\<close> takes each datagram when it arrives and \<open>can_thread\<close>, whose period is 10 ms,
  completes its pass before the next one.  The schedule is a run of \<open>fw_step\<close>, so the
  invariants of the firmware hold in it.
\<close>

section \<open>The schedule\<close>

text \<open>A full pass of \<open>can_thread\<close>.\<close>

definition can_pass :: "firmware \<Rightarrow> firmware" where
  "can_pass fw = can_step (can_step (can_step fw))"

text \<open>
  The state of the firmware with the session counter of its subscriptions and the datagrams
  it sent as a discovery client.
\<close>

type_synonym node = "firmware \<times> 16 word \<times> bytes list"

text \<open>An arrival: the time, whether it was sent to the group, and the packet.\<close>

type_synonym arrival = "int \<times> bool \<times> bytes"

definition serve_one :: "net_socket \<Rightarrow> bytes \<Rightarrow> arrival \<Rightarrow> node \<Rightarrow> node" where
  "serve_one s mem arrival n =
     (case (arrival, n) of ((t, datagram), (fw, session, sent)) \<Rightarrow>
        let fw1 = fw\<lparr>uptime := t\<rparr> in
        case someip_receive s mem (Some datagram) session of
          None \<Rightarrow> (fw1, session, sent)
        | Some (ev, sent1, session1) \<Rightarrow>
            ((case ev of None \<Rightarrow> fw1 | Some e \<Rightarrow> can_pass (on_event True e fw1)),
             session1, sent @ sent1))"

fun serve :: "net_socket \<Rightarrow> bytes \<Rightarrow> arrival list \<Rightarrow> node \<Rightarrow> node" where
  "serve s mem [] n = n"
| "serve s mem (a # as) n = serve s mem as (serve_one s mem a n)"

text \<open>The packets \<open>pkts\<close>, at the times \<open>ts\<close>.\<close>

definition arrivals :: "bool \<Rightarrow> int list \<Rightarrow> bytes list \<Rightarrow> arrival list" where
  "arrivals multicast ts pkts = zip ts (map (Pair multicast) pkts)"

text \<open>A socket that takes such packets.\<close>

definition hears :: "net_socket \<Rightarrow> bool \<Rightarrow> bool" where
  "hears s multicast \<longleftrightarrow> 0 \<le> sock s \<and> bound s \<and> (joined s \<or> \<not> multicast)"

lemma hears_init: "someip_init_udp socket_ret bind_ret join_ret = (0, s) \<Longrightarrow> hears s False \<and> hears s (joined s)"
  by (auto simp: someip_init_udp_def hears_def split: if_splits)

lemma receive_heard:
  "hears s multicast \<Longrightarrow> someip_receive s mem (Some (multicast, pkt)) session =
     (case recv_into mem pkt of (data, ret) \<Rightarrow> someip_udp_receive mem data ret session)"
  by (auto simp: someip_receive_def zsock_recvfrom_def hears_def)

text \<open>Arrivals less than 100 ms apart, counted from \<open>t\<close>.\<close>

fun timely :: "int \<Rightarrow> int list \<Rightarrow> bool" where
  "timely t [] = True"
| "timely t (t1 # ts) = (t \<le> t1 \<and> t1 < t + 100 \<and> timely t1 ts)"

section \<open>Events\<close>

text \<open>The event of a packet the detector can have sent.\<close>

definition event_of :: "bytes \<Rightarrow> (16 word \<times> byte) option" where
  "event_of pkt =
     (case parse_event pkt of
        Inr (e, [b]) \<Rightarrow> if length pkt \<le> 64 then Some (word_of_int e, b) else None
      | _ \<Rightarrow> None)"

lemma event_of_notify: "event_of (notify_packet level) = Some (word_of_int EVENT_NOTIFY, word_of_int level)"
proof -
  have "length (notify_packet level) = 24" by (simp add: notify_packet_def)
  then show ?thesis by (simp add: event_of_def parse_notify_packet)
qed

lemma event_of_heartbeat: "event_of (heartbeat_packet c) = Some (word_of_int EVENT_HEARTBEAT, word_of_int c)"
proof -
  have "length (heartbeat_packet c) = 24" by (simp add: heartbeat_packet_def)
  then show ?thesis by (simp add: event_of_def parse_heartbeat_packet)
qed

lemma recv_event:
  assumes "event_of pkt = Some (e, b)" "length mem = 64" "recv_into mem pkt = (data, ret)"
  shows "someip_udp_receive mem data ret session = Some (Some (e, b), [], session)"
proof -
  from assms(1) obtain ev where parsed: "parse_event pkt = Inr (ev, [b])" "length pkt \<le> 64" "e = word_of_int ev"
    by (auto simp: event_of_def split: sum.splits prod.splits list.splits if_splits)
  have data: "data = pkt @ drop (length pkt) mem" "ret = int (length pkt)"
    using assms(3) parsed(2) by (auto simp: recv_into_def min_def)
  have "parse_event (take (length pkt) data) = Inr (ev, [b])" using parsed(1) data by simp
  from udp_receive_agrees [OF this, of mem session] data parsed(3) show ?thesis by simp
qed

lemma serve_event:
  assumes "event_of pkt = Some ev" "length mem = 64" "hears s multicast"
  shows "serve_one s mem (t, multicast, pkt) (fw, session, sent) =
    (can_pass (on_event True ev (fw\<lparr>uptime := t\<rparr>)), session, sent)"
proof -
  obtain data ret where "recv_into mem pkt = (data, ret)" by fastforce
  with recv_event [of pkt "fst ev" "snd ev" mem data ret session] assms show ?thesis
    by (simp add: serve_one_def receive_heard)
qed

section \<open>The invariant of the schedule\<close>

text \<open>Between two datagrams: NORMAL, the last event at \<open>t\<close>, \<open>can_thread\<close> idle with nothing to send.\<close>

definition settled :: "int \<Rightarrow> firmware \<Rightarrow> bool" where
  "settled t fw \<longleftrightarrow> \<not> safe_state fw \<and> \<not> was_reset fw \<and> uptime fw = t \<and> timer_due fw = t + 100 \<and>
     wdt_fed fw = t \<and> drowsiness_level fw = 0 \<and> can_at fw = CanIdle"

lemma settled_start: "settled t (safety_init True can_dev led (boot t))"
  by (simp add: settled_def safety_init_boot)

lemma reach_can_pass: "fw_reachable ready a b \<Longrightarrow> \<not> was_reset b \<Longrightarrow> fw_reachable ready a (can_pass b)"
  unfolding can_pass_def by (intro reach_can) simp_all

lemma can_pass_idle:
  assumes "can_at fw = CanIdle"
  shows "can_pass fw =
    (if drowsiness_level fw = 0 then fw
     else fw\<lparr>can_frames := can_frames fw @ [drowsiness_level fw], drowsiness_level := 0\<rparr>)"
  using assms by (cases fw) (simp add: can_pass_def can_step_def word_gt_0)

text \<open>The level an event puts on the bus.\<close>

definition bus_level :: "16 word \<times> byte \<Rightarrow> byte list" where
  "bus_level ev = (if fst ev = word_of_int EVENT_NOTIFY \<and> snd ev \<noteq> 0 then [snd ev] else [])"

lemma event_settled:
  assumes "settled t fw" "t \<le> t1" "t1 < t + 100" "fw_reachable True a fw"
    and fw'_def: "fw' = can_pass (on_event True ev (fw\<lparr>uptime := t1\<rparr>))"
  shows "settled t1 fw'" "fw_reachable True a fw'"
    "can_frames fw' = can_frames fw @ bus_level ev" "received fw' = received fw @ [ev]"
proof -
  let ?fw1 = "fw\<lparr>uptime := t1\<rparr>"
  have "fw_step True fw ?fw1" using assms(1-3) by (intro fw_step.elapse) (auto simp: settled_def)
  with assms(4) have r1: "fw_reachable True a ?fw1" by (rule fw_reachable.step)
  have "\<not> was_reset ?fw1" using assms(1) by (simp add: settled_def)
  with r1 have "fw_reachable True a (on_event True ev ?fw1)" by (rule reach_event)
  then show "fw_reachable True a fw'"
    unfolding fw'_def using assms(1) by (intro reach_can_pass) (simp_all add: settled_def)
  let ?fw2 = "on_event True ev ?fw1"
  have idle: "can_at ?fw2 = CanIdle" "can_frames ?fw2 = can_frames fw" "received ?fw2 = received fw @ [ev]"
      "drowsiness_level ?fw2 = (if fst ev = word_of_int EVENT_NOTIFY then snd ev else 0)"
    using assms(1) by (simp_all add: settled_def)
  have clocks: "\<not> safe_state ?fw2" "\<not> was_reset ?fw2" "uptime ?fw2 = t1" "timer_due ?fw2 = t1 + 100" "wdt_fed ?fw2 = t1"
    using assms(1) by (simp_all add: settled_def on_event_def safety_kick_watchdog_def k_timer_start_def wdt_feed_def Let_def)
  show "settled t1 fw'" "can_frames fw' = can_frames fw @ bus_level ev" "received fw' = received fw @ [ev]"
    using idle clocks unfolding fw'_def can_pass_idle [OF idle(1)] by (simp_all add: settled_def bus_level_def)
qed

lemma serve_events:
  assumes "settled t fw" "timely t ts" "length ts = length pkts" "fw_reachable True a fw"
    and "map event_of pkts = map Some evs" "length mem = 64" "hears s multicast"
  shows "\<exists>fw' t'. serve s mem (arrivals multicast ts pkts) (fw, session, sent) = (fw', session, sent) \<and>
    settled t' fw' \<and> fw_reachable True a fw' \<and>
    can_frames fw' = can_frames fw @ concat (map bus_level evs) \<and> received fw' = received fw @ evs"
  using assms
proof (induction ts arbitrary: t fw pkts evs)
  case Nil
  then show ?case by (auto simp: arrivals_def)
next
  case (Cons t1 ts)
  then obtain pkt pkts' ev evs' where l: "pkts = pkt # pkts'" "evs = ev # evs'" "event_of pkt = Some ev"
    "map event_of pkts' = map Some evs'" "length ts = length pkts'"
    by (cases pkts; cases evs) auto
  let ?fw1 = "can_pass (on_event True ev (fw\<lparr>uptime := t1\<rparr>))"
  note one = event_settled [OF Cons.prems(1) _ _ Cons.prems(4) refl, of t1 ev]
  have gap: "t \<le> t1" "t1 < t + 100" "timely t1 ts" using Cons.prems(2) by simp_all
  from Cons.IH [OF one(1) [OF gap(1,2)] gap(3) l(5) one(2) [OF gap(1,2)] l(4) Cons.prems(6,7)]
  show ?case
    using one(3,4) [OF gap(1,2)] l(1,2) serve_event [OF l(3) Cons.prems(6,7), of t1 fw session sent] by (auto simp: arrivals_def)
qed

section \<open>From faces to CAN frames\<close>

lemma camera_events:
  assumes "camera_loop env (\<lambda>level. send_notify (transport_send env tp) level 1) frames 0 [] = (r, tr')"
  shows "\<exists>xs. delivered tr' = map notify_packet xs \<and> prefix xs (alarms 0 (faces_seen frames)) \<and>
    (\<forall>c. r = Inr c \<longrightarrow> xs = alarms 0 (faces_seen frames))"
  using any_link.camera_loop_alarms [OF assms] by (auto simp: sent_prefix_def)

lemma heartbeat_events:
  assumes "\<forall>i. env i \<noteq> Some KeyboardInterrupt"
    and "heartbeat_run (transport_send env tp) n 0 [] = (r, c, tr')"
  shows "\<forall>pkt \<in> set (delivered tr'). \<exists>i. pkt = heartbeat_packet i"
proof -
  obtain pkts where "delivered tr' = pkts" "subseq pkts (map (\<lambda>i. heartbeat_packet (0 + int i)) [0..<n])"
    using thread_link.heartbeat_run_outcome [of env tp n 0 "[]"] assms(2) in_thread_id [OF assms(1)] by auto
  moreover have "x \<in> set ys" if "subseq xs ys" "x \<in> set xs" for x :: bytes and xs ys
    using that subseq_order.trans unfolding subseq_singleton_left [symmetric] by blast
  ultimately show ?thesis by fastforce
qed

lemma append_in_shuffles: "xs @ ys \<in> shuffles xs ys"
proof (induction xs)
  case (Cons x xs)
  then show ?case using Cons_in_shuffles_leftI by fastforce
qed simp

lemma bus_of_mixed:
  assumes "zs \<in> shuffles (map notify_packet xs) hs" "\<forall>h \<in> set hs. \<exists>i. h = heartbeat_packet i"
    and "\<forall>x \<in> set xs. (word_of_int x :: byte) \<noteq> 0"
  shows "\<exists>evs. map event_of zs = map Some evs \<and> concat (map bus_level evs) = map word_of_int xs"
  using assms
proof (induction zs arbitrary: xs hs)
  case (Cons z zs)
  have silent: "bus_level (word_of_int EVENT_HEARTBEAT, b) = []" for b
    by (simp add: bus_level_def)
  have loud: "bus_level (word_of_int EVENT_NOTIFY, b) = (if b = 0 then [] else [b])" for b
    by (simp add: bus_level_def)
  from Cons.prems(1) consider
    xs' x where "xs = x # xs'" "z = notify_packet x" "zs \<in> shuffles (map notify_packet xs') hs"
  | hs' where "hs = z # hs'" "zs \<in> shuffles (map notify_packet xs) hs'"
    by (cases xs; cases hs) (auto simp: Cons_in_shuffles_iff)
  then show ?case
  proof cases
    case 1
    with Cons.IH [OF 1(3)] Cons.prems(2,3) obtain evs where
      "map event_of zs = map Some evs" "concat (map bus_level evs) = map word_of_int xs'" by auto
    with 1 Cons.prems(3) show ?thesis
      by (intro exI [of _ "(word_of_int EVENT_NOTIFY, word_of_int x) # evs"])
        (simp add: event_of_notify loud del: EVENT_NOTIFY_def)
  next
    case 2
    then obtain i where z: "z = heartbeat_packet i" using Cons.prems(2) by auto
    from 2 Cons.IH [OF 2(2)] Cons.prems(2,3) obtain evs where
      "map event_of zs = map Some evs" "concat (map bus_level evs) = map word_of_int xs" by auto
    with z show ?thesis
      by (intro exI [of _ "(word_of_int EVENT_HEARTBEAT, word_of_int i) # evs"])
        (simp add: event_of_heartbeat silent del: EVENT_HEARTBEAT_def)
  qed
qed simp

lemma alarm_byte_nonzero: "x \<in> set (alarms 0 faces) \<Longrightarrow> (word_of_int x :: byte) \<noteq> 0"
  using alarms_range [of 0 faces] by (fastforce simp: word_of_int_eq_0_iff dest: zdvd_imp_le)



section \<open>Offers and subscriptions\<close>

text \<open>The message the firmware subscribes with, at session \<open>s\<close>.\<close>

definition is_subscription :: "int \<Rightarrow> bytes \<Rightarrow> bool" where
  "is_subscription s sub \<longleftrightarrow> (\<exists>ip. inet_aton ip = Inr [127, 0, 0, 1] \<and>
     parse_sd sub = Inr \<lparr>info_session_id = s, info_flags = FLAG_UNICAST,
         info_entries = [\<lparr>entry_type = ENTRY_SUBSCRIBE_EVENTGROUP, service_id = SERVICE_ID,
            instance_id = INSTANCE_ID, major_version = 1, ttl = TTL_DEFAULT, minor_version = None,
            eventgroup_id = Some 1\<rparr>],
         info_options = [\<lparr>option_type = OPT_IP4_ENDPOINT, endpoint = Some (ip, L4_UDP, SOMEIP_PORT)\<rparr>]\<rparr>)"

lemma serve_offer:
  assumes "build_offer_service SERVICE_ID INSTANCE_ID ip port ses TTL_DEFAULT minor f = Inr pkt" "length mem = 64" "hears s True"
  shows "\<exists>sub. serve_one s mem (t, True, pkt) (fw, session, sent) = (fw\<lparr>uptime := t\<rparr>, session + 1, sent @ [sub]) \<and>
    is_subscription (uint (session + 1)) sub"
proof -
  have len: "length pkt = 56" using offer_length [OF assms(1)] .
  then have data: "recv_into mem pkt = (pkt @ drop 56 mem, 56)" by (simp add: recv_into_def)
  have "take 56 (pkt @ drop 56 mem) = pkt" "length (pkt @ drop 56 mem) = 64" using len assms(2) by simp_all
  from offer_answered [OF assms(1) this assms(2), of session] obtain sub where
    "someip_udp_receive mem (pkt @ drop 56 mem) 56 session = Some (None, [sub], session + 1)"
    "is_subscription (uint (session + 1)) sub"
    unfolding is_subscription_def by (auto simp: TTL_DEFAULT_def)
  with data assms(3) show ?thesis by (auto simp: serve_one_def receive_heard)
qed

lemma serve_offers:
  assumes "\<forall>pkt \<in> set pkts. \<exists>ip port ses minor f.
      build_offer_service SERVICE_ID INSTANCE_ID ip port ses TTL_DEFAULT minor f = Inr pkt"
    and "length ts = length pkts" "length mem = 64" "hears s True"
  shows "\<exists>fw' subs. serve s mem (arrivals True ts pkts) (fw, session, sent) =
      (fw', session + of_nat (length pkts), sent @ subs) \<and>
    length subs = length pkts \<and> (\<forall>i < length pkts. is_subscription (uint (session + of_nat (Suc i))) (subs ! i)) \<and>
    received fw' = received fw \<and> can_frames fw' = can_frames fw"
  using assms
proof (induction ts arbitrary: pkts fw session sent)
  case Nil
  then show ?case by (simp add: arrivals_def)
next
  case (Cons t ts)
  then obtain pkt pkts' where l: "pkts = pkt # pkts'" "length ts = length pkts'" by (cases pkts) auto
  obtain sub where one: "serve_one s mem (t, True, pkt) (fw, session, sent) = (fw\<lparr>uptime := t\<rparr>, session + 1, sent @ [sub])"
    "is_subscription (uint (session + 1)) sub"
    using Cons.prems(1) l(1) serve_offer [OF _ Cons.prems(3,4)] by fastforce
  obtain fw' subs where rest: "serve s mem (arrivals True ts pkts') (fw\<lparr>uptime := t\<rparr>, session + 1, sent @ [sub]) =
      (fw', session + 1 + of_nat (length pkts'), (sent @ [sub]) @ subs)"
    "length subs = length pkts'"
    "\<forall>i < length pkts'. is_subscription (uint (session + 1 + of_nat (Suc i))) (subs ! i)"
    "received fw' = received fw" "can_frames fw' = can_frames fw"
    using Cons.IH [of pkts' "fw\<lparr>uptime := t\<rparr>" "session + 1" "sent @ [sub]"] Cons.prems(1,3,4) l by auto
  have "is_subscription (uint (session + of_nat (Suc i))) ((sub # subs) ! i)" if "i < length pkts" for i
    using that one(2) rest(3) l(1) by (cases i) (auto simp: add.assoc)
  with one(1) rest l show ?case by (auto simp: arrivals_def add.assoc intro!: exI [of _ "sub # subs"])
qed

lemma nth_server_same:
  "srv_service_id (nth_server srv k) = srv_service_id srv \<and> srv_instance_id (nth_server srv k) = srv_instance_id srv"
  by (induction k) (simp_all add: nth_server_def next_session_def)



end
