(* ===== verification/Unit_Tests.thy ===== *)
theory Unit_Tests
  imports Crc8 Someip_Protocol Sd_Messages Sd_Server
begin

text \<open>
  The assertions of the unit tests \<open>mpu/tests/test_someip_protocol.py\<close> and
  \<open>mpu/tests/test_someip_sd.py\<close>, evaluated on the model: one definition for each test function,
  true when every assertion of the test holds.  Each is proved by evaluation, so that the
  model agrees with the program on everything its authors test.  The checksum the first
  file implements a second time is proved equal for every message.
\<close>

text \<open>An expected result: the call returns, and what it returns satisfies the assertions.\<close>

definition returns :: "'a res \<Rightarrow> ('a \<Rightarrow> bool) \<Rightarrow> bool" where
  "returns r P = (case r of Inr x \<Rightarrow> P x | Inl _ \<Rightarrow> False)"

abbreviation be_at :: "bytes \<Rightarrow> nat \<Rightarrow> nat \<Rightarrow> int" where
  "be_at packet a b \<equiv> from_be (py_slice packet a b)"

section \<open>test\_someip\_protocol.py\<close>

definition independent_crc8_bit :: "int \<Rightarrow> int" where
  "independent_crc8_bit crc =
     (if crc AND 0x80 \<noteq> 0 then (push_bit 1 crc XOR 0x1D) AND 0xFF else push_bit 1 crc AND 0xFF)"

definition independent_crc8 :: "bytes \<Rightarrow> int" where
  "independent_crc8 data =
     foldl (\<lambda>crc b. (independent_crc8_bit ^^ 8) (crc XOR uint b)) 0xFF data XOR 0xFF"

definition test_notify_packet_length_field :: bool where
  "test_notify_packet_length_field =
     returns (build_notify 85 1) (\<lambda>packet. be_at packet 4 8 = 9 \<and> length packet = 24)"

definition test_header_fields :: bool where
  "test_header_fields =
     returns (build_notify 85 1) (\<lambda>packet.
       be_at packet 0 2 = SERVICE_ID \<and> SERVICE_ID = 0x1234 \<and>
       be_at packet 2 4 = EVENT_NOTIFY \<and> EVENT_NOTIFY = 0x8001 \<and>
       py_index packet 12 = Inr 0x01 \<and> py_index packet 13 = Inr 0x01 \<and>
       py_index packet 14 = Inr 0x02 \<and> py_index packet 15 = Inr 0x00)"

definition test_parse_roundtrip :: bool where
  "test_parse_roundtrip =
     returns (res_bind (build_notify 85 1) parse_event) (\<lambda>(event_id, payload).
       event_id = EVENT_NOTIFY \<and> payload = [0x55])"

definition test_heartbeat_roundtrip :: bool where
  "test_heartbeat_roundtrip =
     returns (res_bind (build_heartbeat 7 1) parse_event) (\<lambda>(event_id, payload).
       event_id = EVENT_HEARTBEAT \<and> payload = [0x07])"

definition test_crc8_known_vector :: bool where
  "test_crc8_known_vector =
     (let data = [0x55, 0xAA, 0x01, 0x55, 0x00, 0x00] in crc8 data = independent_crc8 data)"

lemma protocol_tests:
  "test_notify_packet_length_field" "test_header_fields" "test_parse_roundtrip"
  "test_heartbeat_roundtrip" "test_crc8_known_vector"
  by code_simp+

text \<open>The second implementation of the checksum is the first one, on every message.\<close>

lemma independent_crc8_eq: "independent_crc8 data = crc8 data"
proof -
  have bit: "independent_crc8_bit = crc8_bit"
    by (rule ext) (simp add: independent_crc8_bit_def crc8_bit_def)
  have "foldl (\<lambda>crc b. (independent_crc8_bit ^^ 8) (crc XOR uint b)) c data = foldl crc8_byte c (map uint data)" for c
    by (induction data arbitrary: c) (simp_all add: bit crc8_byte_def)
  then show ?thesis by (simp add: independent_crc8_def crc8_def)
qed

section \<open>test\_someip\_sd.py\<close>

definition SERVICE :: int where "SERVICE = 0x1234"
definition INSTANCE :: int where "INSTANCE = 0x5678"
definition HOST :: string where "HOST = ''10.0.2.15''"
definition PORT :: int where "PORT = 30490"

text \<open>The three packets the tests build, with the defaults of the builders' signatures.\<close>

abbreviation find_packet :: "bytes res" where
  "find_packet \<equiv> build_find_service SERVICE INSTANCE 1 TTL_DEFAULT FLAG_UNICAST"

abbreviation offer_packet_of :: "int \<Rightarrow> bytes res" where
  "offer_packet_of session_id \<equiv>
     build_offer_service SERVICE INSTANCE HOST PORT session_id TTL_DEFAULT 0 FLAG_UNICAST"

abbreviation first_entry :: "bytes \<Rightarrow> bytes" where
  "first_entry packet \<equiv> py_slice packet 24 40"

definition test_find_service_header :: bool where
  "test_find_service_header =
     returns find_packet (\<lambda>packet.
       py_slice packet 0 2 = [0xFF, 0xFF] \<and> py_slice packet 2 4 = [0x81, 0x00] \<and>
       py_slice packet 8 10 = [0x00, 0x00] \<and>
       py_index packet 12 = Inr 0x01 \<and> py_index packet 13 = Inr 0x01 \<and>
       py_index packet 14 = Inr 0x02 \<and> py_index packet 15 = Inr 0x00 \<and>
       py_index packet 16 = Inr FLAG_UNICAST \<and> be_at packet 10 12 = 0x0001)"

definition test_find_service_length :: bool where
  "test_find_service_length =
     returns find_packet (\<lambda>packet.
       let len = be_at packet 4 8 in
       len = 36 \<and> int (length packet) = 8 + len \<and> 8 + len = 44)"

definition test_offer_service_length :: bool where
  "test_offer_service_length =
     returns (offer_packet_of 1) (\<lambda>packet.
       let len = be_at packet 4 8 in
       len = 48 \<and> int (length packet) = 8 + len \<and> 8 + len = 56)"

definition test_service_entry_layout :: bool where
  "test_service_entry_layout =
     returns find_packet (\<lambda>packet.
       let entry = first_entry packet in
       py_index entry 0 = Inr ENTRY_FIND_SERVICE \<and>
       be_at entry 4 6 = SERVICE \<and> be_at entry 6 8 = INSTANCE \<and> py_index entry 8 = Inr 1 \<and>
       py_slice entry 9 12 = [0xFF, 0xFF, 0xFF] \<and> be_at entry 12 16 = 0)"

definition test_offer_entry_options :: bool where
  "test_offer_entry_options =
     returns (offer_packet_of 1) (\<lambda>packet.
       let entry = first_entry packet; options_len = be_at packet 40 44; opt = py_slice packet 44 56 in
       py_index entry 0 = Inr ENTRY_OFFER_SERVICE \<and> py_index entry 3 = Inr 0x10 \<and>
       py_index entry 1 = Inr 0 \<and> options_len = 12 \<and>
       be_at opt 0 2 = 9 \<and> py_index opt 2 = Inr OPT_IP4_ENDPOINT \<and> py_index opt 9 = Inr L4_UDP \<and>
       be_at opt 10 12 = PORT \<and> Inr (py_slice opt 4 8) = inet_aton HOST)"

definition test_ipv4_endpoint_option_layout :: bool where
  "test_ipv4_endpoint_option_layout =
     returns (build_ipv4_endpoint_option HOST PORT L4_UDP) (\<lambda>opt.
       be_at opt 0 2 = 9 \<and> py_index opt 2 = Inr 0x04 \<and> py_index opt 3 = Inr 0x00 \<and>
       Inr (py_slice opt 4 8) = inet_aton HOST \<and>
       py_index opt 8 = Inr 0x00 \<and> py_index opt 9 = Inr 0x11 \<and> be_at opt 10 12 = PORT)"

definition test_stop_offer_ttl_zero :: bool where
  "test_stop_offer_ttl_zero =
     returns (build_stop_offer_service SERVICE INSTANCE 1) (\<lambda>packet.
       let entry = first_entry packet in
       py_index entry 0 = Inr ENTRY_OFFER_SERVICE \<and> py_slice entry 9 12 = [0x00, 0x00, 0x00] \<and>
       be_at packet 40 44 = 0)"

definition test_parse_sd_roundtrip :: bool where
  "test_parse_sd_roundtrip =
     returns (res_bind (offer_packet_of 3) parse_sd) (\<lambda>inf.
       info_session_id inf = 3 \<and> info_flags inf = FLAG_UNICAST \<and>
       length (info_entries inf) = 1 \<and>
       (let e = info_entries inf ! 0 in
        entry_type e = ENTRY_OFFER_SERVICE \<and> service_id e = SERVICE \<and> instance_id e = INSTANCE \<and>
        major_version e = 1 \<and> ttl e = TTL_DEFAULT \<and> minor_version e = Some 0) \<and>
       length (info_options inf) = 1 \<and>
       (let o' = info_options inf ! 0 in
        option_type o' = OPT_IP4_ENDPOINT \<and> endpoint o' = Some (HOST, L4_UDP, PORT)))"

definition test_parse_sd_subscribe :: bool where
  "test_parse_sd_subscribe =
     returns (res_bind (build_subscribe_eventgroup SERVICE INSTANCE 0x0001 ''192.168.1.10'' 30500 1 TTL_DEFAULT)
                parse_sd) (\<lambda>inf.
       length (info_entries inf) = 1 \<and>
       (let e = info_entries inf ! 0 in
        entry_type e = ENTRY_SUBSCRIBE_EVENTGROUP \<and> eventgroup_id e = Some 0x0001 \<and>
        service_id e = SERVICE \<and> instance_id e = INSTANCE \<and> major_version e = 1) \<and>
       map_option (\<lambda>(_, _, port). port) (endpoint (info_options inf ! 0)) = Some 30500)"

definition test_parse_sd_invalid :: bool where
  "test_parse_sd_invalid =
     (case parse_sd (replicate 5 0x00) of Inl (ValueError _) \<Rightarrow> True | _ \<Rightarrow> False)"

text \<open>The test replaces \<open>sendto\<close> by a function that never fails: the world without failures.\<close>

definition test_server_session_increment :: bool where
  "test_server_session_increment =
     (let server = new_sd_server SERVICE INSTANCE HOST PORT SD_MULTICAST SD_PORT 2000 in
      srv_first server \<and> srv_session server = 1 \<and>
      (case offer_once (\<lambda>_. None) server [] of
         (Inr _, server', _) \<Rightarrow> srv_session server' = 2 \<and> \<not> srv_first server'
       | _ \<Rightarrow> False))"

lemma sd_builder_tests:
  "test_find_service_header" "test_find_service_length" "test_offer_service_length"
  "test_service_entry_layout" "test_offer_entry_options" "test_ipv4_endpoint_option_layout"
  "test_stop_offer_ttl_zero"
  by code_simp+

lemma sd_parser_tests:
  "test_parse_sd_roundtrip" "test_parse_sd_subscribe" "test_parse_sd_invalid"
  "test_server_session_increment"
  by code_simp+

end
