(* ===== verification/Host_Sim.thy ===== *)
theory Host_Sim
  imports End_To_End Test_Tools
begin

text \<open>
  The host simulator \<open>MCU/tests/sd_host_sim.cpp\<close>: the firmware's discovery codec in a program
  that plays the consumer on a PC, finds the service, subscribes and waits for its events.
  \<open>scripts/pc_sim_test.py\<close> runs it against the server and the client of the MPU.  What the
  system calls return and the datagrams that arrive are parameters, and so are the contents of the
  uninitialised buffers on the stack; a read beyond a buffer makes the result None.
\<close>

unbundle bit_operations_syntax

definition SIM_PORT :: "16 word" where [simp]: "SIM_PORT = 30490"
definition SIM_SERVICE_ID :: "16 word" where [simp]: "SIM_SERVICE_ID = 0x1234"
definition SIM_INSTANCE_ID :: "16 word" where [simp]: "SIM_INSTANCE_ID = 0x5678"
definition SIM_EVENT_NOTIFY :: "16 word" where [simp]: "SIM_EVENT_NOTIFY = 0x8001"
definition SIM_EVENT_HEARTBEAT :: "16 word" where [simp]: "SIM_EVENT_HEARTBEAT = 0x8002"
definition SIM_EVENTGROUP_ID :: "16 word" where [simp]: "SIM_EVENTGROUP_ID = 0x0001"
definition SIM_MULTICAST_IP :: string where "SIM_MULTICAST_IP = ''224.224.224.245''"

section \<open>The program\<close>

text \<open>
  The host: the results of the system calls (of \<open>sendto\<close> for each of the two packets), the
  local buffers in the order of the program.
\<close>

record host =
  socket_ret :: int
  bind_ret :: int
  join_ret :: int
  find_ret :: "bytes \<Rightarrow> int"
  subscribe_ret :: "bytes \<Rightarrow> int"
  find_buf :: bytes
  offer_buf :: bytes
  subscribe_buf :: bytes
  event_buf :: bytes

text \<open>
  \<open>recvfrom(sock, data, sizeof(data), ...)\<close>: None in the inbox is a timeout of 5 s, and so is
  every call when nothing more arrives; a datagram longer than the buffer is cut.
\<close>

type_synonym inbox = "bytes option list"

fun recvfrom :: "bytes \<Rightarrow> inbox \<Rightarrow> bytes \<times> int \<times> inbox" where
  "recvfrom data [] = (data, -1, [])"
| "recvfrom data (None # inbox) = (data, -1, inbox)"
| "recvfrom data (Some d # inbox) =
     (take (length data) d @ drop (length d) data, int (min (length data) (length d)), inbox)"

definition sim_u16 :: "bytes \<Rightarrow> nat \<Rightarrow> 16 word option" where
  "sim_u16 p off = do {
     a \<leftarrow> rd p off;
     b \<leftarrow> rd p (off + 1);
     Some (push_bit 8 (ucast a) OR ucast b)
   }"

text \<open>The loop over the entries of a parsed message: \<open>offer_ok\<close> and \<open>opt_ok\<close>.\<close>

fun match_offer :: "mcu_option list \<Rightarrow> mcu_entry list \<Rightarrow> bool \<times> bool" where
  "match_offer opts [] = (False, False)"
| "match_offer opts (ent # ents) =
     (if e_type ent = SD_ENTRY_OFFER_SERVICE \<and> e_service_id ent = SIM_SERVICE_ID \<and>
         e_instance_id ent = SIM_INSTANCE_ID
      then (True, list_ex (\<lambda>op. o_type op = SD_OPT_IP4_ENDPOINT \<and> o_l4_proto op = SD_L4_UDP) opts)
      else match_offer opts ents)"

text \<open>The body of the first receive loop: what the \<open>n\<close> bytes in \<open>data\<close> say.\<close>

definition check_offer :: "bytes \<Rightarrow> int \<Rightarrow> (bool \<times> bool) option" where
  "check_offer data n =
     (if n < 16 then Some (False, False)
      else
        case sd_parse (Some data) (nat n) (Some zero_parsed) of
          Some (r, Some parsed) \<Rightarrow>
            if r < 0 then Some (False, False)
            else Some (match_offer (take (unat (p_option_count parsed)) (p_options parsed))
                         (take (unat (p_entry_count parsed)) (p_entries parsed)))
        | _ \<Rightarrow> None)"

text \<open>At most \<open>k\<close> more receptions, 8 at the start: the two flags and the rest of the inbox.\<close>

fun await_offer :: "nat \<Rightarrow> bytes \<Rightarrow> inbox \<Rightarrow> ((bool \<times> bool) \<times> inbox) option" where
  "await_offer 0 data inbox = Some ((False, False), inbox)"
| "await_offer (Suc k) data inbox =
     (case recvfrom data inbox of (data1, n, inbox1) \<Rightarrow>
        do {
          (offer_ok, opt_ok) \<leftarrow> check_offer data1 n;
          if offer_ok then Some ((True, opt_ok), inbox1) else await_offer k data1 inbox1
        })"

text \<open>
  The body of the second receive loop: the flags \<open>got_notify\<close> and \<open>got_heartbeat\<close> after the
  \<open>n\<close> bytes in \<open>data\<close>.  The byte read for the message on the console is a read of the buffer.
\<close>

definition check_event :: "bytes \<Rightarrow> int \<Rightarrow> bool \<times> bool \<Rightarrow> (bool \<times> bool) option" where
  "check_event data n got =
     (if n < 2 * 2 then Some got
      else do {
        svc \<leftarrow> sim_u16 data 0;
        meth \<leftarrow> sim_u16 data 2;
        if svc \<noteq> SIM_SERVICE_ID then Some got
        else if meth = SIM_EVENT_NOTIFY then do { level \<leftarrow> rd data 16; Some (True, snd got) }
        else if meth = SIM_EVENT_HEARTBEAT then do { counter \<leftarrow> rd data 16; Some (fst got, True) }
        else Some got
      })"

fun await_events :: "nat \<Rightarrow> bytes \<Rightarrow> inbox \<Rightarrow> bool \<times> bool \<Rightarrow> (bool \<times> bool) option" where
  "await_events 0 data inbox got = Some got"
| "await_events (Suc k) data inbox got =
     (if fst got \<and> snd got then Some got
      else
        case recvfrom data inbox of (data1, n, inbox1) \<Rightarrow>
          do { got1 \<leftarrow> check_event data1 n got; await_events k data1 inbox1 got1 })"

text \<open>\<open>CHECK\<close>: what it adds to \<open>failures\<close>.\<close>

definition check_failures :: "bool \<Rightarrow> nat" where
  "check_failures cond = (if cond then 0 else 1)"

text \<open>
  A packet handed to \<open>sendto\<close>, with the address and the port it goes to.  \<open>inet_pton\<close> leaves the
  zeroes of the \<open>memset\<close> when the text is no address.
\<close>

type_synonym sent_packet = "bytes \<times> bytes \<times> 16 word"

definition sim_address :: "string \<Rightarrow> bytes" where
  "sim_address ip = (case inet_aton ip of Inr a \<Rightarrow> a | Inl _ \<Rightarrow> replicate 4 0)"

text \<open>\<open>main\<close>: the exit status and the packets sent.\<close>

definition sim_main :: "host \<Rightarrow> inbox \<Rightarrow> (int \<times> sent_packet list) option" where
  "sim_main h inbox =
     (if socket_ret h = -1 then Some (1, [])
      else if bind_ret h < 0 then Some (1, [])
      else if join_ret h < 0 then Some (1, [])
      else do {
        let (n, data) = sd_build_find_service (Some (find_buf h)) 64 SIM_SERVICE_ID SIM_INSTANCE_ID 1;
        data1 \<leftarrow> data;
        let find = take (nat n) data1;
        let sent1 = [(find, sim_address SIM_MULTICAST_IP, SIM_PORT)];
        let failures1 = check_failures (find_ret h find = n);
        ((offer_ok, opt_ok), inbox1) \<leftarrow> await_offer 8 (offer_buf h) inbox;
        let failures2 = failures1 + check_failures offer_ok + check_failures opt_ok;
        if \<not> offer_ok then Some (1, sent1)
        else do {
          let self_ip = [127, 0, 0, 1];
          let (sn, sub) = sd_build_subscribe_eventgroup (Some (subscribe_buf h)) 64 SIM_SERVICE_ID SIM_INSTANCE_ID
                            SIM_EVENTGROUP_ID (Some self_ip) SIM_PORT 2;
          sub1 \<leftarrow> sub;
          let subscribe = take (nat sn) sub1;
          let sent2 = sent1 @ [(subscribe, [127, 0, 0, 1], SIM_PORT)];
          let failures3 = failures2 + check_failures (subscribe_ret h subscribe = sn);
          (got_notify, got_heartbeat) \<leftarrow> await_events 6 (event_buf h) inbox1 (False, False);
          let failures4 = failures3 + check_failures got_notify + check_failures got_heartbeat;
          Some (if failures4 = 0 then 0 else 1, sent2)
        }
      })"

section \<open>What the two loops look for\<close>

text \<open>
  The flags of a datagram on its own, the first 256 bytes of which reach the buffer, and the
  head of an event: the service 0x1234 and the event, nothing behind them.
\<close>

definition offer_flags :: "bytes \<Rightarrow> bool \<times> bool" where
  "offer_flags d = (case check_offer (take 256 d) (int (min 256 (length d))) of Some flags \<Rightarrow> flags | None \<Rightarrow> (False, False))"

definition announced :: "bytes option \<Rightarrow> bool" where
  "announced x = (case x of None \<Rightarrow> False | Some d \<Rightarrow> fst (offer_flags d))"

definition starts_with :: "bytes \<Rightarrow> inbox \<Rightarrow> bool" where
  "starts_with head inbox = list_ex (\<lambda>x. case x of None \<Rightarrow> False | Some d \<Rightarrow> take 4 d = head) inbox"

abbreviation NOTIFY_HEAD :: bytes where "NOTIFY_HEAD \<equiv> [0x12, 0x34, 0x80, 0x01]"
abbreviation HEARTBEAT_HEAD :: bytes where "HEARTBEAT_HEAD \<equiv> [0x12, 0x34, 0x80, 0x02]"

lemma recvfrom_length: "recvfrom data inbox = (data1, n, inbox1) \<Longrightarrow> length data1 = length data"
  by (cases "(data, inbox)" rule: recvfrom.cases) auto

lemma check_offer_total:
  assumes "nat n \<le> length data" "length data = 256"
  shows "check_offer data n \<noteq> None"
proof (cases "n < 16")
  case False
  obtain r parsed where "sd_parse (Some data) (nat n) (Some zero_parsed) = Some (r, Some parsed)"
    using sd_parse_safe [of "nat n" data zero_parsed] assms by auto
  then show ?thesis by (simp add: check_offer_def del: not_None_eq)
qed (simp add: check_offer_def)

lemma check_offer_take:
  assumes "nat n \<le> length data" "length data = 256"
  shows "check_offer (take (nat n) data) n = check_offer data n"
  using sd_parse_take [of "nat n" data zero_parsed] assms by (simp add: check_offer_def)

lemma check_offer_received:
  assumes "length data = 256"
  shows "check_offer (take 256 d @ drop (length d) data) (int (min 256 (length d))) = Some (offer_flags d)"
proof -
  let ?n = "min 256 (length d)" and ?data = "take 256 d @ drop (length d) data"
  have "take ?n ?data = take 256 d" "length ?data = 256" using assms by (simp_all add: min_def)
  then have "check_offer (take 256 d) (int ?n) = check_offer ?data (int ?n)"
    using check_offer_take [of "int ?n" ?data] by simp
  moreover have "check_offer ?data (int ?n) \<noteq> None"
    using check_offer_total [of "int ?n" ?data] \<open>length ?data = 256\<close> by auto
  ultimately show ?thesis by (auto simp: offer_flags_def)
qed

section \<open>The first loop\<close>

lemma await_offer_pass:
  assumes "length data = 256"
  shows "await_offer (Suc k) data [] = await_offer k data []"
    "await_offer (Suc k) data (None # inbox) = await_offer k data inbox"
    "await_offer (Suc k) data (Some d # inbox) =
      (if fst (offer_flags d) then Some ((True, snd (offer_flags d)), inbox)
       else await_offer k (take 256 d @ drop (length d) data) inbox)"
  using assms check_offer_received [OF assms, of d]
  by (auto simp: check_offer_def split: prod.split)

lemma await_offer_found:
  assumes "length data = 256" "length before < k" "list_all (Not \<circ> announced) before" "fst (offer_flags d)"
  shows "await_offer k data (before @ Some d # after) = Some ((True, snd (offer_flags d)), after)"
  using assms
proof (induction before arbitrary: k data)
  case Nil
  then obtain k' where "k = Suc k'" by (cases k) auto
  with Nil show ?case by (simp add: await_offer_pass del: await_offer.simps)
next
  case (Cons x before)
  then obtain k' where "k = Suc k'" by (cases k) auto
  with Cons show ?case by (cases x) (auto simp: await_offer_pass announced_def simp del: await_offer.simps)
qed

lemma await_offer_missed:
  assumes "length data = 256" "list_all (Not \<circ> announced) (take k inbox)"
  shows "\<exists>inbox1. await_offer k data inbox = Some ((False, False), inbox1)"
  using assms
proof (induction k arbitrary: data inbox)
  case (Suc k)
  show ?case
  proof (cases inbox)
    case Nil
    with Suc show ?thesis by (simp add: await_offer_pass del: await_offer.simps)
  next
    case (Cons x inbox1)
    with Suc show ?thesis by (cases x) (auto simp: await_offer_pass announced_def simp del: await_offer.simps)
  qed
qed simp

section \<open>The second loop\<close>

lemma sim_u16_eq:
  assumes "Suc off < length p"
  shows "sim_u16 p off = Some (of_int (uint (p ! off) * 256 + uint (p ! Suc off)))"
  using assms by (simp add: sim_u16_def rd_def or_shifted)

lemma two_bytes:
  fixes a b c d :: byte
  shows "(of_int (uint a * 256 + uint b) :: 16 word) = of_int (uint c * 256 + uint d) \<longleftrightarrow> a = c \<and> b = d"
proof -
  have bounds: "0 \<le> uint a" "uint a < 256" "0 \<le> uint b" "uint b < 256" "0 \<le> uint c" "uint c < 256" "0 \<le> uint d" "uint d < 256"
    by (rule byte_bounds)+
  define v w where "v = uint a * 256 + uint b" and "w = uint c * 256 + uint d"
  have "0 \<le> v" "v < 65536" "0 \<le> w" "w < 65536"
    using bounds unfolding v_def w_def by linarith+
  then have "(of_int v :: 16 word) = of_int w \<longleftrightarrow> v = w"
    by (simp add: word_of_int_eq_iff take_bit_eq_mod)
  also have "v = w \<longleftrightarrow> uint a = uint c \<and> uint b = uint d"
    unfolding v_def w_def using bounds by (cases "uint a" "uint c" rule: linorder_cases) linarith+
  finally show ?thesis by (simp add: v_def w_def word_uint_eq_iff)
qed

lemma check_event_head:
  assumes "length x = 256" "4 \<le> n"
  shows "check_event x n got =
    Some (fst got \<or> take 4 x = NOTIFY_HEAD, snd got \<or> take 4 x = HEARTBEAT_HEAD)"
proof -
  have head: "take 4 x = [x ! 0, x ! 1, x ! 2, x ! 3]"
    using assms(1) by (simp add: list_eq_iff_nth_eq less_Suc_eq numeral_eq_Suc)
  have svc: "sim_u16 x 0 = Some (of_int (uint (x ! 0) * 256 + uint (x ! 1)))"
    using sim_u16_eq [of 0 x] assms(1) by simp
  have meth: "sim_u16 x 2 = Some (of_int (uint (x ! 2) * 256 + uint (x ! 3)))"
    using sim_u16_eq [of 2 x] assms(1) by (simp add: numeral_3_eq_3)
  have ids: "(of_int (uint (x ! 0) * 256 + uint (x ! 1)) :: 16 word) = SIM_SERVICE_ID \<longleftrightarrow> x ! 0 = 0x12 \<and> x ! 1 = 0x34"
    "(of_int (uint (x ! 2) * 256 + uint (x ! 3)) :: 16 word) = SIM_EVENT_NOTIFY \<longleftrightarrow> x ! 2 = 0x80 \<and> x ! 3 = 0x01"
    "(of_int (uint (x ! 2) * 256 + uint (x ! 3)) :: 16 word) = SIM_EVENT_HEARTBEAT \<longleftrightarrow> x ! 2 = 0x80 \<and> x ! 3 = 0x02"
    using two_bytes [of "x ! 0" "x ! 1" "0x12" "0x34"] two_bytes [of "x ! 2" "x ! 3" "0x80" "0x01"]
      two_bytes [of "x ! 2" "x ! 3" "0x80" "0x02"] by simp_all
  obtain v where rd: "rd x 16 = Some v" using assms(1) by (simp add: rd_def)
  have "check_event x n got =
      (if \<not> (x ! 0 = 0x12 \<and> x ! 1 = 0x34) then Some got
       else if x ! 2 = 0x80 \<and> x ! 3 = 0x01 then Some (True, snd got)
       else if x ! 2 = 0x80 \<and> x ! 3 = 0x02 then Some (fst got, True)
       else Some got)"
    unfolding check_event_def svc meth bind.bind_lunit ids rd using assms(2) by simp
  then show ?thesis unfolding head by (cases got) (simp, blast)
qed

lemma check_event_received:
  assumes "length data = 256"
  shows "check_event (take 256 d @ drop (length d) data) (int (min 256 (length d))) got =
    Some (fst got \<or> take 4 d = NOTIFY_HEAD, snd got \<or> take 4 d = HEARTBEAT_HEAD)"
proof (cases "length d < 4")
  case True
  have "take 4 d \<noteq> [w, x, y, z]" for w x y z
  proof
    assume "take 4 d = [w, x, y, z]"
    then have "length (take 4 d) = 4" by simp
    with True show False by simp
  qed
  with True show ?thesis by (simp add: check_event_def)
next
  case False
  let ?x = "take 256 d @ drop (length d) data"
  have "length ?x = 256" "take 4 ?x = take 4 d" using assms False by (simp_all add: min_def)
  with check_event_head [of ?x "int (min 256 (length d))" got] False show ?thesis by simp
qed

lemma await_events_eq:
  assumes "length data = 256"
  shows "await_events k data inbox got =
    Some (fst got \<or> starts_with NOTIFY_HEAD (take k inbox), snd got \<or> starts_with HEARTBEAT_HEAD (take k inbox))"
  using assms
proof (induction k arbitrary: data inbox got)
  case 0
  then show ?case by (simp add: starts_with_def)
next
  case (Suc k)
  have silent: "check_event data (-1) got = Some got" by (simp add: check_event_def)
  show ?case
  proof (cases "(data, inbox)" rule: recvfrom.cases)
    case (3 data' d inbox')
    then show ?thesis using Suc.IH [of "take 256 d @ drop (length d) data"] Suc.prems
      by (cases got) (auto simp: check_event_received starts_with_def)
  qed (use Suc silent in \<open>auto simp: starts_with_def intro: prod_eqI\<close>)
qed

section \<open>The whole program\<close>

definition buffers_ok :: "host \<Rightarrow> bool" where
  "buffers_ok h \<longleftrightarrow> length (find_buf h) = 64 \<and> length (offer_buf h) = 256 \<and>
     length (subscribe_buf h) = 64 \<and> length (event_buf h) = 256"

definition calls_ok :: "host \<Rightarrow> bytes \<Rightarrow> bytes \<Rightarrow> bool" where
  "calls_ok h req sub \<longleftrightarrow> socket_ret h \<noteq> -1 \<and> 0 \<le> bind_ret h \<and> 0 \<le> join_ret h \<and>
     find_ret h req = 44 \<and> subscribe_ret h sub = 56"

text \<open>The flow: a complete offer among the first 8 receptions, both events among the next 6.\<close>

definition flow_seen :: "inbox \<Rightarrow> bool" where
  "flow_seen inbox \<longleftrightarrow> (\<exists>before d after. inbox = before @ Some d # after \<and> length before < 8 \<and>
     list_all (Not \<circ> announced) before \<and> offer_flags d = (True, True) \<and>
     starts_with NOTIFY_HEAD (take 6 after) \<and> starts_with HEARTBEAT_HEAD (take 6 after))"

definition sim_packets :: "bytes \<Rightarrow> bytes \<Rightarrow> bool" where
  "sim_packets req sub \<longleftrightarrow> build_find_service 0x1234 0x5678 1 TTL_DEFAULT FLAG_UNICAST = Inr req \<and>
     build_subscribe_eventgroup 0x1234 0x5678 1 ''127.0.0.1'' 30490 2 TTL_DEFAULT = Inr sub"

text \<open>What a successful run sends, and where: to the group, and to the port it is bound to itself.\<close>

definition sim_sends :: "bytes \<Rightarrow> bytes \<Rightarrow> sent_packet list" where
  "sim_sends req sub = [(req, [224, 224, 224, 245], SIM_PORT), (sub, [127, 0, 0, 1], SIM_PORT)]"

lemma multicast_address: "sim_address SIM_MULTICAST_IP = [224, 224, 224, 245]"
  by code_simp

lemma sim_builds:
  assumes "buffers_ok h" "sim_packets req sub"
  shows "sd_build_find_service (Some (find_buf h)) 64 SIM_SERVICE_ID SIM_INSTANCE_ID 1 = (44, Some (req @ drop 44 (find_buf h)))"
    "sd_build_subscribe_eventgroup (Some (subscribe_buf h)) 64 SIM_SERVICE_ID SIM_INSTANCE_ID SIM_EVENTGROUP_ID
       (Some [127, 0, 0, 1]) SIM_PORT 2 = (56, Some (sub @ drop 56 (subscribe_buf h)))"
    "length req = 44" "length sub = 56"
  using find_packet [of "Some (find_buf h)" 64 SIM_SERVICE_ID SIM_INSTANCE_ID 1]
    subscribe_packet [OF _ inet_loopback, of "Some (subscribe_buf h)" 64 SIM_SERVICE_ID SIM_INSTANCE_ID SIM_EVENTGROUP_ID SIM_PORT 2]
    assms by (auto simp: buffers_ok_def sim_packets_def)

lemma first_announced:
  obtains (missed) "list_all (Not \<circ> announced) (take 8 inbox)"
  | (found) before d after where "inbox = before @ Some d # after" "length before < 8"
      "list_all (Not \<circ> announced) before" "fst (offer_flags d)"
proof (cases "list_all (Not \<circ> announced) (take 8 inbox)")
  case False
  then have "\<exists>x \<in> set (take 8 inbox). announced x" by (auto simp: list_all_iff)
  from split_list_first_prop [OF this] obtain before x rest where
    split: "take 8 inbox = before @ x # rest" "announced x" "\<forall>y \<in> set before. \<not> announced y" by blast
  then obtain d where x: "x = Some d" "fst (offer_flags d)" by (auto simp: announced_def split: option.splits)
  have "inbox = before @ Some d # (rest @ drop 8 inbox)"
    using append_take_drop_id [of 8 inbox] split(1) x(1) by simp
  moreover have "length before < 8" using arg_cong [OF split(1), of length] by simp
  ultimately show thesis using found split(3) x(2) by (auto simp: list_all_iff)
qed (rule missed)

text \<open>The first offer is the only one that counts.\<close>

lemma flow_seen_at:
  assumes "inbox = before @ Some d # after" "length before < 8" "list_all (Not \<circ> announced) before" "fst (offer_flags d)"
  shows "flow_seen inbox \<longleftrightarrow> snd (offer_flags d) \<and> starts_with NOTIFY_HEAD (take 6 after) \<and> starts_with HEARTBEAT_HEAD (take 6 after)"
proof -
  have same: "b = before \<and> e = d \<and> a = after"
    if "inbox = b @ Some e # a" "list_all (Not \<circ> announced) b" "fst (offer_flags e)" for b e a
  proof -
    have "takeWhile (Not \<circ> announced) (b @ Some e # a) = b" "takeWhile (Not \<circ> announced) (before @ Some d # after) = before"
      using that(2,3) assms(3,4) by (simp_all add: list_all_iff announced_def)
    with that(1) assms(1) show ?thesis by simp
  qed
  show ?thesis
  proof
    assume "flow_seen inbox"
    then obtain b e a where "inbox = b @ Some e # a" "list_all (Not \<circ> announced) b" "offer_flags e = (True, True)"
      "starts_with NOTIFY_HEAD (take 6 a)" "starts_with HEARTBEAT_HEAD (take 6 a)" by (auto simp: flow_seen_def)
    with same [of b e a] show "snd (offer_flags d) \<and> starts_with NOTIFY_HEAD (take 6 after) \<and> starts_with HEARTBEAT_HEAD (take 6 after)"
      by simp
  qed (use assms in \<open>auto simp: flow_seen_def prod_eq_iff\<close>)
qed

lemma flow_missed: "list_all (Not \<circ> announced) (take 8 inbox) \<Longrightarrow> \<not> flow_seen inbox"
  by (auto simp: flow_seen_def announced_def take_Cons')

lemma sim_main_status:
  assumes "buffers_ok h" "sim_packets req sub"
  shows "\<exists>status sent. sim_main h inbox = Some (status, sent) \<and>
    (if calls_ok h req sub \<and> flow_seen inbox then status = 0 \<and> sent = sim_sends req sub else status = 1)"
proof (cases "socket_ret h = -1 \<or> bind_ret h < 0 \<or> join_ret h < 0")
  case True
  then show ?thesis by (auto simp: sim_main_def calls_ok_def)
next
  case False
  note builds = sim_builds [OF assms]
  have len: "length (offer_buf h) = 256" "length (event_buf h) = 256" using assms(1) by (simp_all add: buffers_ok_def)
  show ?thesis
  proof (cases rule: first_announced [of inbox])
    case missed
    from await_offer_missed [OF len(1) missed] obtain inbox1
      where "await_offer 8 (offer_buf h) inbox = Some ((False, False), inbox1)" by blast
    with False builds flow_missed [OF missed] show ?thesis
      by (simp add: sim_main_def Let_def del: await_offer.simps await_events.simps)
  next
    case (found before d after)
    note offer = await_offer_found [OF len(1) found(2,3,4), of after, folded found(1)]
    note events = await_events_eq [OF len(2), of 6 after "(False, False)"]
    from False found(4) builds show ?thesis unfolding flow_seen_at [OF found]
      by (simp add: sim_main_def Let_def offer events calls_ok_def check_failures_def sim_sends_def multicast_address del: await_offer.simps await_events.simps)
  qed
qed

section \<open>The packets of the MPU in the simulator\<close>

lemma not_framed_flags:
  assumes "\<not> sd_framed (take 256 d) (min 256 (length d))"
  shows "offer_flags d = (False, False)"
  using assms sd_parse_body [OF _ refl refl, of "min 256 (length d)" "take 256 d" zero_parsed]
  by (simp add: offer_flags_def check_offer_def)

lemma parsed_flags:
  assumes "parse_sd d = Inr info" "length d \<le> 256" "length (info_entries info) \<le> 4"
  shows "offer_flags d = match_offer (take (unat (p_option_count (mcu_view info))) (p_options (mcu_view info)))
    (map mcu_entry_view (info_entries info))"
proof -
  have d: "take 256 d = d" "min 256 (length d) = length d" using assms(2) by simp_all
  have "16 \<le> length d" using parse_sd_bad_header [of d] assms(1) by (metis Inl_Inr_False not_le)
  moreover have "unat (of_nat (length (info_entries info)) :: byte) = length (info_entries info)"
    using assms(3) by (simp add: unat_of_nat)
  ultimately show ?thesis
    using sd_parse_view [of "length d" d info zero_parsed] assms
    by (simp add: offer_flags_def check_offer_def d mcu_view_def split: prod.split)
qed

lemma event_head:
  assumes "build_packet ev [b] s = Inr pkt"
  shows "take 4 pkt = [0x12, 0x34] @ be_bytes 2 ev" "offer_flags pkt = (False, False)"
proof -
  obtain r where pkt: "pkt = event_header ev 9 s @ r" using assms by (auto simp: build_packet_eq split: if_splits)
  have head: "take 2 pkt = be_bytes 2 SERVICE_ID" "take 4 pkt = be_bytes 2 SERVICE_ID @ be_bytes 2 ev"
    unfolding pkt event_header_def by (simp_all del: be_bytes.simps SERVICE_ID_def)
  have bytes: "be_bytes 2 SERVICE_ID = [0x12, 0x34]" by code_simp
  then show "take 4 pkt = [0x12, 0x34] @ be_bytes 2 ev" using head(2) by simp
  have "take 2 (take 256 pkt) = [0x12, 0x34]" using head(1) bytes by (simp add: min_def)
  then show "offer_flags pkt = (False, False)"
    by (intro not_framed_flags) (simp add: sd_framed_def Let_def from_be_def)
qed

lemma notify_head: "build_notify level s = Inr pkt \<Longrightarrow> take 4 pkt = NOTIFY_HEAD \<and> offer_flags pkt = (False, False)"
  and heartbeat_head: "build_heartbeat c s = Inr pkt \<Longrightarrow> take 4 pkt = HEARTBEAT_HEAD \<and> offer_flags pkt = (False, False)"
proof -
  have "be_bytes 2 EVENT_NOTIFY = [0x80, 0x01]" "be_bytes 2 EVENT_HEARTBEAT = [0x80, 0x02]" by code_simp+
  then show "build_notify level s = Inr pkt \<Longrightarrow> take 4 pkt = NOTIFY_HEAD \<and> offer_flags pkt = (False, False)"
    "build_heartbeat c s = Inr pkt \<Longrightarrow> take 4 pkt = HEARTBEAT_HEAD \<and> offer_flags pkt = (False, False)"
    using event_head by (auto simp: build_notify_eq build_heartbeat_eq)
qed

lemma offer_seen:
  assumes "build_offer_service 0x1234 0x5678 ip port s t minor f = Inr pkt"
  shows "offer_flags pkt = (True, True)"
proof -
  obtain ip' where info: "parse_sd pkt = Inr \<lparr>info_session_id = s mod 65536, info_flags = f mod 256,
      info_entries = [\<lparr>entry_type = ENTRY_OFFER_SERVICE, service_id = 0x1234, instance_id = 0x5678,
            major_version = 1, ttl = t mod 16777216, minor_version = Some (minor mod 4294967296), eventgroup_id = None\<rparr>],
      info_options = [\<lparr>option_type = OPT_IP4_ENDPOINT, endpoint = Some (ip', L4_UDP, port mod 65536)\<rparr>]\<rparr>"
    using parse_sd_offer [where sid = "0x1234" and iid = "0x5678" and ip = ip and port = port and s = s and t = t
        and minor = minor and f = f] assms by auto
  show ?thesis
    using parsed_flags [OF info] offer_length [OF assms]
    by (simp add: mcu_view_def slots_of_def endpoint_count_def has_endpoint_def mcu_entry_view_def mcu_option_view_def)
qed

lemma own_packets:
  assumes "sim_packets req sub"
  shows "offer_flags req = (False, False)" "offer_flags sub = (False, False)"
proof -
  have "length req = 44" "length sub = 56"
    using assms find_packet [of None 64 SIM_SERVICE_ID SIM_INSTANCE_ID 1]
      subscribe_packet [OF _ inet_loopback, of None 64 SIM_SERVICE_ID SIM_INSTANCE_ID SIM_EVENTGROUP_ID SIM_PORT 2]
    by (auto simp: sim_packets_def)
  then show "offer_flags req = (False, False)" "offer_flags sub = (False, False)"
    using parsed_flags [of req] parsed_flags [of sub] assms
      parse_sd_find [of "0x1234" "0x5678" 1 TTL_DEFAULT FLAG_UNICAST]
      parse_sd_subscribe [OF inet_loopback, of "0x1234" "0x5678" 1 30490 2 TTL_DEFAULT]
    by (auto simp: sim_packets_def mcu_entry_view_def)
qed

section \<open>The test that runs it\<close>

text \<open>The constants of pc\_sim\_test.py, its server and the transport of its event sender.\<close>

definition PC_SERVICE_ID :: int where [simp]: "PC_SERVICE_ID = 0x1234"
definition PC_INSTANCE_ID :: int where [simp]: "PC_INSTANCE_ID = 0x5678"
definition PC_SD_PORT :: int where [simp]: "PC_SD_PORT = 30490"
definition PC_HOST :: string where [simp]: "PC_HOST = ''127.0.0.1''"
definition PC_MULTICAST :: string where [simp]: "PC_MULTICAST = ''224.224.224.245''"

definition pc_sd_server :: sd_server where
  "pc_sd_server = new_sd_server PC_SERVICE_ID PC_INSTANCE_ID PC_HOST PC_SD_PORT PC_MULTICAST PC_SD_PORT 1000"

definition pc_transport :: transport where
  "pc_transport = Udp \<lparr>udp_host = PC_HOST, udp_port = PC_SD_PORT\<rparr>"

text \<open>
  What a call of \<open>recvfrom\<close> of the simulator can give: nothing, its own request (it is a member of
  the group it sends to) or subscription (sent to its own port), an offer, an event.
\<close>

datatype heard = Silence | OwnFind | OwnSubscribe | Offer nat | Event nat

fun datagram :: "bytes \<Rightarrow> bytes \<Rightarrow> bytes list \<Rightarrow> bytes list \<Rightarrow> heard \<Rightarrow> bytes option" where
  "datagram req sub ofs evs Silence = None"
| "datagram req sub ofs evs OwnFind = Some req"
| "datagram req sub ofs evs OwnSubscribe = Some sub"
| "datagram req sub ofs evs (Offer i) = Some (ofs ! i)"
| "datagram req sub ofs evs (Event j) = Some (evs ! j)"

text \<open>The events among what is heard, by their number in the order they were sent.\<close>

definition events_heard :: "heard list \<Rightarrow> nat list" where
  "events_heard hs = concat (map (\<lambda>h. case h of Event j \<Rightarrow> [j] | _ \<Rightarrow> []) hs)"

lemma events_heard_mem: "j \<in> set (events_heard hs) \<longleftrightarrow> Event j \<in> set hs"
  by (auto simp: events_heard_def split: heard.splits)

lemma pc_offers:
  assumes "offers (\<lambda>_. None) n pc_sd_server [] = (srv', tr)" "i < n"
  shows "offer_flags (delivered tr ! i) = (True, True)"
proof -
  have "sendable pc_sd_server" by (simp add: sendable_def pc_sd_server_def new_sd_server_def inet_loopback)
  then obtain pkts where "delivered tr = pkts" "offer_packet (nth_server pc_sd_server i) = Inr (pkts ! i)"
    using offers_quiet [of pc_sd_server "[]" "\<lambda>_. None" n] assms by auto
  with nth_server_same [of pc_sd_server i] show ?thesis
    by (auto simp: offer_packet_def pc_sd_server_def new_sd_server_def intro: offer_seen)
qed

lemma concat_pairs:
  assumes "\<forall>i < length xss. \<exists>a b. xss ! i = [a, b] \<and> P a \<and> Q b"
  shows "length (concat xss) = 2 * length xss \<and>
    (\<forall>j < 2 * length xss. if even j then P (concat xss ! j) else Q (concat xss ! j))"
  using assms
proof (induction xss)
  case (Cons xs xss)
  then obtain a b where xs: "xs = [a, b]" "P a" "Q b" by (metis length_Cons nth_Cons_0 zero_less_Suc)
  have "length (concat xss) = 2 * length xss \<and>
    (\<forall>j < 2 * length xss. if even j then P (concat xss ! j) else Q (concat xss ! j))"
    using Cons.prems by (intro Cons.IH) (metis Suc_less_eq length_Cons nth_Cons_Suc)
  moreover have "if even j then P ((a # b # concat xss) ! j) else Q ((a # b # concat xss) ! j)"
    if "j < 2 * length (xs # xss)"
      "\<forall>j < 2 * length xss. if even j then P (concat xss ! j) else Q (concat xss ! j)" for j
    using that xs(2,3) by (cases j; cases "j - 1") (auto simp: nth_Cons')
  ultimately show ?case by (simp add: xs(1))
qed simp

lemma pc_events:
  assumes "event_sender (transport_send (\<lambda>_. None) pc_transport) m 1 [] = (r, tr)" "j < 2 * m"
  shows "take 4 (delivered tr ! j) = (if even j then NOTIFY_HEAD else HEARTBEAT_HEAD)"
    "offer_flags (delivered tr ! j) = (False, False)"
proof -
  have send: "fst (transport_send (\<lambda>_. None) pc_transport p tr) = Inr ()" for p tr
    by (simp add: pc_transport_def udp_send_cases sendto_def perform_def)
  have "nth_session 0 = 1" by (simp add: nth_session_def)
  with event_sender_runs [OF send, of m 0 "[]"] assms(1) obtain pkts where pkts:
    "delivered tr = concat pkts" "length pkts = m"
    "\<forall>i < m. \<exists>a b. pkts ! i = [a, b] \<and> build_notify (30 + nth_session i mod 70) (nth_session i) = Inr a \<and>
       build_heartbeat (nth_session i) (nth_session i) = Inr b" by auto
  let ?P = "\<lambda>head a. take 4 a = head \<and> offer_flags a = (False, False)"
  have "\<forall>i < length pkts. \<exists>a b. pkts ! i = [a, b] \<and> ?P NOTIFY_HEAD a \<and> ?P HEARTBEAT_HEAD b"
    using pkts(2,3) notify_head heartbeat_head by blast
  from concat_pairs [OF this] assms(2) pkts(1,2)
  show "take 4 (delivered tr ! j) = (if even j then NOTIFY_HEAD else HEARTBEAT_HEAD)"
    "offer_flags (delivered tr ! j) = (False, False)" by (auto split: if_splits)
qed

lemma pc_before:
  assumes "offer_flags req = (False, False)" "offer_flags sub = (False, False)"
    and "\<forall>h \<in> set hs. (\<forall>i. h \<noteq> Offer i) \<and> (\<forall>j. h = Event j \<longrightarrow> offer_flags (evs ! j) = (False, False))"
  shows "list_all (Not \<circ> announced) (map (datagram req sub ofs evs) hs)"
proof -
  have "\<not> announced (datagram req sub ofs evs h)" if "h \<in> set hs" for h
    using assms that by (cases h) (auto simp: announced_def)
  then show ?thesis by (auto simp: list_all_iff)
qed

lemma pc_after:
  assumes "events_heard hs = [k..<k + l]" "2 \<le> l"
    and "\<forall>j. Event j \<in> set hs \<longrightarrow> take 4 (evs ! j) = (if even j then NOTIFY_HEAD else HEARTBEAT_HEAD)"
  shows "starts_with NOTIFY_HEAD (map (datagram req sub ofs evs) hs) \<and>
    starts_with HEARTBEAT_HEAD (map (datagram req sub ofs evs) hs)"
proof -
  have two: "Event k \<in> set hs" "Event (Suc k) \<in> set hs"
    using assms(1,2) events_heard_mem [of k hs] events_heard_mem [of "Suc k" hs] by simp_all
  have "starts_with (take 4 (evs ! j)) (map (datagram req sub ofs evs) hs)" if "Event j \<in> set hs" for j
    using that by (auto simp: starts_with_def list_ex_iff intro!: bexI [of _ "Event j"])
  from this [OF two(1)] this [OF two(2)] assms(3) two show ?thesis by (cases "even k") auto
qed

section \<open>Properties\<close>


text \<open>A host whose calls succeed.\<close>

definition quiet_host :: host where
  "quiet_host = \<lparr>socket_ret = 3, bind_ret = 0, join_ret = 0, find_ret = (\<lambda>p. int (length p)),
     subscribe_ret = (\<lambda>p. int (length p)), find_buf = replicate 64 0, offer_buf = replicate 256 0,
     subscribe_buf = replicate 64 0, event_buf = replicate 256 0\<rparr>"

lemma quiet_host_ok:
  assumes "sim_packets req sub"
  shows "buffers_ok quiet_host" "calls_ok quiet_host req sub"
  using sim_builds(3,4) [OF _ assms, of quiet_host] by (simp_all add: quiet_host_def buffers_ok_def calls_ok_def)

lemma sim_packets_exist: "\<exists>req sub. sim_packets req sub"
  using find_packet [of None 64 SIM_SERVICE_ID SIM_INSTANCE_ID 1]
    subscribe_packet [OF _ inet_loopback, of None 64 SIM_SERVICE_ID SIM_INSTANCE_ID SIM_EVENTGROUP_ID SIM_PORT 2]
  by (auto simp: sim_packets_def)




end
