(* ===== verification/Mcu_Host_Tests.thy ===== *)
theory Mcu_Host_Tests
  imports Mcu_Sd_Parser
begin

text \<open>
  The host tests of the firmware's discovery codec, \<open>MCU/tests/test_someip_sd_host.cpp\<close>: one
  predicate for each test function, true when all its checks pass.  Its byte vectors are
  shown to be what sd.py builds, as the file says.
\<close>

section \<open>The vectors\<close>

definition PY_FIND :: bytes where
  "PY_FIND =
    [0xFF, 0xFF, 0x81, 0x00, 0x00, 0x00, 0x00, 0x24, 0x00, 0x00, 0x00, 0x01,
     0x01, 0x01, 0x02, 0x00, 0x40, 0x00, 0x00, 0x00, 0x00, 0x00, 0x00, 0x10,
     0x00, 0x00, 0x00, 0x00, 0x12, 0x34, 0x56, 0x78, 0x01, 0xFF, 0xFF, 0xFF,
     0x00, 0x00, 0x00, 0x00, 0x00, 0x00, 0x00, 0x00]"

definition PY_OFFER :: bytes where
  "PY_OFFER =
    [0xFF, 0xFF, 0x81, 0x00, 0x00, 0x00, 0x00, 0x30, 0x00, 0x00, 0x00, 0x01,
     0x01, 0x01, 0x02, 0x00, 0x40, 0x00, 0x00, 0x00, 0x00, 0x00, 0x00, 0x10,
     0x01, 0x00, 0x00, 0x10, 0x12, 0x34, 0x56, 0x78, 0x01, 0xFF, 0xFF, 0xFF,
     0x00, 0x00, 0x00, 0x00, 0x00, 0x00, 0x00, 0x0C, 0x00, 0x09, 0x04, 0x00,
     0x0A, 0x00, 0x02, 0x0F, 0x00, 0x11, 0x77, 0x1A]"

definition PY_SUBSCRIBE :: bytes where
  "PY_SUBSCRIBE =
    [0xFF, 0xFF, 0x81, 0x00, 0x00, 0x00, 0x00, 0x30, 0x00, 0x00, 0x00, 0x01,
     0x01, 0x01, 0x02, 0x00, 0x40, 0x00, 0x00, 0x00, 0x00, 0x00, 0x00, 0x10,
     0x06, 0x00, 0x00, 0x00, 0x12, 0x34, 0x56, 0x78, 0x01, 0xFF, 0xFF, 0xFF,
     0x00, 0x00, 0x00, 0x01, 0x00, 0x00, 0x00, 0x0C, 0x00, 0x09, 0x04, 0x00,
     0x0A, 0x00, 0x02, 0x0F, 0x00, 0x11, 0x77, 0x1A]"

lemma vectors_built:
  "build_find_service 0x1234 0x5678 1 TTL_DEFAULT FLAG_UNICAST = Inr PY_FIND"
  "build_offer_service 0x1234 0x5678 ''10.0.2.15'' 30490 1 TTL_DEFAULT 0 FLAG_UNICAST = Inr PY_OFFER"
  "build_subscribe_eventgroup 0x1234 0x5678 1 ''10.0.2.15'' 30490 1 TTL_DEFAULT = Inr PY_SUBSCRIBE"
  by code_simp+

section \<open>Builders\<close>

text \<open>A call succeeded: the return value and the bytes it wrote; \<open>mem\<close> is the uninitialised buffer.\<close>

definition wrote :: "int \<times> bytes option \<Rightarrow> bytes \<Rightarrow> bool" where
  "wrote call expected =
     (case call of (n, Some buf) \<Rightarrow> n = int (length expected) \<and> n > 0 \<and> take (nat n) buf = expected | _ \<Rightarrow> False)"

definition test_build_find_matches_python :: "bytes \<Rightarrow> bool" where
  "test_build_find_matches_python mem = wrote (sd_build_find_service (Some mem) 64 0x1234 0x5678 1) PY_FIND"

definition test_build_subscribe_matches_python :: "bytes \<Rightarrow> bool" where
  "test_build_subscribe_matches_python mem =
     (let ip = [10, 0, 2, 15] in
      wrote (sd_build_subscribe_eventgroup (Some mem) 64 0x1234 0x5678 0x0001 (Some ip) 30490 1) PY_SUBSCRIBE)"

definition test_build_overflow_returns_minus1 :: "bytes \<Rightarrow> bool" where
  "test_build_overflow_returns_minus1 small =
     (fst (sd_build_find_service (Some small) 8 0x1234 0x5678 1) = -1 \<and>
      fst (sd_build_find_service None 64 0x1234 0x5678 1) = -1 \<and>
      fst (sd_build_subscribe_eventgroup (Some small) 8 0x1234 0x5678 1 None 30490 1) = -1)"

lemma builder_tests:
  "length mem = 64 \<Longrightarrow> test_build_find_matches_python mem"
  "length mem = 64 \<Longrightarrow> test_build_subscribe_matches_python mem"
  "test_build_overflow_returns_minus1 small"
proof -
  have ip: "inet_aton ''10.0.2.15'' = Inr [10, 0, 2, 15]" by code_simp
  show "length mem = 64 \<Longrightarrow> test_build_find_matches_python mem"
    using find_packet [of "Some mem" 64 "0x1234" "0x5678" 1] vectors_built(1)
    by (auto simp: test_build_find_matches_python_def wrote_def)
  show "length mem = 64 \<Longrightarrow> test_build_subscribe_matches_python mem"
    using subscribe_packet [OF _ ip, of "Some mem" 64 "0x1234" "0x5678" 1 30490 1] vectors_built(3)
    by (auto simp: test_build_subscribe_matches_python_def wrote_def)
  show "test_build_overflow_returns_minus1 small"
    by (simp add: test_build_overflow_returns_minus1_def sd_build_find_service_def sd_build_subscribe_eventgroup_def)
qed

section \<open>Parser\<close>

text \<open>A call that returns 0 and a record with the expected contents, and one that returns -1.\<close>

definition parsed_as :: "bytes \<Rightarrow> (sd_parsed \<Rightarrow> bool) \<Rightarrow> bool" where
  "parsed_as buf expected =
     (case sd_parse (Some buf) (length buf) (Some zero_parsed) of Some (r, Some p) \<Rightarrow> r = 0 \<and> expected p | _ \<Rightarrow> False)"

definition refused :: "bytes option \<Rightarrow> nat \<Rightarrow> bool" where
  "refused buf len = (map_option fst (sd_parse buf len (Some zero_parsed)) = Some (-1))"

definition test_parse_find :: bool where
  "test_parse_find =
     parsed_as PY_FIND (\<lambda>p.
       p_entry_count p = 1 \<and> p_option_count p = 0 \<and>
       (let e = p_entries p ! 0 in
        e_type e = SD_ENTRY_FIND_SERVICE \<and> e_service_id e = 0x1234 \<and> e_instance_id e = 0x5678 \<and>
        e_major_version e = 1 \<and> e_ttl e = 0xFFFFFF) \<and>
       p_session_id p = 1 \<and> p_flags p = SD_FLAG_UNICAST)"

definition test_parse_offer :: bool where
  "test_parse_offer =
     parsed_as PY_OFFER (\<lambda>p.
       p_entry_count p = 1 \<and> p_option_count p = 1 \<and>
       (let e = p_entries p ! 0 in
        e_type e = SD_ENTRY_OFFER_SERVICE \<and> e_service_id e = 0x1234 \<and> e_instance_id e = 0x5678 \<and> e_ttl e = 0xFFFFFF) \<and>
       (let opt = p_options p ! 0 in
        o_type opt = SD_OPT_IP4_ENDPOINT \<and> o_address opt = [10, 0, 2, 15] \<and> o_port opt = 30490 \<and> o_l4_proto opt = SD_L4_UDP))"

definition test_parse_subscribe :: bool where
  "test_parse_subscribe =
     parsed_as PY_SUBSCRIBE (\<lambda>p.
       p_entry_count p = 1 \<and>
       (let e = p_entries p ! 0 in
        e_type e = SD_ENTRY_SUBSCRIBE_EVENTGROUP \<and> e_eventgroup_id e = 0x0001 \<and> e_service_id e = 0x1234) \<and>
       o_port (p_options p ! 0) = 30490)"

definition test_parse_rejects_invalid :: bool where
  "test_parse_rejects_invalid =
     (refused None 44 \<and> refused (Some PY_FIND) 0 \<and> refused (Some PY_FIND) 8 \<and> refused (Some PY_FIND) 23 \<and>
      (let bad = PY_FIND[0 := 0x12, 1 := 0x34] in refused (Some bad) 44) \<and>
      (let corrupt = PY_FIND[23 := 0x11] in refused (Some corrupt) 44))"

lemma parsed_as_view:
  "parse_sd buf = Inr info \<Longrightarrow> length buf < 2 ^ 32 \<Longrightarrow> length (info_entries info) \<le> 4 \<Longrightarrow>
   parsed_as buf expected = expected (mcu_view info)"
  using sd_parse_view [of "length buf" buf info zero_parsed] by (simp add: parsed_as_def)

lemma refused_unframed: "len \<le> length buf \<Longrightarrow> refused (Some buf) len = (\<not> sd_framed buf len)" if "len < 2 ^ 32"
  using sd_parse_safe [of len buf zero_parsed] that by (auto simp: refused_def split: if_splits)

lemma test_parse_find_holds: "test_parse_find"
proof -
  let ?info = "\<lparr>info_session_id = 1, info_flags = 0x40,
     info_entries = [\<lparr>entry_type = 0, service_id = 0x1234, instance_id = 0x5678, major_version = 1,
       ttl = 0xFFFFFF, minor_version = Some 0, eventgroup_id = None\<rparr>], info_options = []\<rparr>"
  have info: "parse_sd PY_FIND = Inr ?info" by code_simp
  have "length PY_FIND = 44" by code_simp
  then show ?thesis unfolding test_parse_find_def
    by (subst parsed_as_view [OF info]) (simp, simp, code_simp)
qed

lemma test_parse_offer_holds: "test_parse_offer"
proof -
  let ?info = "\<lparr>info_session_id = 1, info_flags = 0x40,
     info_entries = [\<lparr>entry_type = 1, service_id = 0x1234, instance_id = 0x5678, major_version = 1,
       ttl = 0xFFFFFF, minor_version = Some 0, eventgroup_id = None\<rparr>],
     info_options = [\<lparr>option_type = 4, endpoint = Some (''10.0.2.15'', 0x11, 30490)\<rparr>]\<rparr>"
  have info: "parse_sd PY_OFFER = Inr ?info" by code_simp
  have "length PY_OFFER = 56" by code_simp
  then show ?thesis unfolding test_parse_offer_def
    by (subst parsed_as_view [OF info]) (simp, simp, code_simp)
qed

lemma test_parse_subscribe_holds: "test_parse_subscribe"
proof -
  let ?info = "\<lparr>info_session_id = 1, info_flags = 0x40,
     info_entries = [\<lparr>entry_type = 6, service_id = 0x1234, instance_id = 0x5678, major_version = 1,
       ttl = 0xFFFFFF, minor_version = None, eventgroup_id = Some 1\<rparr>],
     info_options = [\<lparr>option_type = 4, endpoint = Some (''10.0.2.15'', 0x11, 30490)\<rparr>]\<rparr>"
  have info: "parse_sd PY_SUBSCRIBE = Inr ?info" by code_simp
  have "length PY_SUBSCRIBE = 56" by code_simp
  then show ?thesis unfolding test_parse_subscribe_def
    by (subst parsed_as_view [OF info]) (simp, simp, code_simp)
qed

lemma test_parse_rejects_invalid_holds: "test_parse_rejects_invalid"
proof -
  have "length PY_FIND = 44" by code_simp
  moreover have "\<not> sd_framed PY_FIND 0" "\<not> sd_framed PY_FIND 8" "\<not> sd_framed PY_FIND 23"
    by (simp_all add: sd_framed_def Let_def)
  moreover have "\<not> sd_framed (PY_FIND[0 := 0x12, 1 := 0x34]) 44" "\<not> sd_framed (PY_FIND[23 := 0x11]) 44"
    by code_simp+
  moreover have "refused None 44" by (simp add: refused_def sd_parse_def)
  ultimately show ?thesis
    by (simp add: test_parse_rejects_invalid_def refused_unframed Let_def)
qed

end
