(* ===== verification/Mcu_Monitor.thy ===== *)
theory Mcu_Monitor
  imports Mcu_Main
begin

text \<open>
  What the safety monitor of the firmware promises, without its timer, watchdog and threads:
  a condition that gets worse with the age of the last event, and that only an event
  improves.  The firmware of \<open>Mcu_Main\<close> implements it exactly: each of its steps is a step of the
  specification, and each step of the specification is one the firmware can take.
\<close>

section \<open>Specification\<close>

datatype condition = Normal | Safe | Reset

text \<open>Ordered by severity.\<close>

fun severity :: "condition \<Rightarrow> nat" where
  "severity Normal = 0"
| "severity Safe = 1"
| "severity Reset = 2"

lemma severity_inj [simp]: "severity c = severity d \<longleftrightarrow> c = d"
  by (cases c; cases d) simp_all

instantiation condition :: linorder
begin

definition less_eq_condition :: "condition \<Rightarrow> condition \<Rightarrow> bool" where
  "c \<le> d \<longleftrightarrow> severity c \<le> severity d"

definition less_condition :: "condition \<Rightarrow> condition \<Rightarrow> bool" where
  "c < d \<longleftrightarrow> severity c < severity d"

instance
proof
  fix c d :: condition
  assume "c \<le> d" "d \<le> c"
  then show "c = d" by (metis less_eq_condition_def order_antisym severity_inj)
qed (auto simp: less_eq_condition_def less_condition_def)

end

text \<open>How long a condition can last, in milliseconds since the last event.\<close>

fun lasts :: "condition \<Rightarrow> int" where
  "lasts Normal = HEARTBEAT_TIMEOUT_MS"
| "lasts Safe = WDT_TIMEOUT_MS"
| "lasts Reset = WDT_TIMEOUT_MS"

record monitor =
  age :: int
  cond :: condition

inductive monitor_step :: "monitor \<Rightarrow> monitor \<Rightarrow> bool" where
  pass: "cond m \<noteq> Reset \<Longrightarrow> age m \<le> a \<Longrightarrow> a \<le> lasts (cond m) \<Longrightarrow> monitor_step m (m\<lparr>age := a\<rparr>)"
| escalate: "cond m = Normal \<Longrightarrow> age m = lasts Normal \<Longrightarrow> monitor_step m (m\<lparr>cond := Safe\<rparr>)"
| give_up: "cond m = Safe \<Longrightarrow> age m = lasts Safe \<Longrightarrow> monitor_step m (m\<lparr>cond := Reset\<rparr>)"
| heard: "cond m \<noteq> Reset \<Longrightarrow> monitor_step m \<lparr>age = 0, cond = Normal\<rparr>"

inductive_cases monitor_stepE: "monitor_step m m'"
inductive_simps monitor_step_from_reset: "monitor_step \<lparr>age = a, cond = Reset\<rparr> m'"

lemma reset_is_final: "\<not> monitor_step \<lparr>age = a, cond = Reset\<rparr> m'"
  by (simp add: monitor_step_from_reset)

lemma monitor_step_worsens: "monitor_step m m' \<Longrightarrow> m' \<noteq> \<lparr>age = 0, cond = Normal\<rparr> \<Longrightarrow> cond m \<le> cond m'"
  by (erule monitor_stepE) (simp_all add: less_eq_condition_def)

section \<open>The firmware as a monitor\<close>

definition condition_of :: "firmware \<Rightarrow> condition" where
  "condition_of fw = (if was_reset fw then Reset else if safe_state fw then Safe else Normal)"

definition monitor_of :: "firmware \<Rightarrow> monitor" where
  "monitor_of fw = \<lparr>age = uptime fw - wdt_fed fw, cond = condition_of fw\<rparr>"

lemma monitor_of_start: "monitor_of (safety_init True can_dev led (boot t)) = \<lparr>age = 0, cond = Normal\<rparr>"
  by (simp add: monitor_of_def condition_of_def safety_init_boot)

text \<open>A step that touches neither clock nor state is time standing still.\<close>

lemma monitor_stutter:
  assumes "clocks_ok fw" "\<not> was_reset fw" "monitor_of fw' = monitor_of fw"
  shows "monitor_step (monitor_of fw) (monitor_of fw')"
  using monitor_step.pass [of "monitor_of fw" "age (monitor_of fw)"] assms
  by (auto simp: monitor_of_def condition_of_def clocks_ok_def split: if_splits)

lemma monitor_of_internal:
  "monitor_of (can_step fw) = monitor_of fw" "monitor_of (led_pass fw) = monitor_of fw"
  "monitor_of (find_pass mem fw) = monitor_of fw"
  by (simp_all add: monitor_of_def condition_of_def can_step_def led_pass_def led_toggle_def split: can_pc.split)

lemma monitor_of_event: "\<not> was_reset fw \<Longrightarrow> monitor_of (on_event True ev fw) = \<lparr>age = 0, cond = Normal\<rparr>"
  by (simp add: monitor_of_def condition_of_def fw_defs)

lemma monitor_of_timeout:
  assumes "\<not> was_reset fw" "\<not> safe_state fw"
  shows "monitor_of ((safety_timeout True fw)\<lparr>timer_due := due\<rparr>) = (monitor_of fw)\<lparr>cond := Safe\<rparr>"
  using assms by (simp add: monitor_of_def condition_of_def fw_defs)

lemma firmware_simulates:
  assumes "clocks_ok fw" "fw_step True fw fw'"
  shows "monitor_step (monitor_of fw) (monitor_of fw')"
  using assms(2)
proof cases
  case (elapse t)
  then have "monitor_of fw' = (monitor_of fw)\<lparr>age := t - wdt_fed fw\<rparr>"
    by (simp add: monitor_of_def condition_of_def)
  with elapse assms(1) monitor_step.pass [of "monitor_of fw" "t - wdt_fed fw"] show ?thesis
    by (auto simp: monitor_of_def condition_of_def clocks_ok_def split: if_splits)
next
  case (timeout fw1)
  then have normal: "\<not> safe_state fw" using assms(1) by (auto simp: clocks_ok_def)
  then have "age (monitor_of fw) = lasts Normal" "cond (monitor_of fw) = Normal"
    using timeout assms(1) by (simp_all add: monitor_of_def condition_of_def clocks_ok_def)
  with monitor_step.escalate [of "monitor_of fw"] timeout normal monitor_of_timeout show ?thesis by simp
next
  case watchdog
  then have "age (monitor_of fw) = lasts Safe" "cond (monitor_of fw) = Safe"
    "monitor_of fw' = (monitor_of fw)\<lparr>cond := Reset\<rparr>"
    using assms(1) by (auto simp: monitor_of_def condition_of_def clocks_ok_def)
  with monitor_step.give_up [of "monitor_of fw"] show ?thesis by simp
next
  case (event ev)
  with monitor_step.heard [of "monitor_of fw"] monitor_of_event [of fw ev] show ?thesis
    by (simp add: monitor_of_def condition_of_def)
qed (use assms(1) monitor_stutter monitor_of_internal in simp_all)

lemma firmware_realises:
  assumes "clocks_ok fw" "monitor_step (monitor_of fw) m'"
  shows "\<exists>fw'. fw_step True fw fw' \<and> monitor_of fw' = m'"
  using assms(2)
proof cases
  case (pass a)
  then have live: "\<not> was_reset fw" by (auto simp: monitor_of_def condition_of_def)
  have "fw_step True fw (fw\<lparr>uptime := wdt_fed fw + a\<rparr>)"
    using pass live assms(1) by (intro fw_step.elapse)
      (auto simp: monitor_of_def condition_of_def clocks_ok_def split: if_splits)
  moreover have "monitor_of (fw\<lparr>uptime := wdt_fed fw + a\<rparr>) = m'"
    using pass by (simp add: monitor_of_def condition_of_def)
  ultimately show ?thesis by blast
next
  case escalate
  then have "\<not> was_reset fw" "\<not> safe_state fw" "uptime fw = timer_due fw"
    using assms(1) by (auto simp: monitor_of_def condition_of_def clocks_ok_def split: if_splits)
  with escalate fw_step.timeout [OF _ _ refl, of fw True] monitor_of_timeout show ?thesis by metis
next
  case give_up
  then have "\<not> was_reset fw" "uptime fw = wdt_fed fw + WDT_TIMEOUT_MS"
    by (auto simp: monitor_of_def condition_of_def split: if_splits)
  then have "fw_step True fw (fw\<lparr>was_reset := True\<rparr>)" by (intro fw_step.watchdog) simp_all
  moreover have "monitor_of (fw\<lparr>was_reset := True\<rparr>) = m'"
    using give_up by (simp add: monitor_of_def condition_of_def)
  ultimately show ?thesis by blast
next
  case heard
  then have "\<not> was_reset fw" by (auto simp: monitor_of_def condition_of_def)
  with heard fw_step.event monitor_of_event show ?thesis by metis
qed

text \<open>Between two events the condition only gets worse.\<close>

lemma condition_step:
  assumes "clocks_ok fw" "fw_step True fw fw'" "received fw' = received fw"
  shows "condition_of fw \<le> condition_of fw'"
  using assms(2)
proof cases
  case (timeout fw1)
  with assms(1) show ?thesis by (auto simp: condition_of_def clocks_ok_def less_eq_condition_def)
qed (use assms(3) in \<open>auto simp: condition_of_def less_eq_condition_def can_step_def led_pass_def led_toggle_def
      split: can_pc.split\<close>)

lemma received_grows: "fw_reachable ready fw fw' \<Longrightarrow> \<exists>evs. received fw' = received fw @ evs"
proof (induction rule: fw_reachable.induct)
  case (step fw fw1 fw2)
  have "\<exists>evs. received fw2 = received fw1 @ evs"
    using step.hyps(2) by (cases rule: fw_step.cases) (auto simp: fw_defs split: can_pc.split)
  with step.IH show ?case by auto
qed simp

lemma condition_run:
  assumes "fw_reachable True fw fw'" "clocks_ok fw" "received fw' = received fw"
  shows "condition_of fw \<le> condition_of fw'"
  using assms
proof (induction rule: fw_reachable.induct)
  case (step fw fw1 fw2)
  obtain e1 where e1: "received fw1 = received fw @ e1" using received_grows [OF step.hyps(1)] by blast
  obtain e2 where e2: "received fw2 = received fw1 @ e2"
    using received_grows [OF fw_reachable.step [OF fw_reachable.start step.hyps(2)]] by blast
  from e1 e2 step.prems(2) have "received fw1 = received fw" "received fw2 = received fw1" by simp_all
  with step condition_step [OF clocks_reachable [OF step.hyps(1) step.prems(1)] step.hyps(2)] show ?case
    by (meson order_trans)
qed simp

section \<open>Properties\<close>

text \<open>
  C14: the monitor is the one specified.  With the watchdog ready, in every state the firmware
  reaches from its start, the step relation of the firmware and that of the specification
  agree through \<open>monitor_of\<close> in both directions; and along every run in which no event is
  received the condition only gets worse.
\<close>

theorem monitor_implements_specification:
  assumes "fw_reachable True (safety_init True can_dev led (boot t)) fw"
  shows "(\<forall>fw'. fw_step True fw fw' \<longrightarrow> monitor_step (monitor_of fw) (monitor_of fw')) \<and>
    (\<forall>m'. monitor_step (monitor_of fw) m' \<longrightarrow> (\<exists>fw'. fw_step True fw fw' \<and> monitor_of fw' = m')) \<and>
    (\<forall>fw'. fw_reachable True fw fw' \<and> received fw' = received fw \<longrightarrow> condition_of fw \<le> condition_of fw')"
proof -
  have "clocks_ok fw" using clocks_reachable [OF assms clocks_init] .
  then show ?thesis using firmware_simulates firmware_realises condition_run by blast
qed

theorem monitor_implements_specification_witness:
  "\<exists>fw'. fw_step True (safety_init True True True (boot 0)) fw' \<and> monitor_of fw' = \<lparr>age = 100, cond = Normal\<rparr>"
proof -
  let ?start = "safety_init True True True (boot 0)"
  have "monitor_step (monitor_of ?start) \<lparr>age = 100, cond = Normal\<rparr>"
    using monitor_step.pass [of "\<lparr>age = 0, cond = Normal\<rparr>" 100] by (simp add: monitor_of_start)
  with monitor_implements_specification [OF fw_reachable.start [of True ?start]] show ?thesis by blast
qed

end
