(* ===== verification/Spec2Isabelle.thy ===== *)
theory Spec2Isabelle
  imports Py_Prelude Crc8 Someip_Protocol Stream_Parser Io_World Transport Inet Sd_Wire Sd_Messages
    Sd_Server Sd_Client Drowsiness Test_Tools Demo_Files Demo_Main Yocto_Legacy
    Argument_Parser Command_Line Mcu_Sd Mcu_Sd_Parser Mcu_Receiver Mcu_Service Mcu_Main Mcu_Boot End_To_End
    Unit_Tests Host_Sim Mcu_Host_Tests Mcu_Monitor
begin

text \<open>
  Verification of the SDV zone controller: a driver drowsiness detector on a Linux processor
  (MPU, Python) that notifies a real-time controller (MCU, C++ on Zephyr) with SOME/IP events,
  finds it by SOME/IP service discovery, and is watched by heartbeats.

  \<^bold>\<open>The program and the theories.\<close>  Each theory models the files it names, one definition for
  each function, class attribute set or loop body, with the names of the source.

  \<^item> \<open>Py_Prelude\<close>: Python's exceptions as values (\<open>res\<close> is an error or a result), slices and
    indexing, \<open>struct\<close> and \<open>int.from_bytes\<close>, and the locale \<open>codec\<close>.
  \<^item> \<open>Crc8\<close>: \<open>crc8\<close> of mpu/someip/protocol.py and \<open>e2e_crc8\<close> of MCU/src/can\_gateway.cpp.
  \<^item> \<open>Someip_Protocol\<close>: \<open>build_packet\<close>, \<open>build_notify\<close>, \<open>build_heartbeat\<close> and \<open>parse_event\<close> of
    mpu/someip/protocol.py.
  \<^item> \<open>Stream_Parser\<close>: the class \<open>StreamParser\<close> of the same file (\<open>feed\<close>, \<open>feed_bytes\<close>), an untimed
    machine \<open>reassemble\<close> it refines, and the locale \<open>frame_receiver\<close>.
  \<^item> \<open>Io_World\<close>: calls into the operating system, their order and their failures.
  \<^item> \<open>Transport\<close>: mpu/someip/transport.py and client.py, with the locale \<open>link\<close>.
  \<^item> \<open>Inet\<close>, \<open>Sd_Wire\<close>, \<open>Sd_Messages\<close>: the message part of mpu/someip/sd.py: \<open>inet_aton\<close> and
    \<open>inet_ntoa\<close>, every builder, \<open>parse_sd\<close>, and what they mean for each other; \<open>Inet\<close> also has
    the built-in \<open>int\<close> on text.
  \<^item> \<open>Sd_Server\<close>: the class \<open>SdServer\<close>: \<open>offer_once\<close> and the thread of \<open>start\<close> and \<open>stop\<close> as a
    step relation.
  \<^item> \<open>Sd_Client\<close>: the class \<open>SdClient\<close>: \<open>discover\<close> with its receive loop.
  \<^item> \<open>Drowsiness\<close>: mpu/ai/drowsiness.py: heartbeat thread, camera loop, simulation, \<open>main\<close>,
    and \<open>eye_aspect_ratio\<close>.
  \<^item> \<open>Test_Tools\<close>: mpu/ai/trigger\_test.py and scripts/pc\_sim\_test.py.
  \<^item> \<open>Demo_Files\<close>, \<open>Demo_Main\<close>: scripts/generate\_demos.py, the contents of its files and its
    \<open>main\<close> on a file system, and \<open>can_send_frame\<close> of MCU/src/can\_gateway.cpp.
  \<^item> \<open>Yocto_Legacy\<close>: the programs that the Yocto recipe installs.
  \<^item> \<open>Argument_Parser\<close>, \<open>Command_Line\<close>: the part of \<open>argparse\<close> (CPython 3.11, the version of the
    repository's CI) that the programs use; the options of drowsiness.py, trigger\_test.py,
    client.py and the Yocto trigger, with their defaults from the environment, the whole
    programs from \<open>sys.argv\<close> on, and the arguments scripts/entrypoint.sh passes.
  \<^item> \<open>Mcu_Sd\<close>, \<open>Mcu_Sd_Parser\<close>: MCU/src/someip\_sd.cpp, the C builders and parser.
  \<^item> \<open>Mcu_Receiver\<close>, \<open>Mcu_Service\<close>: MCU/src/someip\_service.cpp: \<open>someip_uart_receive\<close>,
    \<open>someip_udp_receive\<close>, \<open>someip_sd_handle\<close> and the two senders.
  \<^item> \<open>Mcu_Main\<close>: MCU/src/safety.cpp and the threads of MCU/src/main.cpp.
  \<^item> \<open>Mcu_Boot\<close>: the set-up in \<open>main\<close> and \<open>someip_init\<close>, \<open>someip_receive\<close> on the socket, and the
    firmware whose events come from that socket (\<open>node_step\<close>).
  \<^item> \<open>End_To_End\<close>: detector and offer server on one side of a UDP wire, firmware on the other.
  \<^item> \<open>Mcu_Monitor\<close>: the specification of the safety monitor, and that the firmware implements it.
  \<^item> \<open>Host_Sim\<close>: MCU/tests/sd\_host\_sim.cpp, and the PC simulation in which it runs.
  \<^item> \<open>Unit_Tests\<close>, \<open>Mcu_Host_Tests\<close>: the assertions of mpu/tests and of
    MCU/tests/test\_someip\_sd\_host.cpp, each evaluated on the model.

  This theory holds the properties that span components.

  \<^bold>\<open>How state and operations are modelled.\<close>  Objects are records of their attributes, passed and
  returned; exceptions are values of \<open>py_error\<close>, so each \<open>raise\<close> is a branch.  Python's integers
  are \<open>int\<close>, bytes \<open>8 word\<close>, the C integers words of their width.  The outside is a parameter:
  an \<open>env\<close> says for each call whether it raises, and a trace lists the calls made; clocks are
  functions from the number of the reading to a time; received datagrams, camera frames and
  key strokes are lists.  Threads are step relations with histories (\<open>sd_reachable\<close>,
  \<open>fw_reachable\<close>, \<open>node_reachable\<close>).  In C, a read beyond a buffer makes the result None.

  \<^bold>\<open>What is shown.\<close>

  \<^item> Events: which byte strings \<open>parse_event\<close> accepts; that it inverts \<open>build_packet\<close>; which
    changes of a message the checksum detects.
  \<^item> Streams: StreamParser refines the untimed machine; a packet is delivered after a pause,
    and packets without pauses are lost from the second on, because the padding of one is
    taken for the header of the next.  The firmware's receiver is the same machine, so the
    heartbeats of the MPU, 50 ms apart, are at the mercy of its 50 ms timeout.
  \<^item> Discovery: messages are read back; what \<open>parse_sd\<close> raises and returns; the sessions and
    flags of the offers; at most one thread; \<open>stop\<close> ends; \<open>discover\<close> returns and reports the
    last announcement of each service; a server's offer is discovered.  The firmware's
    packets are those of sd.py byte for byte, its parser agrees with \<open>parse_sd\<close> and never
    reads out of bounds, and it answers a live offer with one subscription.
  \<^item> Detector: heartbeats survive failures, alarms are exactly those specified for the faces
    seen, and where an exception ends the program.
  \<^item> Safety: the monitor's state as a function of the age of the last heartbeat, and that the
    firmware and a specification with that age only simulate each other; that SAFE
    always ends in a reset or a new heartbeat; that a level can be lost between the threads; that after its start the
    firmware lives 150 ms for each event it takes, and what a failed set-up means for it.
  \<^item> Command lines: options set what they say, usage errors make no call, the transport named
    in the environment is checked by the container's entry point only.
  \<^item> The whole: over UDP the levels on the CAN bus are the alarms of the camera loop, whatever
    the interleaving with the heartbeats, and each offer is answered by a subscription;
    over the serial line without pauses no alarm reaches the bus and the firmware is reset
    within 300 ms of its start; the PC simulation ends with status 0 when the simulator hears an
    offer in its first eight receptions and two successive events in the next six.

  \<^bold>\<open>Interfaces.\<close>  \<open>codec\<close> (interpreted for events and for
  FindService messages), \<open>link\<close> (for UDP, UART and either) and its
  extension \<open>quiet_link\<close> (for the heartbeat thread), \<open>frame_receiver\<close> (for StreamParser and
  for the firmware's UART receiver).

  \<^bold>\<open>Bounds and fuel.\<close>  Loops over data are structural or have a measure.  \<open>discover_loop\<close> is a
  partial function, and \<open>discover_returns\<close> shows that it has a value once the clock reaches
  the deadline.  The endless loops of the trigger program take fuel, None meaning that it ran
  out; no statement about them needs more than that they have not returned.  \<open>steady\<close> and \<open>spaced\<close> say
  of the clock readings what pauses the bytes have.

  \<^bold>\<open>Not modelled.\<close>  Logging and console output; the command line of pc\_sim\_test.py (a
  positional path and a floating point number); face detection and floating point
  arithmetic, which are parameters; write errors of files that could be opened;
  Dockerfiles, recipes and the other shell scripts.
  Wire times and the race on the CAN counter between the timer callback and
  \<open>can_thread\<close> are below the grain of the steps.
\<close>

section \<open>Components together\<close>

lemma heartbeat_packets_built:
  "\<forall>(e, b, ses, q) \<in> set (map (\<lambda>i. (EVENT_HEARTBEAT, word_of_int (int i), 1, heartbeat_packet (int i))) is).
     build_packet e [b] ses = Inr q"
proof -
  have "build_packet EVENT_HEARTBEAT [word_of_int (int i)] 1 = Inr (heartbeat_packet (int i))" for i
    using build_heartbeat_packet [of "int i"] unfolding build_heartbeat_eq .
  then show ?thesis by auto
qed

lemma uart_heartbeats:
  assumes "serial u \<noteq> None"
  shows "\<exists>c tr'. heartbeat_run (transport_send (\<lambda>_. None) (Uart u)) n 0 [] = (Inr (), c, tr') \<and>
    delivered tr' = map (\<lambda>i. heartbeat_packet (int i)) [0..<n]"
proof -
  have "fst (transport_send (\<lambda>_. None) (Uart u) p tr) = Inr ()" for p tr
    using assms by (auto simp: uart_send_def io_bind_def perform_def)
  from any_link.heartbeat_run_all [OF this, of n 0 "[]"] show ?thesis by auto
qed

lemma heartbeats_on_wire:
  assumes "serial u \<noteq> None" "0 < n"
    and "heartbeat_run (transport_send (\<lambda>_. None) (Uart u)) n 0 [] = (r, c, tr')"
  shows "delivered tr' = map (\<lambda>i. heartbeat_packet (int i)) [0..<n]"
    and "length (concat (delivered tr')) = 24 * n"
    and "concat (delivered tr') = heartbeat_packet 0 @ concat (map (\<lambda>(e, b, ses, q). q)
      (map (\<lambda>i. (EVENT_HEARTBEAT, word_of_int (int i) :: byte, 1 :: int, heartbeat_packet (int i))) [1..<n]))"
proof -
  show wire: "delivered tr' = map (\<lambda>i. heartbeat_packet (int i)) [0..<n]"
    using uart_heartbeats [OF assms(1), of n] assms(3) by auto
  then show "length (concat (delivered tr')) = 24 * n"
    by (simp add: length_concat o_def heartbeat_packet_def sum_list_triv)
  obtain m where m: "n = Suc m" using assms(2) by (cases n) auto
  show "concat (delivered tr') = heartbeat_packet 0 @ concat (map (\<lambda>(e, b, ses, q). q)
      (map (\<lambda>i. (EVENT_HEARTBEAT, word_of_int (int i) :: byte, 1 :: int, heartbeat_packet (int i))) [1..<n]))"
    by (simp add: wire m o_def upt_conv_Cons del: upt_Suc)
qed

lemma first_heartbeat: "build_packet EVENT_HEARTBEAT [0] 1 = Inr (heartbeat_packet 0)"
  using build_heartbeat_packet [of 0] by (simp add: build_heartbeat_eq)

text \<open>
  C6: heartbeats over the serial line, received by StreamParser.  The bytes of \<open>n\<close>
  heartbeats sent by the thread are parsed to all \<open>n\<close> counters, in order, when the line is
  silent for more than 50 ms before each packet; but when no pause exceeds 50 ms, only the
  first heartbeat is ever seen.  The thread's own period is 50 ms.
\<close>

theorem heartbeats_over_uart:
  assumes "serial u \<noteq> None" "0 < n"
    and "heartbeat_run (transport_send (\<lambda>_. None) (Uart u)) n 0 [] = (r, c, tr')"
  shows "(spaced clk k n DEFAULT_TIMEOUT_MS \<longrightarrow>
      (\<exists>p'. feed_bytes clk k (concat (delivered tr')) (new_stream_parser DEFAULT_TIMEOUT_MS) =
        (Inr (map (\<lambda>i. (EVENT_HEARTBEAT, [word_of_int (int i)])) [0..<n]), p'))) \<and>
    (steady clk k (24 * n) DEFAULT_TIMEOUT_MS \<longrightarrow>
      (\<exists>p'. feed_bytes clk k (concat (delivered tr')) (new_stream_parser DEFAULT_TIMEOUT_MS) =
        (Inr [(EVENT_HEARTBEAT, [0])], p')))"
proof -
  let ?p = "new_stream_parser DEFAULT_TIMEOUT_MS"
  let ?msg = "\<lambda>i. (EVENT_HEARTBEAT, word_of_int (int i) :: byte, 1 :: int, heartbeat_packet (int i))"
  note wire = heartbeats_on_wire [OF assms]
  have all: "delivered tr' = map (\<lambda>(e, b, ses, q). q) (map ?msg [0..<n])"
    by (simp add: wire(1) o_def)
  have "steady clk k (24 * n) DEFAULT_TIMEOUT_MS \<Longrightarrow> parsed_events (clk, k, concat (delivered tr')) = [(EVENT_HEARTBEAT, [0])]"
    using parser_rx.delivers_first [OF _ first_heartbeat heartbeat_packets_built [of "[1..<n]"], of "(clk, k, concat (delivered tr'))"]
      wire(2,3) by simp
  then have steady: "steady clk k (24 * n) DEFAULT_TIMEOUT_MS \<Longrightarrow>
      \<exists>p'. feed_bytes clk k (concat (delivered tr')) ?p = (Inr [(EVENT_HEARTBEAT, [0])], p')"
    by (rule parsed_eventsD)
  have fresh: "buf ?p = []" "timeout_ms ?p = DEFAULT_TIMEOUT_MS" by (simp_all add: new_stream_parser_def)
  have "spaced clk k n DEFAULT_TIMEOUT_MS \<Longrightarrow>
      \<exists>p'. feed_bytes clk k (concat (delivered tr')) ?p = (Inr (map (\<lambda>(e, b, ses, q). (e, [b])) (map ?msg [0..<n])), p')"
    using spaced_delivered [OF heartbeat_packets_built [of "[0..<n]"], of ?p clk k] fresh
    unfolding all by simp
  with steady show ?thesis by (simp add: o_def)
qed

theorem heartbeats_over_uart_witness:
  "\<exists>r c tr' p'. heartbeat_run (transport_send (\<lambda>_. None) (Uart \<lparr>serial = Some (''/dev/ttyS0'', 115200)\<rparr>)) 3 0 [] = (r, c, tr') \<and>
     feed_bytes (\<lambda>i. 0 + real i / 1000) 0 (concat (delivered tr')) (new_stream_parser DEFAULT_TIMEOUT_MS) =
       (Inr [(EVENT_HEARTBEAT, [0])], p')"
proof -
  let ?u = "\<lparr>serial = Some (''/dev/ttyS0'', 115200)\<rparr>"
  obtain r c tr' where run: "heartbeat_run (transport_send (\<lambda>_. None) (Uart ?u)) 3 0 [] = (r, c, tr')"
    by (metis prod.exhaust)
  have "steady (\<lambda>i. 0 + real i / 1000) 0 (24 * 3) DEFAULT_TIMEOUT_MS"
    unfolding DEFAULT_TIMEOUT_MS_def by (rule steady_millisecond)
  with heartbeats_over_uart [OF _ _ run] run show ?thesis by fastforce
qed

lemma offered_discovered:
  assumes "srv = new_sd_server sid iid ip port multicast sd_port period_ms"
    and "inet_aton ip = Inr a" "0 \<le> sd_port" "sd_port \<le> 65535"
    and "offers (\<lambda>_. None) n srv [] = (srv', tr)" "i < n"
    and "reachable_group cl" "clk 1 < deadline_of cl timeout clk"
    and "recv 0 = Datagram (delivered tr ! i)" "recv 1 = TimedOut"
    and "asked = None \<or> asked = Some (sid mod 65536)"
  shows "\<exists>ip' tr'. inet_aton ip' = Inr a \<and>
    discover (\<lambda>_. None) clk recv cl asked None timeout [] =
      Some (Inr [\<lparr>svc_service_id = sid mod 65536, svc_instance_id = iid mod 65536, svc_ip = ip',
                 svc_port = port mod 65536\<rparr>], tr')"
proof -
  have ready: "sendable srv" using assms(1-4) by (simp add: new_sd_server_def sendable_def)
  obtain pkts where pkts: "delivered tr = pkts" "\<forall>i < n. offer_packet (nth_server srv i) = Inr (pkts ! i)"
    using offers_quiet [OF ready, of "[]" "\<lambda>_. None" n] assms(5) by auto
  have same: "srv_service_id (nth_server srv k) = sid \<and> srv_instance_id (nth_server srv k) = iid \<and>
      srv_ip (nth_server srv k) = ip \<and> srv_port (nth_server srv k) = port" for k
    by (induction k) (simp_all add: nth_server_def next_session_def assms(1) new_sd_server_def)
  have "build_offer_service sid iid ip port (srv_session (nth_server srv i)) TTL_DEFAULT 0
      (if srv_first (nth_server srv i) then 0xC0 else 0x40) = Inr (delivered tr ! i)"
  proof -
    have "offer_packet (nth_server srv i) = Inr (delivered tr ! i)" using pkts assms(6) by simp
    then show ?thesis unfolding offer_packet_def same [of i, THEN conjunct1] using same [of i] by simp
  qed
  from discover_hears_offer [OF assms(7,8) this assms(11), of None recv "[]"] assms(2,9,10) show ?thesis
    by simp
qed

text \<open>
  C33: server and client agree.  Any packet a server sends in a run without failures, given
  to a discovering client that asks for everything or for that service, makes it return
  exactly that service: the identifiers and port (at their width) and an address text that
  denotes the server's address.
\<close>

theorem server_offer_is_discovered:
  assumes "srv = new_sd_server sid iid ip port multicast sd_port period_ms"
    and "inet_aton ip = Inr a" "0 \<le> sd_port" "sd_port \<le> 65535"
    and "offers (\<lambda>_. None) n srv [] = (srv', tr)" "i < n"
    and "reachable_group cl" "clk 1 < deadline_of cl timeout clk"
    and "recv 0 = Datagram (delivered tr ! i)" "recv 1 = TimedOut"
    and "asked = None \<or> asked = Some (sid mod 65536)"
  shows "\<exists>ip' tr'. inet_aton ip' = Inr a \<and>
    discover (\<lambda>_. None) clk recv cl asked None timeout [] =
      Some (Inr [\<lparr>svc_service_id = sid mod 65536, svc_instance_id = iid mod 65536, svc_ip = ip',
                 svc_port = port mod 65536\<rparr>], tr')"
  using assms by (rule offered_discovered)

theorem server_offer_is_discovered_witness:
  "\<exists>srv' tr ip' tr'. offers (\<lambda>_. None) 2 (new_sd_server 0x0100 1 ''10.0.0.1'' 30490 SD_MULTICAST SD_PORT 2000) [] = (srv', tr) \<and>
     discover (\<lambda>_. None) (\<lambda>_. 0) (\<lambda>k. if k = 0 then Datagram (delivered tr ! 1) else TimedOut)
       \<lparr>cl_multicast = SD_MULTICAST, cl_sd_port = SD_PORT, cl_timeout = 2\<rparr> (Some 0x0100) None None [] =
     Some (Inr [\<lparr>svc_service_id = 0x0100, svc_instance_id = 1, svc_ip = ip', svc_port = 30490\<rparr>], tr')"
proof -
  let ?srv = "new_sd_server 0x0100 1 ''10.0.0.1'' 30490 SD_MULTICAST SD_PORT 2000"
  obtain srv' tr where run: "offers (\<lambda>_. None) 2 ?srv [] = (srv', tr)" by fastforce
  have ip: "inet_aton ''10.0.0.1'' = Inr [10, 0, 0, 1]" by code_simp
  from server_offer_is_discovered [OF refl ip _ _ run _ default_client, of 1 "\<lambda>_. 0" None
      "\<lambda>k. if k = 0 then Datagram (delivered tr ! 1) else TimedOut" "Some 0x0100"] run
  show ?thesis by (auto simp: deadline_of_def)
qed

lemma one_heartbeat_received:
  assumes "serial u \<noteq> None" "0 < n"
    and "heartbeat_run (transport_send (\<lambda>_. None) (Uart u)) n 0 [] = (r, c, tr')"
    and "prompt passes" "input_bytes passes = concat (delivered tr')"
  shows "receive_all passes rx_boot = [(word_of_int EVENT_HEARTBEAT, 0)]"
proof -
  note wire = heartbeats_on_wire [OF assms(1-3)]
  have "\<exists>e. receive_all passes rx_boot = [e] \<and> same_event e (EVENT_HEARTBEAT, [0])"
    using uart_rx.delivers_first [OF assms(4) first_heartbeat heartbeat_packets_built [of "[1..<n]"]] assms(5) wire(3)
    by simp
  then show ?thesis by (auto simp: same_event_def prod_eq_iff)
qed



text \<open>
  The firmware on the same line.  The bytes of \<open>n\<close> heartbeats that the MPU's thread
  writes to the serial line, arriving without a pause of more than 50 ms, give the
  firmware's receiver one event: the first heartbeat.
\<close>

theorem firmware_sees_one_heartbeat:
  assumes "serial u \<noteq> None" "0 < n"
    and "heartbeat_run (transport_send (\<lambda>_. None) (Uart u)) n 0 [] = (r, c, tr')"
    and "prompt passes" "input_bytes passes = concat (delivered tr')"
  shows "receive_all passes rx_boot = [(word_of_int EVENT_HEARTBEAT, 0)]"
  using assms by (rule one_heartbeat_received)

theorem firmware_sees_one_heartbeat_witness:
  "\<exists>r c tr'. heartbeat_run (transport_send (\<lambda>_. None) (Uart \<lparr>serial = Some (''/dev/ttyS0'', 115200)\<rparr>)) 3 0 [] = (r, c, tr') \<and>
     receive_all [(0, map (Pair 0) (concat (delivered tr')))] rx_boot = [(0x8002, 0)]"
proof -
  let ?u = "\<lparr>serial = Some (''/dev/ttyS0'', 115200)\<rparr>"
  obtain r c tr' where run: "heartbeat_run (transport_send (\<lambda>_. None) (Uart ?u)) 3 0 [] = (r, c, tr')"
    by (metis prod.exhaust)
  have "prompt [(0, map (Pair 0) (concat (delivered tr')))]" by (simp add: prompt_def)
  moreover have "input_bytes [(0, map (Pair 0) (concat (delivered tr')))] = concat (delivered tr')"
    by (simp add: input_bytes_def o_def)
  ultimately show ?thesis using firmware_sees_one_heartbeat [OF _ _ run] run by fastforce
qed

text \<open>The packets of the two threads on one serial line.\<close>

definition sent_packet :: "bytes \<Rightarrow> bool" where
  "sent_packet pkt \<longleftrightarrow> (\<exists>i. pkt = heartbeat_packet i \<or> pkt = notify_packet i)"

lemma sent_packets_built:
  assumes "\<forall>pkt \<in> set pkts. sent_packet pkt"
  shows "\<exists>ms. map (\<lambda>(e, b, ses, q). q) ms = pkts \<and> (\<forall>(e, b, ses, q) \<in> set ms. build_packet e [b] ses = Inr q)"
  using assms
proof (induction pkts)
  case (Cons pkt pkts)
  then obtain ms where ms: "map (\<lambda>(e, b, ses, q). q) ms = pkts"
    "\<forall>(e, b, ses, q) \<in> set ms. build_packet e [b] ses = Inr q" by auto
  obtain e i where "build_packet e [word_of_int i] 1 = Inr pkt"
    using Cons.prems build_heartbeat_packet build_notify_packet
    unfolding sent_packet_def build_heartbeat_eq build_notify_eq by fastforce
  with ms show ?case by (intro exI [of _ "(e, word_of_int i, 1, pkt) # ms"]) simp
qed simp

lemma mixed_packets:
  assumes "camera_loop env1 (\<lambda>level. send_notify (transport_send env1 tp) level 1) frames 0 [] = (r, trC)"
    and "heartbeat_run (transport_send env2 tp) n 0 [] = (r2, c, trH)" "\<forall>i. env2 i \<noteq> Some KeyboardInterrupt"
    and "pkts \<in> shuffles (delivered trC) (delivered trH)"
  shows "\<forall>pkt \<in> set pkts. sent_packet pkt"
  using camera_events [OF assms(1)] heartbeat_events [OF assms(3,2)] set_shuffles [OF assms(4)]
  by (auto simp: sent_packet_def)

lemma first_of_mixed:
  assumes "\<forall>pkt \<in> set pkts. sent_packet pkt" "pkts = heartbeat_packet i # rest"
    and "prompt passes" "input_bytes passes = concat pkts"
  shows "receive_all passes rx_boot = [(word_of_int EVENT_HEARTBEAT, word_of_int i)]"
proof -
  obtain ms where ms: "map (\<lambda>(e, b, ses, q). q) ms = rest" "\<forall>(e, b, ses, q) \<in> set ms. build_packet e [b] ses = Inr q"
    using sent_packets_built [of rest] assms(1,2) by auto
  have "build_packet EVENT_HEARTBEAT [word_of_int i] 1 = Inr (heartbeat_packet i)"
    using build_heartbeat_packet [of i] unfolding build_heartbeat_eq .
  from uart_rx.delivers_first [OF assms(3) this ms(2)] assms(2,4) ms(1)
  have "\<exists>e. receive_all passes rx_boot = [e] \<and> same_event e (EVENT_HEARTBEAT, [word_of_int i])" by simp
  then show ?thesis by (auto simp: same_event_def prod_eq_iff)
qed

text \<open>
  C4: on the serial line, the alarms are lost and the heartbeats do not keep the firmware
  alive.  The packets of the camera loop and of the heartbeat thread are written in any
  interleaving that starts with a heartbeat; their bytes arrive without a pause of more than
  50 ms; the firmware, with its watchdog ready, handles the events its receiver has delivered so
  far.  Then in every state it reaches, all its CAN frames are warnings of the monitor, none carries
  a level of the detector, and at most 300 ms have passed since its start: the chip is
  reset although the detector is alive.
\<close>

theorem serial_line_loses_alarms:
  assumes "camera_loop env1 (\<lambda>level. send_notify (transport_send env1 (Uart u)) level 1) frames 0 [] = (r, trC)"
    and "heartbeat_run (transport_send env2 (Uart u)) n 0 [] = (r2, c, trH)" "\<forall>i. env2 i \<noteq> Some KeyboardInterrupt"
    and "pkts \<in> shuffles (delivered trC) (delivered trH)" "pkts = heartbeat_packet i # rest"
    and "prompt passes" "input_bytes passes = concat pkts"
    and "fw_reachable True (safety_init True can_dev led (boot t)) fw"
    and "prefix (received fw) (receive_all passes rx_boot)"
  shows "set (can_frames fw) \<subseteq> {0xFF} \<and> uptime fw \<le> t + 300"
proof -
  have one: "receive_all passes rx_boot = [(word_of_int EVENT_HEARTBEAT, word_of_int i)]"
    using first_of_mixed [OF mixed_packets [OF assms(1-4)] assms(5-7)] .
  have "length (received fw) \<le> 1" using prefix_length_le [OF assms(9)] one by simp
  then have "uptime fw \<le> t + 300" using alive_reachable(2) [OF assms(8)] by simp
  moreover have "set (received fw) \<subseteq> {(word_of_int EVENT_HEARTBEAT, word_of_int i)}"
    using set_mono_prefix [OF assms(9)] one by simp
  then have "notified fw = {}" by (auto simp: notified_def)
  ultimately show ?thesis using can_reachable [OF assms(8) can_init] by (auto simp: can_ok_def)
qed

theorem serial_line_loses_alarms_witness:
  "\<exists>trC r2 c trH passes. camera_loop (\<lambda>_. None)
      (\<lambda>level. send_notify (transport_send (\<lambda>_. None) (Uart \<lparr>serial = Some (''/dev/ttyS0'', 115200)\<rparr>)) level 1)
      [(replicate 15 0, False)] 0 [] = (Inr 15, trC) \<and> length (delivered trC) = 1 \<and>
     heartbeat_run (transport_send (\<lambda>_. None) (Uart \<lparr>serial = Some (''/dev/ttyS0'', 115200)\<rparr>)) 9 0 [] = (r2, c, trH) \<and>
     input_bytes passes = concat (delivered trH @ delivered trC) \<and> receive_all passes rx_boot = [(0x8002, 0)] \<and>
     can_frames (on_event True (0x8002, 0) (safety_init True True True (boot 0))) = []"
proof -
  let ?u = "\<lparr>serial = Some (''/dev/ttyS0'', 115200)\<rparr>" and ?start = "safety_init True True True (boot 0)"
  let ?send = "transport_send (\<lambda>_. None) (Uart ?u)" and ?frames = "[(replicate 15 0, False)]"
  have sends: "fst (?send p tr) = Inr ()" for p tr by (simp add: uart_send_def io_bind_def perform_def)
  then have "\<exists>tr'. send_notify ?send l 1 tr = (Inr (), tr')" for l tr
    by (simp add: send_notify_def build_notify_packet io_bind_def io_res_def prod_eq_iff)
  from camera_loop_total [of "\<lambda>l. send_notify ?send l 1", OF this] obtain c0 trC
    where cam: "camera_loop (\<lambda>_. None) (\<lambda>level. send_notify ?send level 1) ?frames 0 [] = (Inr c0, trC)" by blast
  have spec: "alarms 0 (faces_seen ?frames) = [80]" "fold next_counter (faces_seen ?frames) 0 = 15" by code_simp+
  have c0: "c0 = 15" using any_link.camera_loop_alarms [OF cam] spec(2) by (auto simp: sent_prefix_def)
  have one: "length (delivered trC) = 1" using camera_events [OF cam] spec(1) by auto
  obtain r2 c trH where hb: "heartbeat_run ?send 9 0 [] = (r2, c, trH)" by (metis prod.exhaust)
  have "delivered trH = map (\<lambda>i. heartbeat_packet (int i)) [0..<9]"
    using uart_heartbeats [of ?u 9] hb by auto
  then obtain rest where first: "delivered trH @ delivered trC = heartbeat_packet 0 # rest"
    by (simp add: upt_conv_Cons del: upt_Suc)
  let ?passes = "[(0, map (Pair 0) (concat (delivered trH @ delivered trC)))]"
  have line: "prompt ?passes" "input_bytes ?passes = concat (delivered trH @ delivered trC)"
    by (simp_all add: prompt_def input_bytes_def o_def)
  have mix: "delivered trH @ delivered trC \<in> shuffles (delivered trC) (delivered trH)"
    using append_in_shuffles shuffles_commutes by blast
  have quiet: "\<forall>i. (\<lambda>_. None) i \<noteq> Some KeyboardInterrupt" by simp
  have seen: "receive_all ?passes rx_boot = [(0x8002, 0)]"
    using first_of_mixed [OF mixed_packets [OF cam hb quiet mix] first line] by simp
  have "fw_reachable True ?start (on_event True (0x8002, 0) ?start)"
    by (rule reach_event [OF fw_reachable.start]) (simp add: safety_init_boot)
  from serial_line_loses_alarms [OF cam hb quiet mix first line this] seen cam hb c0 one line
  show ?thesis by (auto simp: safety_init_boot)
qed

text \<open>
  C40: the installed detector and the firmware.  A packet of the Yocto programs, which
  \<open>parse_event\<close> of the MPU's own library rejects for its length field, is taken by the
  firmware's UDP receiver with its level: it does not compare the field with the datagram.
\<close>

theorem firmware_accepts_yocto_packet:
  assumes "yocto_packet level = Inr pkt" "take 24 data = pkt" "length data = 64"
  shows "parse_event pkt = Inl (ValueError (LengthInconsistent 17)) \<and>
    someip_udp_receive mem data 24 s = Some (Some (word_of_int EVENT_NOTIFY, word_of_int level), [], s)"
proof
  have pkt: "pkt = legacy_packet level" using assms(1) by (auto simp: yocto_packet_eq split: if_splits)
  show "parse_event pkt = Inl (ValueError (LengthInconsistent 17))" unfolding pkt by (rule legacy_rejected)
  have sl: "py_slice data a b = py_slice (legacy_packet level) a b" if "b \<le> 24" for a b
    using py_slice_prefix [OF that, of data a] assms(2) pkt by simp
  have nth: "data ! k = legacy_packet level ! k" if "k < 24" for k
    using assms(2) pkt that by (metis nth_take)
  have fields: "py_slice (legacy_packet level) 0 2 = be_bytes 2 SERVICE_ID"
    "py_slice (legacy_packet level) 2 4 = be_bytes 2 EVENT_NOTIFY"
    "py_slice (legacy_packet level) 4 8 = be_bytes 4 17"
    unfolding legacy_packet_def by (rule event_header_slices)+
  have "legacy_packet level ! 14 = 2" "legacy_packet level ! 16 = word_of_int level"
    by (simp_all add: legacy_packet_def nth_append) (simp add: event_header_def nth_append)
  then show "someip_udp_receive mem data 24 s = Some (Some (word_of_int EVENT_NOTIFY, word_of_int level), [], s)"
    using sl [of 2 0] sl [of 4 2] sl [of 8 4] nth [of 14] nth [of 16]
    by (simp add: someip_udp_receive_def fields Let_def del: py_slice_0 be_bytes.simps)
qed

theorem firmware_accepts_yocto_packet_witness:
  "someip_udp_receive (replicate 64 0) (legacy_packet 90 @ replicate 40 0) 24 0 = Some (Some (0x8001, 90), [], 0)"
proof -
  have "yocto_packet 90 = Inr (legacy_packet 90)" by (simp add: yocto_packet_eq)
  from firmware_accepts_yocto_packet [OF this, of "legacy_packet 90 @ replicate 40 0" "replicate 64 0" 0]
  show ?thesis by simp
qed

end
